(* ===== verification/Prelude.thy ===== *)
theory Prelude
  imports Main "HOL-Library.Word"
begin

text \<open>
  Shared vocabulary of the development: the named theorem collections that the component
  theories fill, the names of the machine types, two's-complement wrap-around of a Go \<open>int64\<close>,
  the points in time and durations of package \<open>time\<close> as integers of nanoseconds, and the
  generic lemmas on lists (the trailing \<open>n\<close> elements of a list, loops that keep elements)
  that more than one component needs.
\<close>

named_theorems go_eval
  "characteristic equations that evaluate a modelled operation on a concrete input"

named_theorems inv_intros
  "every operation of a component preserves its invariant"

section \<open>Machine types\<close>

type_synonym u64 = "64 word"
  \<comment> \<open>Go \<open>uint64\<close>\<close>

type_synonym instant = int
  \<comment> \<open>a \<open>time.Time\<close>: nanoseconds since the Unix epoch\<close>

type_synonym duration = int
  \<comment> \<open>a \<open>time.Duration\<close>: nanoseconds, in the range of an \<open>int64\<close>\<close>

abbreviation max_int64 :: int where
  "max_int64 \<equiv> 9223372036854775807"

abbreviation min_int64 :: int where
  "min_int64 \<equiv> -9223372036854775808"

definition wrap64 :: "int \<Rightarrow> int" where
  \<comment> \<open>the \<open>int64\<close> that two's-complement arithmetic leaves of an exact result\<close>
  "wrap64 x = (x + 9223372036854775808) mod 18446744073709551616 - 9223372036854775808"

lemma wrap64_range: "min_int64 \<le> wrap64 x" "wrap64 x \<le> max_int64"
  using pos_mod_bound [of "18446744073709551616" "x + 9223372036854775808"]
  by (simp_all add: wrap64_def)

lemma wrap64_id [simp]: "min_int64 \<le> x \<Longrightarrow> x \<le> max_int64 \<Longrightarrow> wrap64 x = x"
  by (simp add: wrap64_def)

definition sat64 :: "int \<Rightarrow> int" where
  \<comment> \<open>the saturating result of \<open>time.Time.Sub\<close> and \<open>time.Since\<close>\<close>
  "sat64 x = max min_int64 (min max_int64 x)"

lemma sat64_id [simp]: "min_int64 \<le> x \<Longrightarrow> x \<le> max_int64 \<Longrightarrow> sat64 x = x"
  by (simp add: sat64_def)

definition zero_time :: instant where
  \<comment> \<open>the zero \<open>time.Time\<close>, January 1 of year 1, 00:00:00 UTC\<close>
  "zero_time = - 62135596800000000000"

abbreviation second :: duration where
  "second \<equiv> 1000000000"

abbreviation millisecond :: duration where
  "millisecond \<equiv> 1000000"

abbreviation minute :: duration where
  "minute \<equiv> 60000000000"

section \<open>Lists\<close>

definition lastn :: "nat \<Rightarrow> 'a list \<Rightarrow> 'a list" where
  \<comment> \<open>the trailing \<open>n\<close> elements, all of them when there are fewer\<close>
  "lastn n xs = drop (length xs - n) xs"

lemma lastn_Nil [simp]: "lastn n [] = []"
  by (simp add: lastn_def)

lemma length_lastn [simp]: "length (lastn n xs) = min n (length xs)"
  by (simp add: lastn_def)

lemma lastn_all [simp]: "length xs \<le> n \<Longrightarrow> lastn n xs = xs"
  by (simp add: lastn_def)

lemma lastn_snoc: "lastn (Suc n) (xs @ [x]) = lastn n xs @ [x]"
  by (simp add: lastn_def)

lemma last_lastn [simp]: "0 < n \<Longrightarrow> xs \<noteq> [] \<Longrightarrow> last (lastn n xs) = last xs"
  by (simp add: lastn_def last_drop)

lemma lastn_lastn [simp]: "lastn n (lastn m xs) = lastn (min n m) xs"
  by (cases "n \<le> m") (auto simp: lastn_def min_def intro: arg_cong [where f = "\<lambda>k. drop k xs"])

lemma lastn_append_lastn: "lastn n (lastn n xs @ ys) = lastn n (xs @ ys)"
proof (cases "length xs \<le> n")
  case True
  then show ?thesis by simp
next
  case False
  then show ?thesis
    by (cases "length ys \<le> n") (auto simp: lastn_def min_def add.commute)
qed

lemma lastn_eq_Nil [simp]: "lastn n xs = [] \<longleftrightarrow> n = 0 \<or> xs = []"
  by (cases xs) (auto simp: lastn_def)

lemma set_lastn: "set (lastn n xs) \<subseteq> set xs"
  by (auto simp: lastn_def dest: in_set_dropD)

lemma sorted_wrt_lastn: "sorted_wrt P xs \<Longrightarrow> sorted_wrt P (lastn n xs)"
  by (simp add: lastn_def sorted_wrt_drop)

lemma filter_from_sorted:
  fixes f :: "'a \<Rightarrow> 'b::linorder"
  assumes "sorted (map f xs)"
  shows "filter (\<lambda>x. \<not> f x < c) xs = dropWhile (\<lambda>x. f x < c) xs"
  using assms
proof (induction xs)
  case Nil
  then show ?case by simp
next
  case (Cons x xs)
  show ?case
  proof (cases "f x < c")
    case True
    then show ?thesis using Cons by simp
  next
    case False
    then have "filter (\<lambda>x. \<not> f x < c) xs = xs"
      using Cons.prems by (intro filter_True) auto
    then show ?thesis using False by simp
  qed
qed

lemma fold_max_image:
  fixes f :: "'a \<Rightarrow> 'b::linorder"
  shows "fold (\<lambda>s acc. max acc (f s)) xs a = Max (insert a (f ` set xs))"
proof -
  have "(\<lambda>s acc. max acc (f s)) = max \<circ> f" by (auto simp: fun_eq_iff max.commute)
  then have "fold (\<lambda>s acc. max acc (f s)) xs a = fold max (map f xs) a" by (simp add: fold_map)
  also have "\<dots> = Max (set (a # map f xs))" by (simp only: Max.set_eq_fold)
  finally show ?thesis by simp
qed

lemma rev_conv_nth: "rev xs = map (\<lambda>i. xs ! (length xs - Suc i)) [0..<length xs]"
  by (rule nth_equalityI) (simp_all add: rev_nth)

section \<open>Loops over a \<open>select\<close>\<close>

text \<open>
  The background goroutines are \<open>for \<dots> select\<close> loops that receive from a ticker and from the context. \<open>pick k\<close>
  is the case the \<open>k\<close>-th \<open>select\<close> takes: \<open>None\<close> the context, which ends the loop, \<open>Some f\<close> the ticker, with what its
  branch does. A loop that never picks the context has no result.
\<close>

partial_function (option) until_done :: "(nat \<Rightarrow> ('s \<Rightarrow> 's) option) \<Rightarrow> nat \<Rightarrow> 's \<Rightarrow> 's option" where
  "until_done pick k s = (case pick k of None \<Rightarrow> Some s | Some f \<Rightarrow> until_done pick (Suc k) (f s))"

definition work_of :: "(nat \<Rightarrow> ('s \<Rightarrow> 's) option) \<Rightarrow> nat \<Rightarrow> nat \<Rightarrow> 's \<Rightarrow> 's" where
  \<comment> \<open>the branches taken from the \<open>k\<close>-th up to the \<open>n\<close>-th \<open>select\<close>\<close>
  "work_of pick k n = fold (\<lambda>i. the (pick i)) [k..<n]"

lemma until_done_returns:
  assumes "k \<le> n" "pick n = None" "\<forall>i. k \<le> i \<and> i < n \<longrightarrow> pick i \<noteq> None"
  shows "until_done pick k s = Some (work_of pick k n s)"
  using assms
proof (induction "n - k" arbitrary: k s)
  case 0
  then show ?case by (simp add: until_done.simps work_of_def)
next
  case (Suc d)
  then have k: "k < n" by simp
  then obtain f where f: "pick k = Some f" using Suc.prems(3) by blast
  have "until_done pick (Suc k) (f s) = Some (work_of pick (Suc k) n (f s))"
    using Suc k by (intro Suc.hyps(1)) simp_all
  moreover have "work_of pick k n s = work_of pick (Suc k) n (f s)"
    using k f by (simp add: work_of_def upt_conv_Cons)
  ultimately show ?case by (subst until_done.simps) (simp add: f)
qed

lemma until_done_picked: "until_done pick k s = Some s' \<Longrightarrow> \<exists>n \<ge> k. pick n = None"
proof (induction arbitrary: s' rule: until_done.raw_induct [rotated -1, consumes 1])
  case (1 f pick k s y)
  show ?case
  proof (cases "pick k")
    case (Some g)
    then have "f pick (Suc k) (g s) = Some y" using 1(2) by simp
    then obtain n where "Suc k \<le> n" "pick n = None" using 1(1) by blast
    then show ?thesis using Suc_leD by blast
  qed blast
qed

text \<open>
  From the \<open>c\<close>-th \<open>select\<close> on the context is done. Then \<open>select\<close> does not wait; it can still take the ticker's
  case, at random, but only when a tick is waiting.
\<close>

definition select_obeys :: "(nat \<Rightarrow> bool) \<Rightarrow> (nat \<Rightarrow> bool) \<Rightarrow> nat \<Rightarrow> bool" where
  "select_obeys stop waiting c \<longleftrightarrow> (\<forall>k. stop k \<longrightarrow> c \<le> k) \<and> (\<forall>k \<ge> c. \<not> stop k \<longrightarrow> waiting k)"

lemma until_done_iff: "(\<exists>s'. until_done pick 0 s = Some s') \<longleftrightarrow> (\<exists>k. pick k = None)"
proof
  assume "\<exists>k. pick k = None"
  then obtain k where k: "pick k = None" by blast
  then have "until_done pick 0 s = Some (work_of pick 0 (LEAST n. pick n = None) s)"
    by (intro until_done_returns) (auto intro: LeastI dest: not_less_Least)
  then show "\<exists>s'. until_done pick 0 s = Some s'" by blast
next
  assume "\<exists>s'. until_done pick 0 s = Some s'"
  then show "\<exists>k. pick k = None" using until_done_picked [of pick 0 s] by blast
qed

lemma until_done_ends:
  assumes "select_obeys (\<lambda>k. pick k = None) waiting c" "c \<le> k" "\<not> waiting k"
  shows "\<exists>n. c \<le> n \<and> n \<le> k \<and> (\<forall>i < n. pick i \<noteq> None) \<and> until_done pick 0 s = Some (work_of pick 0 n s)"
proof -
  have k: "pick k = None" using assms by (auto simp: select_obeys_def)
  define n where "n = (LEAST n. pick n = None)"
  have n: "pick n = None" unfolding n_def by (rule LeastI [of "\<lambda>n. pick n = None", OF k])
  have "n \<le> k" unfolding n_def by (rule Least_le [of "\<lambda>n. pick n = None", OF k])
  moreover have "c \<le> n" using n assms(1) by (simp add: select_obeys_def)
  moreover have before: "\<forall>i < n. pick i \<noteq> None" by (auto simp: n_def dest: not_less_Least)
  moreover have "until_done pick 0 s = Some (work_of pick 0 n s)"
    using n before by (intro until_done_returns) simp_all
  ultimately show ?thesis by blast
qed

end
