(* ===== verification/Ring_Buffer.thy ===== *)
theory Ring_Buffer
  imports Prelude
begin

text \<open>
  The generic ring buffer of \<^verbatim>\<open>internal/metrics/ringbuffer.go\<close>: a slice of fixed length, the
  index the next \<open>Push\<close> writes and the flag that says whether the index has wrapped. Every
  method holds the buffer's mutex for its whole body, so a method is one atomic step of the
  model. The abstract contract (a bounded log of the last \<open>cap\<close> pushed values) is the locale
  \<open>bounded_log\<close>; the ring implements it.
\<close>

section \<open>The buffer and its methods\<close>

record 'a ring =
  cap_of :: int
  data :: "'a list"
  head :: int
  full :: bool

datatype go_panic = Panic string

definition NewRingBuffer :: "'a \<Rightarrow> int \<Rightarrow> go_panic + 'a ring" where
  \<comment> \<open>\<open>zero\<close> is the zero value that \<open>make([]T, capacity)\<close> fills the slice with\<close>
  "NewRingBuffer zero capacity =
     (if capacity \<le> 0 then Inl (Panic ''metrics: RingBuffer capacity must be > 0'')
      else Inr \<lparr>cap_of = capacity, data = replicate (nat capacity) zero, head = 0, full = False\<rparr>)"

definition Cap :: "'a ring \<Rightarrow> int" where
  "Cap r = cap_of r"

definition Len :: "'a ring \<Rightarrow> int" where
  "Len r = (if full r then cap_of r else head r)"

definition Push :: "'a \<Rightarrow> 'a ring \<Rightarrow> 'a ring" where
  "Push v r =
     (let r1 = r\<lparr>data := (data r)[nat (head r) := v]\<rparr>;
          r2 = r1\<lparr>head := (head r1 + 1) mod cap_of r1\<rparr>
      in if head r2 = 0 then r2\<lparr>full := True\<rparr> else r2)"

definition Latest :: "'a ring \<Rightarrow> 'a option" where
  "Latest r =
     (if \<not> full r \<and> head r = 0 then None
      else let idx = head r - 1;
               idx = (if idx < 0 then cap_of r - 1 else idx)
           in Some (data r ! nat idx))"

definition Snapshot :: "'a ring \<Rightarrow> 'a list" where
  "Snapshot r =
     (if full r then drop (nat (head r)) (data r) @ take (nat (head r)) (data r)
      else take (nat (head r)) (data r))"

section \<open>The invariant\<close>

definition ring_inv :: "'a ring \<Rightarrow> bool" where
  "ring_inv r \<longleftrightarrow> 0 < cap_of r \<and> int (length (data r)) = cap_of r \<and> 0 \<le> head r \<and> head r < cap_of r"

lemma ring_invD:
  assumes "ring_inv r"
  shows "0 < cap_of r" "length (data r) = nat (cap_of r)" "0 \<le> head r" "head r < cap_of r"
    "nat (head r) < length (data r)"
  using assms by (auto simp: ring_inv_def)

lemma NewRingBuffer_inv [inv_intros]: "NewRingBuffer z n = Inr r \<Longrightarrow> ring_inv r"
  by (auto simp: NewRingBuffer_def ring_inv_def split: if_splits)

lemma Push_simps:
  "cap_of (Push v r) = cap_of r"
  "data (Push v r) = (data r)[nat (head r) := v]"
  "head (Push v r) = (head r + 1) mod cap_of r"
  "full (Push v r) = (full r \<or> (head r + 1) mod cap_of r = 0)"
  by (simp_all add: Push_def Let_def)

lemma Push_inv [inv_intros]: "ring_inv r \<Longrightarrow> ring_inv (Push v r)"
  by (auto simp: ring_inv_def Push_simps)

text \<open>Every index the methods use is a valid index of the slice: none of them can panic.\<close>

lemma ring_indices_in_range:
  assumes "ring_inv r"
  shows "0 \<le> head r" "head r < int (length (data r))"
    "full r \<or> head r \<noteq> 0 \<Longrightarrow> 0 \<le> (if head r - 1 < 0 then cap_of r - 1 else head r - 1)"
    "(if head r - 1 < 0 then cap_of r - 1 else head r - 1) < int (length (data r))"
  using assms by (auto simp: ring_inv_def)

section \<open>What the methods return\<close>

lemma head_next:
  assumes "ring_inv r"
  shows "(head r + 1) mod cap_of r = (if head r + 1 = cap_of r then 0 else head r + 1)"
  using assms by (auto simp: ring_inv_def)

lemma Snapshot_New [simp]: "NewRingBuffer z n = Inr r \<Longrightarrow> Snapshot r = []"
  by (auto simp: NewRingBuffer_def Snapshot_def split: if_splits)

lemma length_Snapshot: "ring_inv r \<Longrightarrow> int (length (Snapshot r)) = Len r"
  by (auto simp: Snapshot_def Len_def ring_inv_def)

lemma Len_bounds: "ring_inv r \<Longrightarrow> 0 \<le> Len r \<and> Len r \<le> Cap r"
  by (auto simp: Len_def Cap_def ring_inv_def)

lemma Snapshot_Push:
  assumes inv: "ring_inv r"
  shows "Snapshot (Push v r) = lastn (nat (Cap r)) (Snapshot r @ [v])"
proof -
  note bounds = ring_invD [OF inv]
  let ?h = "nat (head r)" and ?n = "length (data r)"
  have h: "?h < ?n" and n: "?n = nat (cap_of r)" using bounds by simp_all
  have split: "data r = take ?h (data r) @ data r ! ?h # drop (Suc ?h) (data r)"
    using h by (rule id_take_nth_drop)
  show ?thesis
  proof (cases "head r + 1 = cap_of r")
    case True
    then have e: "Suc ?h = ?n" and "nat (head r + 1) = ?n" using bounds by linarith+
    have upd: "(data r)[?h := v] = take ?h (data r) @ [v]"
      using e by (simp add: upd_conv_take_nth_drop)
    have "drop ?h (data r) = [data r ! ?h]"
      using e h by (metis Cons_nth_drop_Suc drop_all le_refl)
    then show ?thesis
      using True bounds e upd n
      by (auto simp: Snapshot_def Push_simps head_next [OF inv] Cap_def lastn_def min_def)
  next
    case False
    then have next_h: "nat (head r + 1) = Suc ?h" and lt: "Suc ?h < ?n" using bounds by linarith+
    have tk: "take (Suc ?h) ((data r)[?h := v]) = take ?h (data r) @ [v]"
      using h by (simp add: take_Suc_conv_app_nth)
    have dr: "drop (Suc ?h) ((data r)[?h := v]) = drop (Suc ?h) (data r)"
      by simp
    have d1: "drop ?h (data r) = data r ! ?h # drop (Suc ?h) (data r)"
      using h by (rule Cons_nth_drop_Suc [symmetric])
    have nz: "head r + 1 \<noteq> 0" using bounds by linarith
    show ?thesis
    proof (cases "full r")
      case True
      have lhs: "Snapshot (Push v r) = drop (Suc ?h) (data r) @ take ?h (data r) @ [v]"
        using True False nz
        by (simp add: Snapshot_def Push_simps head_next [OF inv] next_h tk dr del: drop_Suc take_Suc)
      have rhs: "lastn (nat (Cap r)) (Snapshot r @ [v])
          = drop 1 (Snapshot r @ [v])"
        using True n h by (simp add: lastn_def Snapshot_def Cap_def min_def)
      show ?thesis unfolding lhs rhs using True by (simp add: Snapshot_def d1)
    next
      case nf: False
      have "Snapshot (Push v r) = take ?h (data r) @ [v]"
        using nf False nz by (simp add: Snapshot_def Push_simps head_next [OF inv] next_h tk)
      moreover have "length (take ?h (data r) @ [v]) \<le> nat (Cap r)"
        using lt n by (simp add: Cap_def min_def)
      ultimately show ?thesis using nf by (simp add: Snapshot_def)
    qed
  qed
qed

lemma Latest_Snapshot:
  assumes inv: "ring_inv r"
  shows "Latest r = (if Snapshot r = [] then None else Some (last (Snapshot r)))"
proof -
  note bounds = ring_invD [OF inv]
  show ?thesis
  proof (cases "head r = 0")
    case True
    then show ?thesis using bounds
      by (auto simp: Latest_def Snapshot_def Let_def last_conv_nth nat_diff_distrib)
  next
    case False
    then have "nat (head r) = Suc (nat (head r - 1))" "nat (head r - 1) < length (data r)"
      using bounds by linarith+
    then show ?thesis using False bounds
      by (auto simp: Latest_def Snapshot_def Let_def take_Suc_conv_app_nth simp del: take_Suc)
  qed
qed

section \<open>The contract: a bounded log\<close>

text \<open>
  What the modules rely on. \<open>snap\<close> abstracts the buffer to the list of retained values; the
  laws say what a push does to it and how the readers relate to it.
\<close>

locale bounded_log =
  fixes push :: "'a \<Rightarrow> 'b \<Rightarrow> 'b"
    and snap :: "'b \<Rightarrow> 'a list"
    and newest :: "'b \<Rightarrow> 'a option"
    and size_of :: "'b \<Rightarrow> int"
    and capacity :: "'b \<Rightarrow> nat"
    and ok :: "'b \<Rightarrow> bool"
  assumes push_ok: "ok b \<Longrightarrow> ok (push v b)"
    and push_capacity: "ok b \<Longrightarrow> capacity (push v b) = capacity b"
    and capacity_pos: "ok b \<Longrightarrow> 0 < capacity b"
    and snap_push: "ok b \<Longrightarrow> snap (push v b) = lastn (capacity b) (snap b @ [v])"
    and snap_bounded: "ok b \<Longrightarrow> length (snap b) \<le> capacity b"
    and newest_snap: "ok b \<Longrightarrow> newest b = (if snap b = [] then None else Some (last (snap b)))"
    and size_snap: "ok b \<Longrightarrow> size_of b = int (length (snap b))"
begin

lemma pushes_ok: "ok b \<Longrightarrow> ok (fold push vs b) \<and> capacity (fold push vs b) = capacity b"
  by (induction vs arbitrary: b) (auto simp: push_ok push_capacity)

lemma snap_pushes:
  assumes "ok b"
  shows "snap (fold push vs b) = lastn (capacity b) (snap b @ vs)"
  using assms
proof (induction vs arbitrary: b)
  case Nil
  then show ?case by (simp add: snap_bounded)
next
  case (Cons v vs)
  then show ?case
    by (simp add: push_ok push_capacity snap_push lastn_append_lastn)
qed

lemma newest_push: "ok b \<Longrightarrow> newest (push v b) = Some v"
  using capacity_pos [of b]
  by (auto simp: newest_snap push_ok snap_push)

lemma newest_pushes: "ok b \<Longrightarrow> vs \<noteq> [] \<Longrightarrow> newest (fold push vs b) = Some (last vs)"
  using capacity_pos [of b]
  by (auto simp: newest_snap pushes_ok snap_pushes)

lemma size_pushes:
  "ok b \<Longrightarrow> snap b = [] \<Longrightarrow> size_of (fold push vs b) = int (min (capacity b) (length vs))"
  by (simp add: size_snap pushes_ok snap_pushes)

lemma sorted_push:
  assumes "ok b" "sorted_wrt P (snap b)" "\<forall>x \<in> set (snap b). P x v"
  shows "sorted_wrt P (snap (push v b))"
  using assms by (auto simp: snap_push sorted_wrt_append intro!: sorted_wrt_lastn)

end

interpretation ring: bounded_log Push Snapshot Latest Len "\<lambda>r. nat (Cap r)" ring_inv
proof unfold_locales
  fix b :: "'a ring" and v :: 'a
  assume inv: "ring_inv b"
  then show "ring_inv (Push v b)" by (rule Push_inv)
  show "nat (Cap (Push v b)) = nat (Cap b)" by (simp add: Cap_def Push_simps)
  show "0 < nat (Cap b)" using inv by (simp add: Cap_def ring_inv_def)
  show "Snapshot (Push v b) = lastn (nat (Cap b)) (Snapshot b @ [v])"
    using inv by (rule Snapshot_Push)
  show "length (Snapshot b) \<le> nat (Cap b)"
    using length_Snapshot [OF inv] Len_bounds [OF inv] by linarith
  show "Latest b = (if Snapshot b = [] then None else Some (last (Snapshot b)))"
    using inv by (rule Latest_Snapshot)
  show "Len b = int (length (Snapshot b))"
    by (simp add: length_Snapshot [OF inv])
qed

section \<open>Properties\<close>

text \<open>
  C7. The buffer implements a bounded log: after any sequence of pushes a snapshot is the last
  \<open>capacity\<close> pushed values, oldest first, \<open>Latest\<close> is the last one, \<open>Len\<close> is their number, and the
  capacity never changes. \<open>Snapshot\<close> is the abstraction function: pushing on the buffer is appending
  to the log and dropping what exceeds the capacity.
\<close>

theorem ring_refines_bounded_log:
  assumes "NewRingBuffer zero n = Inr r"
  shows "Snapshot (fold Push vs r) = lastn (nat n) vs
    \<and> Latest (fold Push vs r) = (if vs = [] then None else Some (last vs))
    \<and> Len (fold Push vs r) = min n (int (length vs)) \<and> Cap (fold Push vs r) = n
    \<and> Snapshot (Push v (fold Push vs r)) = lastn (nat n) (Snapshot (fold Push vs r) @ [v])"
proof -
  have inv: "ring_inv r" and cap: "Cap r = n" and n: "0 < n" and empty: "Snapshot r = []"
    using assms by (auto simp: NewRingBuffer_inv NewRingBuffer_def Cap_def Snapshot_def ring_inv_def split: if_splits)
  have ok: "ring_inv (fold Push vs r)" and c: "nat (Cap (fold Push vs r)) = nat n"
    using ring.pushes_ok [OF inv] cap by auto
  have "0 < Cap (fold Push vs r)" using ok by (simp add: ring_inv_def Cap_def)
  with c n have "Cap (fold Push vs r) = n" by simp
  moreover have "Snapshot (fold Push vs r) = lastn (nat n) vs"
    using ring.snap_pushes [OF inv] by (simp add: cap empty)
  moreover have "Latest (fold Push vs r) = (if vs = [] then None else Some (last vs))"
    using ring.newest_pushes [OF inv] Latest_Snapshot [OF inv] empty by simp
  moreover have "Len (fold Push vs r) = min n (int (length vs))"
    using ring.size_pushes [OF inv empty] n by (simp add: cap)
  ultimately show ?thesis using ring.snap_push [OF ok] c by simp
qed

theorem ring_refines_bounded_log_witness:
  "\<exists>r. NewRingBuffer (0::nat) 3 = Inr r \<and> Snapshot (fold Push [1, 2, 3, 4] r) = [2, 3, 4]
    \<and> Latest (fold Push [1, 2, 3, 4] r) = Some 4"
proof -
  obtain r where r: "NewRingBuffer (0::nat) 3 = Inr r" by (simp add: NewRingBuffer_def)
  show ?thesis using ring_refines_bounded_log [OF r, of "[1, 2, 3, 4]"] r by (simp add: lastn_def)
qed

end
