(* ===== verification/Go_Float.thy ===== *)
theory Go_Float
  imports Complex_Main Prelude
begin

text \<open>
  Go's \<open>float64\<close>: IEEE 754 binary64 with round-to-nearest, ties-to-even. A finite value is the
  rational number it denotes (so \<open>-0\<close> and \<open>+0\<close> are one value); conversions, additions,
  products and quotients are the exact rational result rounded by \<open>f64_round\<close>. The lemmas are
  the ones the components need: rounding is monotone and leaves representable numbers alone.
\<close>

section \<open>Rounding a rational to 53 significant bits\<close>

function zlog2 :: "int \<Rightarrow> int" where
  "zlog2 n = (if n \<le> 1 then 0 else zlog2 (n div 2) + 1)"
  by pat_completeness auto
termination
  by (relation "measure nat") auto

declare zlog2.simps [simp del]

lemma zlog2_nonneg: "0 \<le> zlog2 n"
  by (induction n rule: zlog2.induct) (simp add: zlog2.simps)

lemma zlog2_bounds: "0 < n \<Longrightarrow> 2 ^ nat (zlog2 n) \<le> n \<and> n < 2 * 2 ^ nat (zlog2 n)"
proof (induction n rule: zlog2.induct)
  case (1 n)
  show ?case
  proof (cases "n \<le> 1")
    case True
    then show ?thesis using 1 by (simp add: zlog2.simps [of n])
  next
    case False
    then have "2 ^ nat (zlog2 (n div 2)) \<le> n div 2 \<and> n div 2 < 2 * 2 ^ nat (zlog2 (n div 2))"
      using 1 by simp
    moreover have "nat (zlog2 n) = Suc (nat (zlog2 (n div 2)))"
      using False zlog2_nonneg [of "n div 2"] by (simp add: zlog2.simps [of n])
    ultimately show ?thesis by simp linarith
  qed
qed

definition pow2 :: "int \<Rightarrow> rat" where
  "pow2 k = (if 0 \<le> k then 2 ^ nat k else 1 / 2 ^ nat (- k))"

lemma pow2_powi: "pow2 k = 2 powi k"
  by (simp add: pow2_def power_int_def field_simps)

lemma pow2_pos [simp]: "0 < pow2 k"
  by (simp add: pow2_def)

lemma pow2_nonzero [simp]: "pow2 k \<noteq> 0"
  using pow2_pos [of k] by linarith

lemma pow2_add: "pow2 (a + b) = pow2 a * pow2 b"
  by (simp add: pow2_powi power_int_add)

lemma pow2_nat: "pow2 (int n) = 2 ^ n"
  by (simp add: pow2_def)

lemma pow2_0 [simp]: "pow2 0 = 1"
  by (simp add: pow2_def)

lemma pow2_mono: "a \<le> b \<Longrightarrow> pow2 a \<le> pow2 b"
  by (simp add: pow2_powi power_int_increasing)

lemma pow2_less_iff: "pow2 a < pow2 b \<longleftrightarrow> a < b"
  by (metis linorder_not_le nle_le order_le_less pow2_mono pow2_powi power_int_strict_increasing
      one_less_numeral_iff semiring_norm(76))

lemma pow2_diff: "pow2 (a - b) = pow2 a / pow2 b"
  using pow2_add [of "a - b" b] by (simp add: field_simps)

definition ilog2 :: "rat \<Rightarrow> int" where
  \<comment> \<open>the binary exponent of a positive rational\<close>
  "ilog2 x = (let (n, d) = quotient_of x;
                  k = zlog2 n - zlog2 d
              in if pow2 k \<le> x then k else k - 1)"

lemma ilog2_bounds:
  assumes "0 < x"
  shows "pow2 (ilog2 x) \<le> x" "x < pow2 (ilog2 x + 1)"
proof -
  obtain n d where q: "quotient_of x = (n, d)" by (cases "quotient_of x")
  then have d: "0 < d" and x: "x = of_int n / of_int d"
    by (simp_all add: quotient_of_denom_pos quotient_of_div)
  have n: "0 < n" using assms d unfolding x by (simp add: zero_less_divide_iff)
  define a b where "a = nat (zlog2 n)" and "b = nat (zlog2 d)"
  have ni: "2 ^ a \<le> n" "n < 2 * 2 ^ a" "2 ^ b \<le> d" "d < 2 * 2 ^ b"
    using zlog2_bounds [OF n] zlog2_bounds [OF d] by (simp_all add: a_def b_def)
  then have nr: "pow2 (int a) \<le> of_int n" "of_int n < 2 * pow2 (int a)"
    "pow2 (int b) \<le> of_int d" "of_int d < 2 * pow2 (int b)"
  proof -
    have "of_int (2 ^ a) \<le> (of_int n :: rat)" "of_int n < (of_int (2 * 2 ^ a) :: rat)"
      "of_int (2 ^ b) \<le> (of_int d :: rat)" "of_int d < (of_int (2 * 2 ^ b) :: rat)"
      using ni by (simp_all only: of_int_le_iff of_int_less_iff)
    then show "pow2 (int a) \<le> of_int n" "of_int n < 2 * pow2 (int a)"
      "pow2 (int b) \<le> of_int d" "of_int d < 2 * pow2 (int b)"
      by (simp_all add: pow2_nat)
  qed
  have up: "x < pow2 (int a - int b + 1)"
  proof -
    have "x * pow2 (int b) \<le> x * of_int d" using nr(3) assms by simp
    also have "\<dots> = of_int n" using d x by simp
    also have "\<dots> < 2 * pow2 (int a)" by (rule nr(2))
    finally have "x < 2 * pow2 (int a) / pow2 (int b)" by (simp add: field_simps)
    moreover have "pow2 1 = 2" by (simp add: pow2_def)
    ultimately show ?thesis by (simp add: pow2_add pow2_diff mult.commute)
  qed
  have lo: "pow2 (int a - int b - 1) \<le> x"
  proof -
    have "pow2 (int a) \<le> of_int n" by (rule nr(1))
    also have "\<dots> = x * of_int d" using d x by simp
    also have "\<dots> \<le> x * (2 * pow2 (int b))" using nr(4) assms by simp
    finally have "pow2 (int a) / (2 * pow2 (int b)) \<le> x" by (simp add: field_simps)
    moreover have "pow2 1 = 2" by (simp add: pow2_def)
    ultimately show ?thesis by (simp add: pow2_diff mult.commute)
  qed
  have def: "ilog2 x = (if pow2 (int a - int b) \<le> x then int a - int b else int a - int b - 1)"
    by (simp add: ilog2_def q a_def b_def Let_def zlog2_nonneg)
  show "pow2 (ilog2 x) \<le> x" "x < pow2 (ilog2 x + 1)"
    using up lo by (auto simp: def)
qed

lemma ilog2_unique:
  assumes "0 < x" "pow2 k \<le> x" "x < pow2 (k + 1)"
  shows "ilog2 x = k"
proof -
  have "pow2 k < pow2 (ilog2 x + 1)" "pow2 (ilog2 x) < pow2 (k + 1)"
    using assms ilog2_bounds [OF assms(1)] by linarith+
  then show ?thesis by (simp add: pow2_less_iff)
qed

definition round_even :: "rat \<Rightarrow> int" where
  \<comment> \<open>the nearest integer, the even one of two that are equally near\<close>
  "round_even x =
     (let f = \<lfloor>x\<rfloor>; r = x - of_int f
      in if r < 1 / 2 then f else if 1 / 2 < r then f + 1 else if even f then f else f + 1)"

lemma round_even_of_int [simp]: "round_even (of_int n) = n"
  by (simp add: round_even_def)

lemma round_even_floor: "round_even x = \<lfloor>x\<rfloor> \<or> round_even x = \<lfloor>x\<rfloor> + 1"
  by (simp add: round_even_def Let_def)

lemma round_even_mono:
  assumes "x \<le> y"
  shows "round_even x \<le> round_even y"
proof (cases "\<lfloor>x\<rfloor> = \<lfloor>y\<rfloor>")
  case True
  with assms have "x - of_int \<lfloor>x\<rfloor> \<le> y - of_int \<lfloor>x\<rfloor>" by simp
  then show ?thesis using True by (auto simp: round_even_def Let_def)
next
  case False
  then have "\<lfloor>x\<rfloor> + 1 \<le> \<lfloor>y\<rfloor>" using floor_mono [OF assms] by linarith
  then show ?thesis using round_even_floor [of x] round_even_floor [of y] by linarith
qed

lemma round_even_nonneg: "0 \<le> x \<Longrightarrow> 0 \<le> round_even x"
  using round_even_mono [of 0 x] round_even_of_int [of 0] by simp

definition scale_of :: "rat \<Rightarrow> int" where
  \<comment> \<open>the exponent of the last place of a positive number, subnormals included\<close>
  "scale_of x = max (ilog2 x - 52) (-1074)"

definition round_pos :: "rat \<Rightarrow> rat" where
  "round_pos x = of_int (round_even (x / pow2 (scale_of x))) * pow2 (scale_of x)"

lemma ilog2_mono:
  assumes "0 < x" "x \<le> y"
  shows "ilog2 x \<le> ilog2 y"
proof -
  have "pow2 (ilog2 x) < pow2 (ilog2 y + 1)"
    using ilog2_bounds(1) [OF assms(1)] ilog2_bounds(2) [of y] assms by linarith
  then show ?thesis by (simp add: pow2_less_iff)
qed

lemma round_even_le_of_int: "x \<le> of_int n \<Longrightarrow> round_even x \<le> n"
  using round_even_mono [of x "of_int n"] by simp

lemma round_even_ge_of_int: "of_int n \<le> x \<Longrightarrow> n \<le> round_even x"
  using round_even_mono [of "of_int n" x] by simp

lemma round_pos_mono:
  assumes "0 < x" "x \<le> y"
  shows "round_pos x \<le> round_pos y"
proof -
  let ?s = "scale_of x" and ?t = "scale_of y"
  have le: "?s \<le> ?t" using ilog2_mono [OF assms] by (auto simp: scale_of_def)
  show ?thesis
  proof (cases "?s = ?t")
    case True
    have "x / pow2 ?t \<le> y / pow2 ?t" using assms by (simp add: divide_right_mono less_imp_le)
    then show ?thesis
      using round_even_mono True by (simp add: round_pos_def mult_right_mono less_imp_le)
  next
    case False
    then have lt: "?s < ?t" using le by simp
    then have t: "?t = ilog2 y - 52" by (auto simp: scale_of_def)
    have top: "x \<le> pow2 (?s + 53)"
    proof -
      have "ilog2 x + 1 \<le> ?s + 53" by (simp add: scale_of_def max_def)
      then show ?thesis using ilog2_bounds(2) [OF assms(1)] pow2_mono by fastforce
    qed
    have bot: "pow2 (?t + 52) \<le> y"
      using ilog2_bounds(1) [of y] assms by (simp add: t)
    have p53: "pow2 53 = of_int (2 ^ 53)" and p52: "pow2 52 = of_int (2 ^ 52)"
      by (simp_all add: pow2_def)
    have "x / pow2 ?s \<le> of_int (2 ^ 53)"
      using top by (simp add: pow2_add p53 field_simps)
    then have rx: "round_even (x / pow2 ?s) \<le> 2 ^ 53" by (rule round_even_le_of_int)
    have "of_int (2 ^ 52) \<le> y / pow2 ?t"
      using bot by (simp add: pow2_add p52 field_simps)
    then have ry: "2 ^ 52 \<le> round_even (y / pow2 ?t)" by (rule round_even_ge_of_int)
    have "of_int (round_even (x / pow2 ?s)) \<le> (of_int (2 ^ 53) :: rat)"
      using rx by (simp only: of_int_le_iff)
    then have "round_pos x \<le> of_int (2 ^ 53) * pow2 ?s"
      unfolding round_pos_def by (rule mult_right_mono) (simp add: less_imp_le)
    also have "\<dots> = pow2 (?s + 53)" by (simp add: pow2_add p53)
    also have "\<dots> \<le> pow2 (?t + 52)" using lt by (intro pow2_mono) simp
    also have "\<dots> = of_int (2 ^ 52) * pow2 ?t" by (simp add: pow2_add p52)
    also have "\<dots> \<le> round_pos y"
    proof -
      have "(of_int (2 ^ 52) :: rat) \<le> of_int (round_even (y / pow2 ?t))"
        using ry by (simp only: of_int_le_iff)
      then show ?thesis
        unfolding round_pos_def by (rule mult_right_mono) (simp add: less_imp_le)
    qed
    finally show ?thesis .
  qed
qed

lemma round_pos_exact:
  assumes "x = of_int m * pow2 k" "0 < m" "m < 2 ^ 53" "-1074 \<le> k"
  shows "round_pos x = x"
proof -
  have x: "0 < x" using assms by simp
  have "x < pow2 (k + 53)"
  proof -
    have "(of_int m :: rat) < of_int (2 ^ 53)" using assms(3) by (simp only: of_int_less_iff)
    then show ?thesis by (simp add: assms(1) pow2_add) (simp add: pow2_def)
  qed
  then have "pow2 (ilog2 x) < pow2 (k + 53)" using ilog2_bounds(1) [OF x] by linarith
  then have le: "scale_of x \<le> k" using assms(4) by (simp add: pow2_less_iff scale_of_def)
  define s where "s = scale_of x"
  obtain j where j: "k = s + int j" using le by (metis s_def zle_iff_zadd)
  have xs: "x = of_int (m * 2 ^ j) * pow2 s"
    by (subst assms(1)) (simp add: j pow2_add pow2_nat)
  then have "x / pow2 s = of_int (m * 2 ^ j)" by simp
  then have "round_even (x / pow2 s) = m * 2 ^ j" by (simp only: round_even_of_int)
  then show ?thesis
    unfolding round_pos_def s_def [symmetric] using xs by simp
qed

lemma round_pos_nonneg: "0 < x \<Longrightarrow> 0 \<le> round_pos x"
  by (simp add: round_pos_def round_even_nonneg less_imp_le)

section \<open>The values and the operations\<close>

datatype f64 = NaN | PInf | NInf | Fin rat

definition f64_round :: "rat \<Rightarrow> f64" where
  "f64_round x =
     (if x = 0 then Fin 0
      else let y = round_pos \<bar>x\<bar>
           in if 0 < y \<and> 1024 \<le> ilog2 y then (if x < 0 then NInf else PInf)
              else Fin (if x < 0 then - y else y))"

definition f64_of_int :: "int \<Rightarrow> f64" where
  \<comment> \<open>\<open>float64(i)\<close>\<close>
  "f64_of_int i = f64_round (of_int i)"

fun f64_gt :: "f64 \<Rightarrow> f64 \<Rightarrow> bool" where
  \<comment> \<open>Go's \<open>a > b\<close>: false when either operand is NaN\<close>
  "f64_gt NaN _ = False"
| "f64_gt _ NaN = False"
| "f64_gt NInf _ = False"
| "f64_gt _ PInf = False"
| "f64_gt PInf _ = True"
| "f64_gt (Fin _) NInf = True"
| "f64_gt (Fin a) (Fin b) = (b < a)"

fun f64_neg :: "f64 \<Rightarrow> f64" where
  "f64_neg NaN = NaN"
| "f64_neg PInf = NInf"
| "f64_neg NInf = PInf"
| "f64_neg (Fin a) = Fin (- a)"

fun f64_add :: "f64 \<Rightarrow> f64 \<Rightarrow> f64" where
  "f64_add (Fin a) (Fin b) = f64_round (a + b)"
| "f64_add NaN _ = NaN"
| "f64_add _ NaN = NaN"
| "f64_add PInf NInf = NaN"
| "f64_add NInf PInf = NaN"
| "f64_add PInf _ = PInf"
| "f64_add _ PInf = PInf"
| "f64_add NInf _ = NInf"
| "f64_add _ NInf = NInf"

fun f64_is_neg :: "f64 \<Rightarrow> bool" where
  "f64_is_neg NInf = True"
| "f64_is_neg (Fin a) = (a < 0)"
| "f64_is_neg _ = False"

fun f64_mul :: "f64 \<Rightarrow> f64 \<Rightarrow> f64" where
  "f64_mul (Fin a) (Fin b) = f64_round (a * b)"
| "f64_mul NaN _ = NaN"
| "f64_mul _ NaN = NaN"
| "f64_mul a b =
     (if a = Fin 0 \<or> b = Fin 0 then NaN else if f64_is_neg a = f64_is_neg b then PInf else NInf)"

fun f64_div :: "f64 \<Rightarrow> f64 \<Rightarrow> f64" where
  "f64_div NaN _ = NaN"
| "f64_div _ NaN = NaN"
| "f64_div (Fin a) (Fin b) =
     (if b = 0 then (if a = 0 then NaN else if a < 0 then NInf else PInf) else f64_round (a / b))"
| "f64_div (Fin a) _ = Fin 0"
| "f64_div a (Fin b) = (if f64_is_neg a = f64_is_neg (Fin b) then PInf else NInf)"
| "f64_div _ _ = NaN"

fun f64_trunc :: "f64 \<Rightarrow> int" where
  \<comment> \<open>\<open>int(f)\<close> for a value in range; Go leaves the other conversions to the implementation, and
     the lemmas below show that the modelled code never makes one\<close>
  "f64_trunc (Fin a) = (if a < 0 then \<lceil>a\<rceil> else \<lfloor>a\<rfloor>)"
| "f64_trunc _ = min_int64"

definition f64_le :: "f64 \<Rightarrow> f64 \<Rightarrow> bool" where
  \<comment> \<open>\<open>a <= b\<close>\<close>
  "f64_le a b \<longleftrightarrow> a \<noteq> NaN \<and> b \<noteq> NaN \<and> \<not> f64_gt a b"

definition f64_max :: "f64 \<Rightarrow> f64 \<Rightarrow> f64" where
  \<comment> \<open>what \<open>if v > acc { acc = v }\<close> leaves in \<open>acc\<close>\<close>
  "f64_max acc v = (if f64_gt v acc then v else acc)"

section \<open>Facts about finite values\<close>

lemma f64_round_0 [simp]: "f64_round 0 = Fin 0"
  by (simp add: f64_round_def)

lemma ilog2_overflow: "0 < y \<Longrightarrow> 1024 \<le> ilog2 y \<longleftrightarrow> pow2 1024 \<le> y"
  using ilog2_bounds [of y] pow2_mono [of 1024 "ilog2 y"] pow2_mono [of "ilog2 y + 1" 1024]
  by (cases "1024 \<le> ilog2 y") auto

lemma f64_round_exact:
  assumes "x = of_int m * pow2 k" "0 \<le> m" "m < 2 ^ 53" "-1074 \<le> k" "x < pow2 1024"
  shows "f64_round x = Fin x"
proof (cases "m = 0")
  case True
  then show ?thesis using assms by simp
next
  case False
  then have "0 < m" using assms by simp
  moreover from this have x: "0 < x" using assms(1) by simp
  ultimately have "round_pos x = x" using assms round_pos_exact [of x m k] by blast
  then have "round_pos \<bar>x\<bar> = x" "\<not> x < 0" "x \<noteq> 0" using x by simp_all
  then show ?thesis using assms(5) x by (simp add: f64_round_def ilog2_overflow)
qed

lemma f64_round_mono:
  assumes "0 \<le> x" "x \<le> y" "f64_round y = Fin b"
  shows "\<exists>a. f64_round x = Fin a \<and> 0 \<le> a \<and> a \<le> b"
proof (cases "x = 0")
  case True
  then show ?thesis
    using assms round_pos_nonneg [of y]
    by (auto simp: f64_round_def Let_def split: if_splits)
next
  case False
  then have "0 < x" "0 < y" using assms by simp_all
  then show ?thesis
    using assms round_pos_mono [of x y] round_pos_nonneg [of x]
      ilog2_mono [of "round_pos x" "round_pos y"]
    by (auto simp: f64_round_def Let_def split: if_splits)
qed

lemma f64_of_int_exact: "0 \<le> i \<Longrightarrow> i < 2 ^ 53 \<Longrightarrow> f64_of_int i = Fin (of_int i)"
  unfolding f64_of_int_def
proof (rule f64_round_exact [where m = i and k = 0])
  assume "0 \<le> i" "i < 2 ^ 53"
  then have "(of_int i :: rat) < of_int (2 ^ 53)" by (simp only: of_int_less_iff)
  also have "\<dots> = pow2 53" by (simp add: pow2_def)
  also have "\<dots> \<le> pow2 1024" by (rule pow2_mono) simp
  finally show "(of_int i :: rat) < pow2 1024" .
qed simp_all

lemma f64_of_int_mono:
  assumes "0 \<le> i" "i \<le> j" "f64_of_int j = Fin b"
  shows "\<exists>a. f64_of_int i = Fin a \<and> 0 \<le> a \<and> a \<le> b"
  unfolding f64_of_int_def
  using assms by (intro f64_round_mono [of _ "of_int j"]) (simp_all add: f64_of_int_def)

lemma f64_of_int_finite:
  assumes "0 \<le> i" "i \<le> 2 ^ 64"
  shows "\<exists>b. f64_of_int i = Fin b \<and> 0 \<le> b"
proof -
  have "f64_round (pow2 64) = Fin (pow2 64)"
    by (rule f64_round_exact [where m = 1 and k = 64]) (simp_all add: pow2_less_iff)
  moreover have "pow2 64 = of_int (2 ^ 64)" by (simp add: pow2_def)
  ultimately have "f64_of_int (2 ^ 64) = Fin (pow2 64)" by (simp only: f64_of_int_def)
  then show ?thesis using f64_of_int_mono [OF assms] by blast
qed

lemma f64_gt_irrefl [simp]: "\<not> f64_gt a a"
  by (cases a) simp_all

lemma f64_gt_trans: "f64_gt a b \<Longrightarrow> f64_gt b c \<Longrightarrow> f64_gt a c"
  by (cases a; cases b; cases c) simp_all

lemma f64_gt_asym: "f64_gt a b \<Longrightarrow> \<not> f64_gt b a"
  by (cases a; cases b) simp_all

lemma f64_not_gt_trans: "b \<noteq> NaN \<Longrightarrow> \<not> f64_gt a b \<Longrightarrow> \<not> f64_gt b c \<Longrightarrow> \<not> f64_gt a c"
  by (cases a; cases b; cases c) simp_all

lemma f64_max_cases: "f64_max a v = a \<or> f64_max a v = v"
  by (simp add: f64_max_def)

lemma f64_max_ge_acc: "\<not> f64_gt a (f64_max a v)"
  by (auto simp: f64_max_def dest: f64_gt_asym)

lemma f64_max_ge_new: "\<not> f64_gt v (f64_max a v)"
  by (simp add: f64_max_def)

lemma f64_max_not_NaN: "a \<noteq> NaN \<Longrightarrow> f64_max a v \<noteq> NaN"
  by (cases v) (auto simp: f64_max_def)

lemma f64_max_NaN [simp]: "f64_max NaN v = NaN"
  by (cases v) (simp_all add: f64_max_def)

lemma f64_gt_NaN [simp]: "\<not> f64_gt x NaN"
  by (cases x) simp_all

lemma fold_f64_max_NaN [simp]: "fold (\<lambda>v acc. f64_max acc v) vs NaN = NaN"
  by (induction vs) simp_all

lemma fold_f64_max_upper:
  "\<forall>x \<in> insert a (set vs). \<not> f64_gt x (fold (\<lambda>v acc. f64_max acc v) vs a)"
proof (induction vs arbitrary: a)
  case Nil
  then show ?case by simp
next
  case (Cons v vs)
  let ?m = "f64_max a v"
  show ?case
  proof (cases "a = NaN")
    case False
    then have m: "?m \<noteq> NaN" by (rule f64_max_not_NaN)
    have "\<not> f64_gt ?m (fold (\<lambda>v acc. f64_max acc v) vs ?m)" using Cons.IH by simp
    then have "\<not> f64_gt a (fold (\<lambda>v acc. f64_max acc v) vs ?m) \<and>
        \<not> f64_gt v (fold (\<lambda>v acc. f64_max acc v) vs ?m)"
      using f64_max_ge_acc [of a v] f64_max_ge_new [of v a] m by (meson f64_not_gt_trans)
    then show ?thesis using Cons.IH [of ?m] by simp
  qed simp
qed

lemma fold_f64_max_in: "fold (\<lambda>v acc. f64_max acc v) vs a \<in> insert a (set vs)"
proof (induction vs arbitrary: a)
  case Nil
  then show ?case by simp
next
  case (Cons v vs)
  show ?case using Cons.IH [of "f64_max a v"] f64_max_cases [of a v] by auto
qed

lemma fold_max_over:
  shows "fold (\<lambda>s acc. f64_max acc (f s)) vs (f w) \<in> f ` set (w # vs)"
    "\<forall>s \<in> set (w # vs). \<not> f64_gt (f s) (fold (\<lambda>s acc. f64_max acc (f s)) vs (f w))"
proof -
  have e: "fold (\<lambda>s acc. f64_max acc (f s)) vs (f w) = fold (\<lambda>v acc. f64_max acc v) (map f vs) (f w)"
    by (simp add: fold_map comp_def)
  show "fold (\<lambda>s acc. f64_max acc (f s)) vs (f w) \<in> f ` set (w # vs)"
    unfolding e using fold_f64_max_in [of "map f vs" "f w"] by auto
  show "\<forall>s \<in> set (w # vs). \<not> f64_gt (f s) (fold (\<lambda>s acc. f64_max acc (f s)) vs (f w))"
    unfolding e using fold_f64_max_upper [of "f w" "map f vs"] by auto
qed

end
