(* ===== verification/Go_Strings.thy ===== *)
theory Go_Strings
  imports Prelude
begin

text \<open>
  The parts of Go's packages \<open>strings\<close>, \<open>strconv\<close> and \<open>net\<close> that the program calls, on byte
  strings (a \<open>char\<close> is one byte, so a Go \<open>string\<close> is a \<open>char list\<close>): \<open>IndexByte\<close>, \<open>Contains\<close>,
  \<open>Join\<close>, \<open>TrimSpace\<close>, \<open>ToLower\<close> on ASCII, \<open>Atoi\<close>, \<open>Itoa\<close>, \<open>SplitHostPort\<close> and \<open>JoinHostPort\<close>.
\<close>

section \<open>Searching and joining\<close>

fun index_byte :: "char \<Rightarrow> string \<Rightarrow> int" where
  \<comment> \<open>\<open>strings.IndexByte(s, c)\<close>: -1 when \<open>c\<close> does not occur\<close>
  "index_byte c [] = -1"
| "index_byte c (x # xs) =
     (if x = c then 0 else let i = index_byte c xs in if i < 0 then -1 else i + 1)"

lemma index_byte_ge: "-1 \<le> index_byte c s"
  by (induction s) (auto simp: Let_def)

lemma index_byte_less: "index_byte c s < int (length s)"
  by (induction s) (auto simp: Let_def)

lemma index_byte_absent: "index_byte c s < 0 \<longleftrightarrow> c \<notin> set s"
  by (induction s) (auto simp: Let_def)

lemma index_byte_absent_eq: "index_byte c s = -1 \<longleftrightarrow> c \<notin> set s"
  using index_byte_absent [of c s] index_byte_ge [of c s] by linarith

lemma index_byte_append: "c \<notin> set xs \<Longrightarrow> index_byte c (xs @ c # ys) = int (length xs)"
  by (induction xs) (auto simp: Let_def)

lemma index_byte_split:
  assumes "0 \<le> index_byte c s"
  obtains xs ys where "s = xs @ c # ys" "c \<notin> set xs" "index_byte c s = int (length xs)"
proof -
  have "c \<in> set s" using assms index_byte_absent [of c s] by auto
  then obtain xs ys where "s = xs @ c # ys" "c \<notin> set xs" by (blast dest: split_list_first)
  then show thesis using that index_byte_append [of c xs ys] by blast
qed

definition last_index_byte :: "char \<Rightarrow> string \<Rightarrow> int" where
  \<comment> \<open>\<open>strings.LastIndexByte\<close>\<close>
  "last_index_byte c s =
     (let i = index_byte c (rev s) in if i < 0 then -1 else int (length s) - 1 - i)"

lemma last_index_byte_append:
  assumes "c \<notin> set ys"
  shows "last_index_byte c (xs @ c # ys) = int (length xs)"
proof -
  have "index_byte c (rev (xs @ c # ys)) = int (length ys)"
    using assms index_byte_append [of c "rev ys" "rev xs"] by simp
  then show ?thesis by (simp add: last_index_byte_def Let_def)
qed

lemma last_index_byte_absent: "last_index_byte c s < 0 \<longleftrightarrow> c \<notin> set s"
  using index_byte_absent [of c "rev s"] index_byte_less [of c "rev s"]
  by (auto simp: last_index_byte_def Let_def)

fun join :: "string \<Rightarrow> string list \<Rightarrow> string" where
  \<comment> \<open>\<open>strings.Join(xs, sep)\<close>\<close>
  "join sep [] = []"
| "join sep [x] = x"
| "join sep (x # xs) = x @ sep @ join sep xs"

section \<open>Trimming white space\<close>

definition spaces :: "string list" where
  \<comment> \<open>the UTF-8 encodings of the code points \<open>unicode.IsSpace\<close> accepts\<close>
  "spaces =
     [[CHR 0x09], [CHR 0x0A], [CHR 0x0B], [CHR 0x0C], [CHR 0x0D], [CHR 0x20],
      [CHR 0xC2, CHR 0x85], [CHR 0xC2, CHR 0xA0], [CHR 0xE1, CHR 0x9A, CHR 0x80],
      [CHR 0xE2, CHR 0x80, CHR 0x80], [CHR 0xE2, CHR 0x80, CHR 0x81], [CHR 0xE2, CHR 0x80, CHR 0x82],
      [CHR 0xE2, CHR 0x80, CHR 0x83], [CHR 0xE2, CHR 0x80, CHR 0x84], [CHR 0xE2, CHR 0x80, CHR 0x85],
      [CHR 0xE2, CHR 0x80, CHR 0x86], [CHR 0xE2, CHR 0x80, CHR 0x87], [CHR 0xE2, CHR 0x80, CHR 0x88],
      [CHR 0xE2, CHR 0x80, CHR 0x89], [CHR 0xE2, CHR 0x80, CHR 0x8A], [CHR 0xE2, CHR 0x80, CHR 0xA8],
      [CHR 0xE2, CHR 0x80, CHR 0xA9], [CHR 0xE2, CHR 0x80, CHR 0xAF], [CHR 0xE2, CHR 0x81, CHR 0x9F],
      [CHR 0xE3, CHR 0x80, CHR 0x80]]"

fun strip_one :: "string list \<Rightarrow> string \<Rightarrow> string option" where
  \<comment> \<open>the rest of \<open>s\<close> after the first sequence of the list that starts it\<close>
  "strip_one [] s = None"
| "strip_one (p # ps) s =
     (if p \<noteq> [] \<and> take (length p) s = p then Some (drop (length p) s) else strip_one ps s)"

lemma strip_one_shorter: "strip_one ps s = Some t \<Longrightarrow> length t < length s"
proof (induction ps s rule: strip_one.induct)
  case (2 p ps s)
  show ?case
  proof (cases "p \<noteq> [] \<and> take (length p) s = p")
    case True
    then have "0 < length p" "0 < length s" by (cases s; auto)+
    then show ?thesis using True 2 by auto
  next
    case False
    then show ?thesis using 2 by (simp split: if_splits)
  qed
qed simp

function strip_all :: "string list \<Rightarrow> string \<Rightarrow> string" where
  "strip_all ps s = (case strip_one ps s of None \<Rightarrow> s | Some t \<Rightarrow> strip_all ps t)"
  by pat_completeness auto
termination
  by (relation "measure (\<lambda>(ps, s). length s)") (auto simp: strip_one_shorter)

declare strip_all.simps [simp del]

definition TrimSpace :: "string \<Rightarrow> string" where
  "TrimSpace s = rev (strip_all (map rev spaces) (rev (strip_all spaces s)))"

lemma strip_all_unchanged: "strip_one ps s = None \<Longrightarrow> strip_all ps s = s"
  by (simp add: strip_all.simps)

lemma strip_one_None: "strip_one ps s = None \<longleftrightarrow> (\<forall>p \<in> set ps. p = [] \<or> take (length p) s \<noteq> p)"
  by (induction ps) auto

lemma length_strip_all: "length (strip_all ps s) \<le> length s"
proof (induction ps s rule: strip_all.induct)
  case (1 ps s)
  show ?case
  proof (cases "strip_one ps s")
    case None
    then show ?thesis by (simp add: strip_all.simps)
  next
    case (Some t)
    then show ?thesis using 1 strip_one_shorter [OF Some] by (simp add: strip_all.simps [of ps s])
  qed
qed

lemma strip_all_hd:
  assumes "\<forall>p \<in> set ps. p \<noteq> [] \<longrightarrow> hd p \<noteq> c"
  shows "strip_all ps (c # s) = c # s"
proof (rule strip_all_unchanged)
  have "take (length p) (c # s) \<noteq> p" if "p \<in> set ps" "p \<noteq> []" for p
    using assms that by (cases p) auto
  then show "strip_one ps (c # s) = None" by (auto simp: strip_one_None)
qed

fun to_lower :: "string \<Rightarrow> string" where
  \<comment> \<open>\<open>strings.ToLower\<close> as far as comparisons with ASCII words see it: the ASCII letters, and the two
     other code points with an ASCII lower case, U+0130 and U+212A\<close>
  "to_lower [] = []"
| "to_lower (c # cs) =
     (if c = CHR 0xC4 \<and> take 1 cs = [CHR 0xB0] then CHR ''i'' # to_lower (drop 1 cs)
      else if c = CHR 0xE2 \<and> take 2 cs = [CHR 0x84, CHR 0xAA] then CHR ''k'' # to_lower (drop 2 cs)
      else (if (65::int) \<le> of_char c \<and> of_char c \<le> (90::int) then char_of (of_char c + (32::int)) else c)
        # to_lower cs)"

section \<open>Decimal integers\<close>

definition is_digit :: "char \<Rightarrow> bool" where
  "is_digit c \<longleftrightarrow> (48::int) \<le> of_char c \<and> of_char c \<le> (57::int)"

definition digit_val :: "char \<Rightarrow> int" where
  "digit_val c = of_char c - 48"

definition digit_char :: "int \<Rightarrow> char" where
  "digit_char d = char_of (48 + d)"

lemma digit_char_props:
  assumes "0 \<le> d" "d < 10"
  shows "is_digit (digit_char d)" "digit_val (digit_char d) = d"
proof -
  have "of_char (digit_char d) = (48 + d) mod 256" by (simp add: digit_char_def)
  then have "of_char (digit_char d) = 48 + d" using assms by simp
  then show "is_digit (digit_char d)" "digit_val (digit_char d) = d"
    using assms by (simp_all add: is_digit_def digit_val_def)
qed

lemma digit_val_range: "is_digit c \<Longrightarrow> 0 \<le> digit_val c \<and> digit_val c \<le> 9"
  by (simp add: is_digit_def digit_val_def)

fun digits_val :: "int \<Rightarrow> string \<Rightarrow> int option" where
  "digits_val acc [] = Some acc"
| "digits_val acc (c # cs) =
     (if is_digit c then digits_val (acc * 10 + digit_val c) cs else None)"

definition sign_split :: "string \<Rightarrow> bool \<times> string" where
  \<comment> \<open>an optional leading sign: whether it is a minus, and the rest\<close>
  "sign_split s =
     (case s of [] \<Rightarrow> (False, [])
      | c # cs \<Rightarrow> if c = CHR ''-'' then (True, cs) else if c = CHR ''+'' then (False, cs)
                 else (False, s))"

definition Atoi :: "string \<Rightarrow> int option" where
  \<comment> \<open>\<open>strconv.Atoi\<close>: \<open>None\<close> is a syntax or a range error\<close>
  "Atoi s =
     (let (neg, t) = sign_split s
      in if t = [] then None
         else case digits_val 0 t of
                None \<Rightarrow> None
              | Some v \<Rightarrow> let n = (if neg then - v else v)
                          in if min_int64 \<le> n \<and> n \<le> max_int64 then Some n else None)"

lemma Atoi_range: "Atoi s = Some n \<Longrightarrow> min_int64 \<le> n \<and> n \<le> max_int64"
  by (auto simp: Atoi_def Let_def split: prod.splits option.splits if_splits)

function nat_text :: "int \<Rightarrow> string" where
  "nat_text n = (if n < 10 then [digit_char n] else nat_text (n div 10) @ [digit_char (n mod 10)])"
  by pat_completeness auto
termination
  by (relation "measure nat") auto

declare nat_text.simps [simp del]

definition Itoa :: "int \<Rightarrow> string" where
  "Itoa n = (if n < 0 then CHR ''-'' # nat_text (- n) else nat_text n)"

lemma digits_val_append:
  "digits_val acc (xs @ ys) = (case digits_val acc xs of None \<Rightarrow> None | Some v \<Rightarrow> digits_val v ys)"
  by (induction xs arbitrary: acc) auto

lemma nat_text_val: "0 \<le> n \<Longrightarrow> digits_val 0 (nat_text n) = Some n"
proof (induction n rule: nat_text.induct)
  case (1 n)
  show ?case
  proof (cases "n < 10")
    case True
    then show ?thesis using 1 by (simp add: nat_text.simps [of n] digit_char_props)
  next
    case False
    then have "digits_val 0 (nat_text (n div 10)) = Some (n div 10)" using 1 by simp
    then show ?thesis using False
      by (simp add: nat_text.simps [of n] digits_val_append digit_char_props)
  qed
qed

lemma nat_text_digits: "0 \<le> n \<Longrightarrow> \<forall>c \<in> set (nat_text n). is_digit c"
proof (induction n rule: nat_text.induct)
  case (1 n)
  then show ?case
    by (cases "n < 10") (auto simp: nat_text.simps [of n] digit_char_props)
qed

lemma nat_text_nonempty [simp]: "nat_text n \<noteq> []"
  by (subst nat_text.simps) simp

lemma is_digit_neq: "is_digit c \<Longrightarrow> c \<noteq> CHR ''-'' \<and> c \<noteq> CHR ''+'' \<and> c \<noteq> CHR '':''
    \<and> c \<noteq> CHR ''['' \<and> c \<noteq> CHR '']'' \<and> c \<noteq> CHR ''.''"
  by (auto simp: is_digit_def)

lemma Atoi_Itoa:
  assumes "min_int64 \<le> n" "n \<le> max_int64"
  shows "Atoi (Itoa n) = Some n"
proof (cases "n < 0")
  case True
  then show ?thesis using assms
    by (simp add: Atoi_def Itoa_def sign_split_def nat_text_val)
next
  case False
  obtain c cs where c: "nat_text n = c # cs" by (cases "nat_text n") auto
  then have "is_digit c" using False nat_text_digits [of n] by simp
  then have "sign_split (nat_text n) = (False, nat_text n)"
    using is_digit_neq c by (simp add: sign_split_def)
  then show ?thesis using False assms by (simp add: Atoi_def Itoa_def nat_text_val)
qed

section \<open>Network addresses\<close>

definition SplitHostPort :: "string \<Rightarrow> (string \<times> string) option" where
  \<comment> \<open>\<open>net.SplitHostPort\<close>: \<open>None\<close> is any of its address errors\<close>
  "SplitHostPort hp =
     (let i = last_index_byte (CHR '':'') hp
      in if i < 0 then None
         else if hd hp = CHR ''['' then
           let e = index_byte (CHR '']'') hp
           in if e < 0 then None
              else if e + 1 \<noteq> i then None
              else if CHR ''['' \<in> set (drop 1 hp) \<or> CHR '']'' \<in> set (drop (nat (e + 1)) hp) then None
              else Some (drop 1 (take (nat e) hp), drop (nat (i + 1)) hp)
         else
           let host = take (nat i) hp
           in if CHR '':'' \<in> set host then None
              else if CHR ''['' \<in> set hp \<or> CHR '']'' \<in> set hp then None
              else Some (host, drop (nat (i + 1)) hp))"

definition JoinHostPort :: "string \<Rightarrow> string \<Rightarrow> string" where
  "JoinHostPort host port =
     (if CHR '':'' \<in> set host then ''['' @ host @ '']:'' @ port else host @ '':'' @ port)"

lemma SplitHostPort_JoinHostPort:
  assumes h: "CHR ''['' \<notin> set host" "CHR '']'' \<notin> set host"
    and p: "CHR '':'' \<notin> set port" "CHR ''['' \<notin> set port" "CHR '']'' \<notin> set port"
  shows "SplitHostPort (JoinHostPort host port) = Some (host, port)"
proof (cases "CHR '':'' \<in> set host")
  case True
  let ?hp = "CHR ''['' # host @ CHR '']'' # CHR '':'' # port"
  have "last_index_byte (CHR '':'') ((CHR ''['' # host @ [CHR '']'']) @ CHR '':'' # port)
      = int (length (CHR ''['' # host @ [CHR '']'']))"
    using p by (intro last_index_byte_append) simp
  then have i: "last_index_byte (CHR '':'') ?hp = int (length host) + 2" by simp
  have "index_byte (CHR '']'') ((CHR ''['' # host) @ CHR '']'' # CHR '':'' # port)
      = int (length (CHR ''['' # host))"
    using h by (intro index_byte_append) simp
  then have e: "index_byte (CHR '']'') ?hp = int (length host) + 1" by simp
  have n: "nat (int (length host) + 1) = Suc (length host)"
    "nat (2 + int (length host)) = Suc (Suc (length host))"
    "nat (3 + int (length host)) = Suc (Suc (Suc (length host)))" by simp_all
  have "SplitHostPort ?hp = Some (host, port)"
    unfolding SplitHostPort_def i e Let_def using h p by (simp add: n del: index_byte.simps)
  then show ?thesis using True by (simp add: JoinHostPort_def)
next
  case False
  have "last_index_byte (CHR '':'') (host @ CHR '':'' # port) = int (length host)"
    using p by (intro last_index_byte_append)
  moreover have "hd (host @ CHR '':'' # port) \<noteq> CHR ''[''"
    using h by (cases host) auto
  moreover have "nat (int (length host) + 1) = Suc (length host)" by simp
  ultimately show ?thesis
    using False h p by (simp add: SplitHostPort_def JoinHostPort_def)
qed

end
