(* ===== verification/Go_Time.thy ===== *)
theory Go_Time
  imports Go_Float Go_Strings
begin

text \<open>
  The parts of Go's package \<open>time\<close> the program calls: \<open>Duration.Seconds\<close> (through \<open>float64\<close>, as
  the library computes it) and its truncation to an \<open>int\<close>, \<open>Duration.Milliseconds\<close>, \<open>Time.Add\<close>,
  \<open>Time.Before\<close>, \<open>time.Since\<close>, and \<open>ParseDuration\<close> with its grammar
  \<open>[-+]?([0-9]*(\.[0-9]*)?[a-z]+)+\<close>, unit table and overflow checks.
\<close>

section \<open>Durations\<close>

definition trunc_div :: "int \<Rightarrow> int \<Rightarrow> int" where
  \<comment> \<open>Go's \<open>a / b\<close> on signed integers, which rounds towards zero\<close>
  "trunc_div a b = sgn a * sgn b * (\<bar>a\<bar> div \<bar>b\<bar>)"

definition trunc_mod :: "int \<Rightarrow> int \<Rightarrow> int" where
  "trunc_mod a b = a - b * trunc_div a b"

lemma trunc_div_nonneg [simp]: "0 \<le> a \<Longrightarrow> 0 < b \<Longrightarrow> trunc_div a b = a div b"
  by (cases "a = 0") (simp_all add: trunc_div_def)

lemma trunc_mod_nonneg [simp]: "0 \<le> a \<Longrightarrow> 0 < b \<Longrightarrow> trunc_mod a b = a mod b"
  by (simp add: trunc_mod_def minus_mult_div_eq_mod)

definition Seconds :: "duration \<Rightarrow> f64" where
  "Seconds d = f64_add (f64_of_int (trunc_div d second))
                       (f64_div (f64_of_int (trunc_mod d second)) (Fin 1000000000))"

definition int_Seconds :: "duration \<Rightarrow> int" where
  \<comment> \<open>\<open>int(d.Seconds())\<close>\<close>
  "int_Seconds d = f64_trunc (Seconds d)"

definition Milliseconds :: "duration \<Rightarrow> int" where
  "Milliseconds d = trunc_div d millisecond"

definition time_add :: "instant \<Rightarrow> duration \<Rightarrow> instant" where
  "time_add t d = t + d"

definition before :: "instant \<Rightarrow> instant \<Rightarrow> bool" where
  "before t u \<longleftrightarrow> t < u"

definition since :: "instant \<Rightarrow> instant \<Rightarrow> duration" where
  \<comment> \<open>\<open>time.Since(t)\<close> at the moment \<open>now\<close>: the difference, saturated to a \<open>Duration\<close>\<close>
  "since now t = sat64 (now - t)"

text \<open>
  Truncating \<open>Seconds\<close> gives the whole seconds of the duration. The fraction is rounded twice
  on the way; below \<open>2^23\<close> seconds (97 days) neither rounding can reach the next second.
\<close>

definition below_one :: rat where
  "below_one = 1 - 1 / 2 ^ 30"

lemma below_one_round:
  assumes "0 \<le> n" "n < 2 ^ 23"
  shows "f64_round (of_int n + below_one) = Fin (of_int n + below_one)"
proof (rule f64_round_exact [where m = "n * 2 ^ 30 + (2 ^ 30 - 1)" and k = "-30"])
  show "of_int n + below_one = of_int (n * 2 ^ 30 + (2 ^ 30 - 1)) * pow2 (- 30)"
    by (simp add: below_one_def pow2_def field_simps)
  have "of_int n + below_one < (2 ^ 24 :: rat)"
  proof -
    have "(of_int n :: rat) < of_int (2 ^ 23)" using assms(2) by (simp only: of_int_less_iff)
    then show ?thesis by (simp add: below_one_def)
  qed
  also have "\<dots> = pow2 24" by (simp add: pow2_def)
  also have "\<dots> \<le> pow2 1024" by (rule pow2_mono) simp
  finally show "of_int n + below_one < pow2 1024" .
qed (use assms in simp_all)

lemma Seconds_value:
  assumes d: "0 \<le> d" "d < 2 ^ 23 * second"
  shows "\<exists>q. Seconds d = Fin q \<and> of_int (d div second) \<le> q \<and> q < of_int (d div second) + 1"
proof -
  let ?s = "d div second" and ?n = "d mod second"
  have s: "0 \<le> ?s" "?s < 2 ^ 23" and n: "0 \<le> ?n" "?n \<le> 999999999"
    using d pos_mod_bound [of second d] by (simp_all add: div_less_iff_less_mult)
  have nr: "(of_int ?n :: rat) \<le> 999999999"
    using n(2) by (metis of_int_le_iff of_int_numeral)
  have frac: "0 \<le> (of_int ?n :: rat) / 1000000000" "(of_int ?n :: rat) / 1000000000 \<le> below_one"
    using n nr by (simp_all add: below_one_def)
  obtain f where f: "f64_round (of_int ?n / 1000000000) = Fin f" "0 \<le> f" "f \<le> below_one"
    using f64_round_mono [OF frac] below_one_round [of 0] by auto
  have sec: "f64_of_int ?s = Fin (of_int ?s)" "f64_of_int ?n = Fin (of_int ?n)"
    using s n by (simp_all add: f64_of_int_exact)
  have "0 \<le> of_int ?s + f" "of_int ?s + f \<le> of_int ?s + below_one" using s f by simp_all
  then obtain q where q: "f64_round (of_int ?s + f) = Fin q" "q \<le> of_int ?s + below_one"
    using f64_round_mono below_one_round [OF s] by blast
  have "of_int ?s \<le> q"
  proof -
    have "\<exists>a. f64_round (of_int ?s) = Fin a \<and> 0 \<le> a \<and> a \<le> q"
      using s f by (intro f64_round_mono [OF _ _ q(1)]) simp_all
    then show ?thesis using sec(1) by (simp add: f64_of_int_def)
  qed
  moreover have "Seconds d = Fin q"
    using d sec f q by (simp add: Seconds_def)
  moreover have "q < of_int ?s + 1" using q(2) by (simp add: below_one_def)
  ultimately show ?thesis by blast
qed

lemma int_Seconds_exact:
  assumes "0 \<le> d" "d < 2 ^ 23 * second"
  shows "int_Seconds d = d div second"
proof -
  obtain q where q: "Seconds d = Fin q" "of_int (d div second) \<le> q" "q < of_int (d div second) + 1"
    using Seconds_value [OF assms] by blast
  have "(0::rat) \<le> of_int (d div second)" using assms by (simp only: of_int_0_le_iff pos_imp_zdiv_nonneg_iff)
  then have "\<not> q < 0" using q(2) by linarith
  moreover have "\<lfloor>q\<rfloor> = d div second" using q(2,3) by (simp add: floor_eq_iff)
  ultimately show ?thesis by (simp add: int_Seconds_def q(1))
qed

lemma Milliseconds_nonneg: "0 \<le> d \<Longrightarrow> Milliseconds d = d div millisecond"
  by (simp add: Milliseconds_def)

section \<open>ParseDuration\<close>

fun leading_int :: "int \<Rightarrow> string \<Rightarrow> (int \<times> string) option" where
  "leading_int x [] = Some (x, [])"
| "leading_int x (c # cs) =
     (if \<not> is_digit c then Some (x, c # cs)
      else if 922337203685477580 < x then None
      else let y = x * 10 + digit_val c
           in if 9223372036854775808 < y then None else leading_int y cs)"

fun leading_fraction :: "int \<Rightarrow> f64 \<Rightarrow> bool \<Rightarrow> string \<Rightarrow> int \<times> f64 \<times> string" where
  "leading_fraction x scale overflow [] = (x, scale, [])"
| "leading_fraction x scale overflow (c # cs) =
     (if \<not> is_digit c then (x, scale, c # cs)
      else if overflow then leading_fraction x scale True cs
      else if 922337203685477580 < x then leading_fraction x scale True cs
      else let y = x * 10 + digit_val c
           in if 9223372036854775808 < y then leading_fraction x scale True cs
              else leading_fraction y (f64_mul scale (Fin 10)) False cs)"

definition unit_map :: "string \<Rightarrow> int option" where
  \<comment> \<open>the two spellings of the micro sign are U+00B5 and U+03BC in UTF-8\<close>
  "unit_map u =
     (if u = ''ns'' then Some 1
      else if u = ''us'' then Some 1000
      else if u = [CHR 0xC2, CHR 0xB5, CHR ''s''] then Some 1000
      else if u = [CHR 0xCE, CHR 0xBC, CHR ''s''] then Some 1000
      else if u = ''ms'' then Some millisecond
      else if u = ''s'' then Some second
      else if u = ''m'' then Some minute
      else if u = ''h'' then Some 3600000000000
      else None)"

definition is_unit_char :: "char \<Rightarrow> bool" where
  "is_unit_char c \<longleftrightarrow> \<not> (c = CHR ''.'' \<or> is_digit c)"

definition parse_component :: "string \<Rightarrow> (int \<times> string) option" where
  \<comment> \<open>one \<open>number unit\<close> pair of the loop: the nanoseconds it adds and the rest of the text\<close>
  "parse_component s =
     (if s = [] \<or> \<not> (hd s = CHR ''.'' \<or> is_digit (hd s)) then None
      else case leading_int 0 s of None \<Rightarrow> None
      | Some (v, s1) \<Rightarrow>
        let pre = length s1 \<noteq> length s;
            (f, scale, s2, post) =
              (if s1 \<noteq> [] \<and> hd s1 = CHR ''.''
               then let (f, scale, s2) = leading_fraction 0 (Fin 1) False (tl s1)
                    in (f, scale, s2, length s2 \<noteq> length (tl s1))
               else (0, Fin 1, s1, False))
        in if \<not> pre \<and> \<not> post then None
           else let u = takeWhile is_unit_char s2; s3 = dropWhile is_unit_char s2
                in if u = [] then None
                   else case unit_map u of None \<Rightarrow> None
                   | Some unit \<Rightarrow>
                     if 9223372036854775808 div unit < v then None
                     else let v1 = v * unit;
                              v2 = (if 0 < f then v1 + f64_trunc (f64_mul (f64_of_int f)
                                              (f64_div (f64_of_int unit) scale)) else v1)
                          in if 0 < f \<and> 9223372036854775808 < v2 then None else Some (v2, s3))"

lemma leading_int_length: "leading_int x s = Some (v, t) \<Longrightarrow> length t \<le> length s"
  by (induction x s rule: leading_int.induct) (auto simp: Let_def split: if_splits)

lemma leading_fraction_length: "leading_fraction x sc ov s = (f, sc', t) \<Longrightarrow> length t \<le> length s"
  by (induction x sc ov s rule: leading_fraction.induct) (auto simp: Let_def split: if_splits)

lemma dropWhile_shorter: "takeWhile P xs \<noteq> [] \<Longrightarrow> length (dropWhile P xs) < length xs"
  by (metis append_self_conv2 dropWhile_eq_self_iff length_dropWhile_le linorder_neqE_nat not_le
      takeWhile_dropWhile_id append.left_neutral length_append add_cancel_left_left length_0_conv)

lemma parse_component_shorter:
  assumes "parse_component s = Some (v, t)"
  shows "length t < length s"
proof -
  obtain x s1 where li: "leading_int 0 s = Some (x, s1)"
    using assms by (auto simp: parse_component_def split: if_splits option.splits)
  have "length s1 \<le> length s" using li by (rule leading_int_length)
  moreover have "length (snd (snd (leading_fraction 0 (Fin 1) False (tl s1)))) \<le> length s1"
    using leading_fraction_length [of 0 "Fin 1" False "tl s1"]
    by (cases "leading_fraction 0 (Fin 1) False (tl s1)") fastforce
  ultimately show ?thesis
    using assms li
    by (auto simp: parse_component_def Let_def split: if_splits option.splits prod.splits
        dest!: dropWhile_shorter)
qed

function parse_loop :: "int \<Rightarrow> string \<Rightarrow> int option" where
  \<comment> \<open>the loop of \<open>ParseDuration\<close> with its accumulator, a \<open>uint64\<close>\<close>
  "parse_loop d s =
     (if s = [] then Some d
      else case parse_component s of None \<Rightarrow> None
      | Some (v, t) \<Rightarrow>
        let d1 = (d + v) mod 18446744073709551616
        in if 9223372036854775808 < d1 then None else parse_loop d1 t)"
  by pat_completeness auto
termination
  by (relation "measure (\<lambda>(d, s). length s)") (auto simp: parse_component_shorter)

declare parse_loop.simps [simp del]

definition ParseDuration :: "string \<Rightarrow> duration option" where
  "ParseDuration s =
     (let (neg, t) = sign_split s
      in if t = ''0'' then Some 0
         else if t = [] then None
         else case parse_loop 0 t of None \<Rightarrow> None
         | Some d \<Rightarrow> if neg then Some (- d)
                    else if max_int64 < d then None else Some d)"

lemma parse_loop_range:
  "parse_loop d s = Some r \<Longrightarrow> 0 \<le> d \<Longrightarrow> d \<le> 9223372036854775808 \<Longrightarrow> 0 \<le> r \<and> r \<le> 9223372036854775808"
proof (induction d s rule: parse_loop.induct)
  case (1 d s)
  then show ?case
    by (auto simp: parse_loop.simps [of d s] Let_def split: if_splits option.splits prod.splits)
qed

lemma ParseDuration_range:
  assumes "ParseDuration s = Some d"
  shows "min_int64 \<le> d \<and> d \<le> max_int64"
proof -
  obtain neg t where st: "sign_split s = (neg, t)" by (cases "sign_split s")
  show ?thesis
    using assms parse_loop_range [of 0 t]
    by (auto simp: ParseDuration_def st split: if_splits option.splits)
qed

end
