(* ===== verification/Http.thy ===== *)
theory Http
  imports Go_Time
begin

text \<open>
  Requests, response writers and JSON documents, as far as the handlers see them. A response
  writer is the server's own (\<open>Net\<close>: the live header map, the status line with the header that
  was committed, and the body chunks) or the \<open>responseWriter\<close> that
  \<^verbatim>\<open>internal/middleware/chain.go\<close> wraps around another writer (\<open>Observed\<close>). A JSON value is kept
  as a document, not as text: \<open>json.Encoder.Encode\<close> appends it to the body as one chunk, or
  writes nothing when the document holds a NaN or an infinity, which JSON cannot express.
\<close>

section \<open>JSON documents\<close>

datatype json =
    JNull
  | JBool bool
  | JInt int
  | JFloat f64
  | JString string
  | JTime instant
  | JArray "json list"
  | JObject "(string \<times> json) list"

primrec encodable :: "json \<Rightarrow> bool" where
  "encodable JNull = True"
| "encodable (JBool b) = True"
| "encodable (JInt i) = True"
| "encodable (JFloat f) = (case f of Fin _ \<Rightarrow> True | _ \<Rightarrow> False)"
| "encodable (JString s) = True"
| "encodable (JTime t) = True"
| "encodable (JArray js) = list_all id (map encodable js)"
| "encodable (JObject fs) = list_all id (map snd (map (map_prod id encodable) fs))"

text \<open>The \<open>omitempty\<close> option of a struct tag, for the types it is used with.\<close>

definition omit_string :: "string \<Rightarrow> string \<Rightarrow> (string \<times> json) list" where
  "omit_string k s = (if s = [] then [] else [(k, JString s)])"

definition omit_int :: "string \<Rightarrow> int \<Rightarrow> (string \<times> json) list" where
  "omit_int k i = (if i = 0 then [] else [(k, JInt i)])"

definition omit_float :: "string \<Rightarrow> f64 \<Rightarrow> (string \<times> json) list" where
  "omit_float k f = (if f = Fin 0 then [] else [(k, JFloat f)])"

definition omit_ptr :: "string \<Rightarrow> ('a \<Rightarrow> json) \<Rightarrow> 'a option \<Rightarrow> (string \<times> json) list" where
  "omit_ptr k enc p = (case p of None \<Rightarrow> [] | Some x \<Rightarrow> [(k, enc x)])"

definition jslice :: "('a \<Rightarrow> json) \<Rightarrow> 'a list option \<Rightarrow> json" where
  \<comment> \<open>a slice without \<open>omitempty\<close>: a nil slice (\<open>None\<close>) is \<open>null\<close>\<close>
  "jslice enc xs = (case xs of None \<Rightarrow> JNull | Some xs \<Rightarrow> JArray (map enc xs))"

section \<open>Requests and response writers\<close>

record request =
  rmethod :: string
  rpath :: string
  rquery :: "string \<Rightarrow> string"
  rheader :: "string \<Rightarrow> string"
  remote_addr :: string
  ctx_request_id :: "string option"

type_synonym header = "string \<Rightarrow> string list"

datatype chunk = Text string | Doc json

record net_writer =
  live :: header
  sent :: "(int \<times> header) option"
  out :: "chunk list"
  head_only :: bool
  \<comment> \<open>the request is a HEAD: \<open>net/http\<close> accepts and counts the body, but does not send it\<close>

record observer =
  status :: int
  counted :: "chunk list"
  wroteHeader :: bool

datatype writer = Net net_writer | Observed observer writer

definition fresh_writer :: writer where
  "fresh_writer = Net \<lparr>live = (\<lambda>_. []), sent = None, out = [], head_only = False\<rparr>"

definition response_writer :: "request \<Rightarrow> writer" where
  \<comment> \<open>the writer the server makes for a request\<close>
  "response_writer r = Net \<lparr>live = (\<lambda>_. []), sent = None, out = [], head_only = (rmethod r = ''HEAD'')\<rparr>"

text \<open>\<open>Header().Set\<close>, \<open>.Add\<close> and \<open>.Del\<close>: an observing writer hands out the inner header map.\<close>

primrec upd_header :: "(header \<Rightarrow> header) \<Rightarrow> writer \<Rightarrow> writer" where
  "upd_header f (Net n) = Net (n\<lparr>live := f (live n)\<rparr>)"
| "upd_header f (Observed ob w) = Observed ob (upd_header f w)"

definition header_set :: "string \<Rightarrow> string \<Rightarrow> writer \<Rightarrow> writer" where
  "header_set k v = upd_header (\<lambda>h. h(k := [v]))"

definition header_add :: "string \<Rightarrow> string \<Rightarrow> writer \<Rightarrow> writer" where
  "header_add k v = upd_header (\<lambda>h. h(k := h k @ [v]))"

definition header_del :: "string \<Rightarrow> writer \<Rightarrow> writer" where
  "header_del k = upd_header (\<lambda>h. h(k := []))"

definition net_WriteHeader :: "int \<Rightarrow> net_writer \<Rightarrow> net_writer" where
  \<comment> \<open>final status codes only (200 and above): the program never sends an informational one\<close>
  "net_WriteHeader code n =
     (case sent n of Some _ \<Rightarrow> n | None \<Rightarrow> n\<lparr>sent := Some (code, live n)\<rparr>)"

definition net_Write :: "chunk \<Rightarrow> net_writer \<Rightarrow> net_writer" where
  \<comment> \<open>also for a HEAD the call returns the length of the data as written\<close>
  "net_Write c n = (let n1 = net_WriteHeader 200 n in n1\<lparr>out := out n1 @ [c]\<rparr>)"

text \<open>
  \<open>responseWriter.WriteHeader\<close> and \<open>responseWriter.Write\<close> of the access-log middleware. \<open>Write\<close> counts what the
  inner writer reports as written; that is the whole chunk also for a HEAD, whose body the server drops.
\<close>

primrec WriteHeader :: "int \<Rightarrow> writer \<Rightarrow> writer" where
  "WriteHeader code (Net n) = Net (net_WriteHeader code n)"
| "WriteHeader code (Observed ob w) =
     (if wroteHeader ob then Observed ob w
      else Observed (ob\<lparr>status := code, wroteHeader := True\<rparr>) (WriteHeader code w))"

primrec Write :: "chunk \<Rightarrow> writer \<Rightarrow> writer" where
  "Write c (Net n) = Net (net_Write c n)"
| "Write c (Observed ob w) =
     (let ob1 = (if wroteHeader ob then ob else ob\<lparr>status := 200, wroteHeader := True\<rparr>)
      in Observed (ob1\<lparr>counted := counted ob1 @ [c]\<rparr>) (Write c w))"

definition Encode :: "json \<Rightarrow> writer \<Rightarrow> writer" where
  \<comment> \<open>\<open>_ = enc.Encode(v)\<close>\<close>
  "Encode j w = (if encodable j then Write (Doc j) w else w)"

definition http_Error :: "string \<Rightarrow> int \<Rightarrow> writer \<Rightarrow> writer" where
  "http_Error msg code w =
     (let w1 = header_del ''Content-Length'' w;
          w2 = header_set ''Content-Type'' ''text/plain; charset=utf-8'' w1;
          w3 = header_set ''X-Content-Type-Options'' ''nosniff'' w2;
          w4 = WriteHeader code w3
      in Write (Text (msg @ [CHR 0x0A])) w4)"

text \<open>
  \<open>responseWriter.Flush\<close> and \<open>responseWriter.Hijack\<close>: both are forwarded, past the observer, to the
  server's writer when that has the optional interface (\<open>flusher\<close>, \<open>hijacker\<close>). Flushing a response
  that has not been started commits its header with status 200.
\<close>

primrec Flush :: "bool \<Rightarrow> writer \<Rightarrow> writer" where
  "Flush flusher (Net n) = Net (if flusher then net_WriteHeader 200 n else n)"
| "Flush flusher (Observed ob w) = Observed ob (Flush flusher w)"

primrec Hijack :: "bool \<Rightarrow> writer \<Rightarrow> string + net_writer" where
  \<comment> \<open>\<open>Inr\<close> hands out the connection below the writer\<close>
  "Hijack hijacker (Net n) = (if hijacker then Inr n else Inl ''hijacker not supported'')"
| "Hijack hijacker (Observed ob w) = Hijack hijacker w"

section \<open>What reaches the wire\<close>

text \<open>\<open>wire_body\<close> is what the client receives of the body that was \<open>written\<close>: nothing when the request is a HEAD.\<close>

primrec wire :: "writer \<Rightarrow> net_writer" where
  "wire (Net n) = n"
| "wire (Observed ob w) = wire w"

definition wire_status :: "writer \<Rightarrow> int option" where
  "wire_status w = map_option fst (sent (wire w))"

definition wire_header :: "writer \<Rightarrow> string \<Rightarrow> string list" where
  "wire_header w k = (case sent (wire w) of None \<Rightarrow> [] | Some (_, h) \<Rightarrow> h k)"

definition written :: "writer \<Rightarrow> chunk list" where
  \<comment> \<open>the body the handlers have written\<close>
  "written w = out (wire w)"

definition wire_body :: "writer \<Rightarrow> chunk list" where
  \<comment> \<open>the body the client receives\<close>
  "wire_body w = (if head_only (wire w) then [] else written w)"

text \<open>A writer nothing has been sent through, as a handler receives it.\<close>

primrec unsent :: "writer \<Rightarrow> bool" where
  "unsent (Net n) = (sent n = None \<and> out n = [])"
| "unsent (Observed ob w) = (\<not> wroteHeader ob \<and> unsent w)"

text \<open>
  The observer agrees with the wire: it has seen the header exactly when the header was
  committed, with the committed status, and has counted exactly the body that was written.
\<close>

primrec observer_ok :: "writer \<Rightarrow> bool" where
  "observer_ok (Net n) = (sent n = None \<longrightarrow> out n = [])"
| "observer_ok (Observed ob w) =
     (observer_ok w
      \<and> (wroteHeader ob \<longleftrightarrow> sent (wire w) \<noteq> None)
      \<and> (wroteHeader ob \<longrightarrow> wire_status w = Some (status ob))
      \<and> counted ob = out (wire w))"

lemma wire_upd_header [simp]: "wire (upd_header f w) = (wire w)\<lparr>live := f (live (wire w))\<rparr>"
  by (induction w) simp_all

lemma unsent_wire: "unsent w \<Longrightarrow> sent (wire w) = None \<and> out (wire w) = []"
  by (induction w) simp_all

lemma unsent_upd_header [simp]: "unsent (upd_header f w) = unsent w"
  by (induction w) simp_all

lemma unsent_fresh [simp]: "unsent fresh_writer" "unsent (response_writer r)"
  by (simp_all add: fresh_writer_def response_writer_def)

lemma head_only_response [simp]: "head_only (wire (response_writer r)) \<longleftrightarrow> rmethod r = ''HEAD''"
  by (simp add: response_writer_def)

lemma live_fresh [simp]: "live (wire fresh_writer) k = []"
  by (simp add: fresh_writer_def)

lemma wire_WriteHeader_unsent:
  "unsent w \<Longrightarrow> wire (WriteHeader c w) = (wire w)\<lparr>sent := Some (c, live (wire w))\<rparr>"
  by (induction w) (simp_all add: net_WriteHeader_def)

lemma wire_Write_unsent:
  "unsent w \<Longrightarrow> wire (Write ch w) = (wire w)\<lparr>sent := Some (200, live (wire w)), out := [ch]\<rparr>"
  by (induction w) (simp_all add: net_WriteHeader_def net_Write_def Let_def)

lemma wire_Write_sent:
  "sent (wire w) \<noteq> None \<Longrightarrow> wire (Write ch w) = (wire w)\<lparr>out := out (wire w) @ [ch]\<rparr>"
  by (induction w) (auto simp: net_WriteHeader_def net_Write_def Let_def)

lemma wire_WriteHeader_sent: "sent (wire w) \<noteq> None \<Longrightarrow> wire (WriteHeader c w) = wire w"
  by (induction w) (auto simp: net_WriteHeader_def)

lemmas header_ops = header_set_def header_add_def header_del_def

lemma unsent_header_ops [simp]:
  "unsent (header_set k v w) = unsent w"
  "unsent (header_add k v w) = unsent w"
  "unsent (header_del k w) = unsent w"
  by (simp_all add: header_ops)

lemma live_header_set [simp]: "live (wire (header_set k v w)) = (live (wire w))(k := [v])"
  by (simp add: header_set_def)

lemma live_header_add [simp]:
  "live (wire (header_add k v w)) = (live (wire w))(k := live (wire w) k @ [v])"
  by (simp add: header_add_def)

lemma live_header_del [simp]: "live (wire (header_del k w)) = (live (wire w))(k := [])"
  by (simp add: header_del_def)

lemma sent_header_ops [simp]:
  "sent (wire (header_set k v w)) = sent (wire w)"
  "sent (wire (header_add k v w)) = sent (wire w)"
  "sent (wire (header_del k w)) = sent (wire w)"
  by (simp_all add: header_ops)

lemma out_header_ops [simp]:
  "out (wire (header_set k v w)) = out (wire w)"
  "out (wire (header_add k v w)) = out (wire w)"
  "out (wire (header_del k w)) = out (wire w)"
  by (simp_all add: header_ops)

lemma http_Error_wire:
  assumes "unsent w"
  shows "wire_status (http_Error msg code w) = Some code"
    "written (http_Error msg code w) = [Text (msg @ [CHR 0x0A])]"
    "wire_header (http_Error msg code w) ''Content-Type'' = [''text/plain; charset=utf-8'']"
  using assms unsent_wire [OF assms]
  by (simp_all add: http_Error_def Let_def wire_status_def written_def wire_header_def
      wire_Write_sent wire_WriteHeader_unsent)

lemma Encode_wire:
  assumes "unsent w" "encodable j"
  shows "wire_status (Encode j w) = Some 200"
    "written (Encode j w) = [Doc j]"
    "wire_header (Encode j w) k = live (wire w) k"
  using assms by (simp_all add: Encode_def wire_status_def written_def wire_header_def wire_Write_unsent)

lemma observer_ok_upd_header [simp]: "observer_ok (upd_header f w) = observer_ok w"
  by (induction w) (simp_all add: wire_status_def)

lemma wire_WriteHeader:
  "observer_ok w \<Longrightarrow> wire (WriteHeader c w) =
     (case sent (wire w) of None \<Rightarrow> (wire w)\<lparr>sent := Some (c, live (wire w))\<rparr> | Some _ \<Rightarrow> wire w)"
  by (induction w) (auto simp: net_WriteHeader_def wire_status_def split: option.splits)

lemma wire_Write:
  "wire (Write ch w) =
     (case sent (wire w) of
        None \<Rightarrow> (wire w)\<lparr>sent := Some (200, live (wire w)), out := out (wire w) @ [ch]\<rparr>
      | Some _ \<Rightarrow> (wire w)\<lparr>out := out (wire w) @ [ch]\<rparr>)"
  by (induction w) (auto simp: net_Write_def net_WriteHeader_def Let_def split: option.splits)

lemma observer_ok_WriteHeader [inv_intros]: "observer_ok w \<Longrightarrow> observer_ok (WriteHeader c w)"
proof (induction w)
  case (Net n)
  then show ?case by (simp add: net_WriteHeader_def split: option.splits)
next
  case (Observed ob w)
  then show ?case by (auto simp: wire_status_def wire_WriteHeader split: option.splits)
qed

lemma observer_ok_Write [inv_intros]: "observer_ok w \<Longrightarrow> observer_ok (Write ch w)"
proof (induction w)
  case (Net n)
  then show ?case by (simp add: net_Write_def net_WriteHeader_def Let_def split: option.splits)
next
  case (Observed ob w)
  then show ?case by (auto simp: wire_status_def wire_Write Let_def split: option.splits)
qed

lemma head_only_ops [simp]:
  "head_only (wire (upd_header f w)) = head_only (wire w)"
  "head_only (wire (WriteHeader code w)) = head_only (wire w)"
  "head_only (wire (Write ch w)) = head_only (wire w)"
  by (simp, induction w, simp_all add: net_WriteHeader_def wire_Write split: option.split)

lemma head_only_handlers [simp]:
  "head_only (wire (header_set k v w)) = head_only (wire w)" "head_only (wire (header_add k v w)) = head_only (wire w)"
  "head_only (wire (header_del k w)) = head_only (wire w)" "head_only (wire (Encode j w)) = head_only (wire w)"
  "head_only (wire (http_Error msg code w)) = head_only (wire w)"
  by (simp_all add: header_ops Encode_def http_Error_def Let_def del: wire_upd_header)

lemma observer_ok_no_body: "observer_ok w \<Longrightarrow> sent (wire w) = None \<Longrightarrow> out (wire w) = []"
  by (induction w) simp_all

section \<open>Handlers\<close>

text \<open>
  An \<open>http.Handler\<close> runs on a connection: the server's own state \<open>'s\<close>, the response writer, the
  log lines written so far, and what the environment delivers to this request (random bytes, or
  \<open>None\<close> when the source fails, the clock, and the time the handler took). It returns or panics.
\<close>

datatype log_line =
    AccessLine string string int "chunk list" int string string
  | PanicLine string string string
  \<comment> \<open>\<open>AccessLine method path status body latency_ms request_id remote\<close>: the body chunks stand for
     their byte count; \<open>PanicLine err path method\<close>\<close>

datatype served = Returned | Panicking string

record env_reading =
  entropy :: "int list option"
  clock_now :: instant
  elapsed :: duration

record 's conn =
  server_state :: 's
  resp :: writer
  log_out :: "log_line list"
  env :: env_reading

type_synonym 's handler = "request \<Rightarrow> 's conn \<Rightarrow> served \<times> 's conn"

definition on_resp :: "(writer \<Rightarrow> writer) \<Rightarrow> 's conn \<Rightarrow> 's conn" where
  "on_resp f c = c\<lparr>resp := f (resp c)\<rparr>"

definition respond :: "(writer \<Rightarrow> writer) \<Rightarrow> 's conn \<Rightarrow> served \<times> 's conn" where
  \<comment> \<open>a handler that writes its response and returns\<close>
  "respond f c = (Returned, on_resp f c)"

lemma on_resp_fields [simp]:
  "resp (on_resp f c) = f (resp c)" "log_out (on_resp f c) = log_out c" "env (on_resp f c) = env c"
  "server_state (on_resp f c) = server_state c"
  by (simp_all add: on_resp_def)

lemma respond_simps [simp]: "fst (respond f c) = Returned" "snd (respond f c) = on_resp f c"
  by (simp_all add: respond_def)

section \<open>Handlers that only write\<close>

text \<open>
  A handler that touches its response writer only through the methods of \<open>http.ResponseWriter\<close>
  leaves a writer that \<open>writes\<close> relates to the one it was given. \<open>polite\<close> handlers do so and only
  append to the log; the middlewares preserve it.
\<close>

inductive writes :: "writer \<Rightarrow> writer \<Rightarrow> bool" where
  writes_refl [simp, intro]: "writes w w"
| writes_header: "writes w w1 \<Longrightarrow> writes w (upd_header f w1)"
| writes_status: "writes w w1 \<Longrightarrow> writes w (WriteHeader code w1)"
| writes_body: "writes w w1 \<Longrightarrow> writes w (Write ch w1)"

lemma writes_trans: "writes w1 w2 \<Longrightarrow> writes w w1 \<Longrightarrow> writes w w2"
  by (induction rule: writes.induct) (auto intro: writes.intros)

lemma writes_ops [inv_intros]:
  "writes w (upd_header f w)" "writes w (WriteHeader code w)" "writes w (Write ch w)"
  "writes w (header_set k v w)" "writes w (header_add k v w)" "writes w (header_del k w)"
  "writes w (Encode j w)"
  unfolding header_ops Encode_def by (auto intro: writes.intros)

lemma writes_http_Error [inv_intros]: "writes w (http_Error msg code w)"
  unfolding http_Error_def Let_def header_ops by (intro writes_body writes_status writes_header writes_refl)

lemma writes_observer_ok: "writes w w1 \<Longrightarrow> observer_ok w \<Longrightarrow> observer_ok w1"
  by (induction rule: writes.induct) (auto intro: inv_intros)

lemma writes_Observed:
  "writes v v1 \<Longrightarrow> v = Observed ob w \<Longrightarrow> \<exists>ob1 w1. v1 = Observed ob1 w1 \<and> writes w w1
     \<and> (\<not> wroteHeader ob1 \<longrightarrow> status ob1 = status ob)"
proof (induction rule: writes.induct)
  case (writes_status v v1 code)
  then show ?case by (auto intro: writes.intros)
next
  case (writes_body v v1 ch)
  then show ?case by (auto intro: writes.intros simp: Let_def)
qed (auto intro: writes.intros)

lemma writes_head_only: "writes w w1 \<Longrightarrow> head_only (wire w1) = head_only (wire w)"
  by (induction rule: writes.induct) simp_all

lemma writes_sent:
  "writes w w1 \<Longrightarrow> observer_ok w \<Longrightarrow> sent (wire w) = Some s \<Longrightarrow> sent (wire w1) = Some s"
proof (induction rule: writes.induct)
  case (writes_status w w1 code)
  then show ?case using writes_observer_ok [OF writes_status.hyps(1)] by (simp add: wire_WriteHeader)
next
  case (writes_body w w1 ch)
  then show ?case by (simp add: wire_Write)
qed simp_all

lemma writes_out: "writes w w1 \<Longrightarrow> observer_ok w \<Longrightarrow> \<exists>cs. out (wire w1) = out (wire w) @ cs"
proof (induction rule: writes.induct)
  case (writes_status w w1 code)
  then show ?case using writes_observer_ok [OF writes_status.hyps(1)]
    by (auto simp: wire_WriteHeader split: option.splits)
next
  case (writes_body w w1 ch)
  then show ?case by (auto simp: wire_Write split: option.splits)
qed auto

definition polite :: "'s handler \<Rightarrow> bool" where
  "polite h \<longleftrightarrow> (\<forall>r c. writes (resp c) (resp (snd (h r c))) \<and> (\<exists>ls. log_out (snd (h r c)) = log_out c @ ls)
     \<and> env (snd (h r c)) = env c)"

lemma polite_writes: "polite h \<Longrightarrow> writes (resp c) (resp (snd (h r c)))"
  by (simp add: polite_def)

lemma polite_at:
  assumes "polite h" "writes v (resp c)" "log_out c = L" "env c = E"
  shows "writes v (resp (snd (h r c))) \<and> (\<exists>ls. log_out (snd (h r c)) = L @ ls) \<and> env (snd (h r c)) = E"
  using assms unfolding polite_def by (auto intro: writes_trans)

lemma politeI:
  assumes "\<And>r c. writes (resp c) (resp (snd (h r c))) \<and> (\<exists>ls. log_out (snd (h r c)) = log_out c @ ls)
    \<and> env (snd (h r c)) = env c"
  shows "polite h"
  using assms by (simp add: polite_def)

lemma polite_respond [inv_intros]: "(\<And>r w. writes w (f r w)) \<Longrightarrow> polite (\<lambda>r. respond (f r))"
  by (simp add: polite_def)

text \<open>
  Flushing goes past the observer: it commits the header below without recording it, so what the
  observer takes for the status afterwards is not what was sent.
\<close>

lemma wire_Flush: "wire (Flush fl w) = (if fl then net_WriteHeader 200 (wire w) else wire w)"
  by (induction w) simp_all

lemma flush_bypasses_observer:
  assumes "unsent w" "code \<noteq> 200"
  shows "wire_status (WriteHeader code (Flush True (Observed ob w))) = Some 200"
    "\<not> wroteHeader ob \<Longrightarrow> WriteHeader code (Flush True (Observed ob w))
       = Observed (ob\<lparr>status := code, wroteHeader := True\<rparr>) (WriteHeader code (Flush True w))"
    "\<not> wroteHeader ob \<Longrightarrow> \<not> observer_ok (WriteHeader code (Flush True (Observed ob w)))"
proof -
  have s: "sent (wire w) = None" using unsent_wire [OF assms(1)] by simp
  then have f: "sent (wire (Flush True v)) = Some (200, live (wire w))" if "wire v = wire w" for v
    using that by (simp add: wire_Flush net_WriteHeader_def)
  have g: "wire (WriteHeader code (Flush True v)) = wire (Flush True v)" if "wire v = wire w" for v
    using f [OF that] by (intro wire_WriteHeader_sent) simp
  show "wire_status (WriteHeader code (Flush True (Observed ob w))) = Some 200"
    using f [of "Observed ob w"] g [of "Observed ob w"] by (simp add: wire_status_def del: Flush.simps WriteHeader.simps)
  show "WriteHeader code (Flush True (Observed ob w))
      = Observed (ob\<lparr>status := code, wroteHeader := True\<rparr>) (WriteHeader code (Flush True w))" if "\<not> wroteHeader ob"
    using that by simp
  show "\<not> observer_ok (WriteHeader code (Flush True (Observed ob w)))" if "\<not> wroteHeader ob"
    using that f [of w] g [of w] assms(2) by (simp add: wire_status_def)
qed

end
