(* ===== verification/Metrics_Base.thy ===== *)
theory Metrics_Base
  imports Ring_Buffer Http
begin

text \<open>
  \<^verbatim>\<open>internal/metrics/base.go\<close>: the state every sampling module embeds (\<open>Base\<close>: the sampling
  interval, the ring buffer, the latest sample and the time it was published), the sampling loop,
  the trailing-window history, the query parameters and the two routes that
  \<open>RegisterRoutes\<close> gives each module. Clock readings are arguments (\<open>now\<close>). The locale
  \<open>timed_log\<close> states what the modules' histories and ages rest on: samples that carry their
  timestamp, pushed in clock order.
\<close>

section \<open>Base\<close>

record 'a base =
  Interval :: duration
  buf :: "'a ring"
  latest :: "'a option"
  lastSampleUnix :: int

definition NewBase :: "'a \<Rightarrow> duration \<Rightarrow> int \<Rightarrow> go_panic + 'a base" where
  "NewBase zero intv historyCapacity =
     (case NewRingBuffer zero historyCapacity of
        Inl p \<Rightarrow> Inl p
      | Inr r \<Rightarrow> Inr \<lparr>Interval = intv, buf = r, latest = None, lastSampleUnix = 0\<rparr>)"

text \<open>
  \<open>Publish\<close> is three atomic steps (the pointer store, the push under the buffer's lock, the
  stamp); a reader on another goroutine can run between them.
\<close>

definition publish_latest :: "'a \<Rightarrow> 'a base \<Rightarrow> 'a base" where
  "publish_latest s b = b\<lparr>latest := Some s\<rparr>"

definition publish_push :: "'a \<Rightarrow> 'a base \<Rightarrow> 'a base" where
  "publish_push s b = b\<lparr>buf := Push s (buf b)\<rparr>"

definition publish_stamp :: "instant \<Rightarrow> 'a base \<Rightarrow> 'a base" where
  "publish_stamp now b = b\<lparr>lastSampleUnix := wrap64 now\<rparr>"

definition Publish :: "instant \<Rightarrow> 'a \<Rightarrow> 'a base \<Rightarrow> 'a base" where
  "Publish now s b = publish_stamp now (publish_push s (publish_latest s b))"

definition Base_Latest :: "'a base \<Rightarrow> 'a option" where
  "Base_Latest b = latest b"

definition LastSampleAge :: "instant \<Rightarrow> 'a base \<Rightarrow> duration" where
  "LastSampleAge now b =
     (let ns = lastSampleUnix b in if ns = 0 then max_int64 else since now ns)"

section \<open>The sampling loop\<close>

datatype loop_event = Tick | Cancelled

primrec on_tick :: "('s \<Rightarrow> 's) \<Rightarrow> loop_event \<Rightarrow> ('s \<Rightarrow> 's) option" where
  "on_tick collect Tick = Some collect"
| "on_tick collect Cancelled = None"

definition RunLoop :: "(nat \<Rightarrow> 's \<Rightarrow> 's) \<Rightarrow> (nat \<Rightarrow> loop_event) \<Rightarrow> 's \<Rightarrow> 's option" where
  \<comment> \<open>\<open>ch k\<close> is the channel the \<open>k\<close>-th \<open>select\<close> receives from, \<open>collect k\<close> what \<open>collect()\<close> does then;
     \<open>None\<close> when the loop does not end\<close>
  "RunLoop collect ch = until_done (\<lambda>k. on_tick (collect k) (ch k)) 0"

section \<open>History\<close>

definition HistoryWithin :: "instant \<Rightarrow> 'a ring \<Rightarrow> duration \<Rightarrow> ('a \<Rightarrow> instant \<Rightarrow> bool) \<Rightarrow> 'a list" where
  "HistoryWithin now r d keep =
     (let cutoff = time_add now (- d) in filter (\<lambda>s. keep s cutoff) (Snapshot r))"

definition HistoryAny ::
  "instant \<Rightarrow> 'a ring \<Rightarrow> duration \<Rightarrow> ('a \<Rightarrow> instant \<Rightarrow> bool) \<Rightarrow> ('a \<Rightarrow> 'b) \<Rightarrow> 'b list" where
  \<comment> \<open>\<open>box\<close> is the conversion of a sample to \<open>any\<close>\<close>
  "HistoryAny now r d keep box = map box (HistoryWithin now r d keep)"

section \<open>Query parameters\<close>

definition ParseDurationParam :: "string \<Rightarrow> duration \<Rightarrow> duration \<times> bool" where
  "ParseDurationParam s def =
     (if s = '''' then (def, True)
      else case ParseDuration s of
             None \<Rightarrow> (0, False)
           | Some d \<Rightarrow> if d \<le> 0 then (0, False) else (d, True))"

definition ParseLimitParam :: "string \<Rightarrow> int" where
  "ParseLimitParam s =
     (if s = '''' then 0
      else case Atoi s of None \<Rightarrow> 0 | Some n \<Rightarrow> if n < 0 then 0 else n)"

section \<open>Responses and routes\<close>

record 'a history_response =
  WindowSeconds :: int
  Count :: int
  Samples :: "'a list"

definition BuildHistoryResponse :: "duration \<Rightarrow> 'a list \<Rightarrow> int \<Rightarrow> 'a history_response" where
  "BuildHistoryResponse window xs limit =
     (let trimmed = (if 0 < limit \<and> limit < int (length xs) then drop (length xs - nat limit) xs else xs)
      in \<lparr>WindowSeconds = int_Seconds window, Count = int (length trimmed), Samples = trimmed\<rparr>)"

definition json_of_history :: "('a \<Rightarrow> json) \<Rightarrow> 'a history_response \<Rightarrow> json" where
  "json_of_history enc h =
     JObject [(''window_seconds'', JInt (WindowSeconds h)), (''count'', JInt (Count h)),
              (''samples'', JArray (map enc (Samples h)))]"

definition WriteJSON :: "json \<Rightarrow> writer \<Rightarrow> writer" where
  "WriteJSON v w = Encode v (header_set ''Content-Type'' ''application/json'' w)"

definition callDisabled :: "(int \<times> string) option \<Rightarrow> int \<times> string" where
  \<comment> \<open>\<open>None\<close> is the nil \<open>DisabledFunc\<close>\<close>
  "callDisabled fn = (case fn of None \<Rightarrow> (0, '''') | Some r \<Rightarrow> r)"

definition not_ready :: string where
  "not_ready = ''{\"error\":\"not_ready\"}''"

definition invalid_duration :: string where
  "invalid_duration = ''{\"error\":\"invalid_duration\"}''"

definition serve_latest ::
  "'a base option \<Rightarrow> 'a option \<Rightarrow> ('a \<Rightarrow> json) \<Rightarrow> (int \<times> string) option \<Rightarrow> writer \<Rightarrow> writer" where
  \<comment> \<open>the handler of \<open>GET /metrics/<name>\<close>; \<open>b\<close> is the module's base pointer\<close>
  "serve_latest b current enc disabled w =
     (let (code, body) = callDisabled disabled
      in if code \<noteq> 0 then http_Error body code w
         else if b = None then http_Error not_ready 503 w
         else case current of
                None \<Rightarrow> http_Error not_ready 503 w
              | Some s \<Rightarrow> WriteJSON (enc s) w)"

definition serve_history ::
  "'a base option \<Rightarrow> (duration \<Rightarrow> 'a list) \<Rightarrow> ('a \<Rightarrow> json) \<Rightarrow> (int \<times> string) option
     \<Rightarrow> request \<Rightarrow> writer \<Rightarrow> writer" where
  \<comment> \<open>the handler of \<open>GET /metrics/<name>/history\<close>\<close>
  "serve_history b history enc disabled r w =
     (let (code, body) = callDisabled disabled
      in if code \<noteq> 0 then http_Error body code w
         else case b of
                None \<Rightarrow> http_Error not_ready 503 w
              | Some bs \<Rightarrow>
                let (d, ok) = ParseDurationParam (rquery r ''duration'') (wrap64 (Interval bs * 60))
                in if \<not> ok then http_Error invalid_duration 400 w
                   else let limit = ParseLimitParam (rquery r ''limit'')
                        in WriteJSON (json_of_history enc (BuildHistoryResponse d (history d) limit)) w)"

definition RegisterRoutes :: "string \<Rightarrow> (string \<times> bool) list" where
  \<comment> \<open>the patterns registered for a module; the flag marks the history handler\<close>
  "RegisterRoutes name =
     (let latestPath = ''/metrics/'' @ name; historyPath = latestPath @ ''/history''
      in [(''GET '' @ latestPath, False), (''GET '' @ historyPath, True)])"

section \<open>Invariant and functional facts\<close>

definition base_inv :: "'a base \<Rightarrow> bool" where
  \<comment> \<open>between two \<open>Publish\<close> calls the latest pointer is the buffer's newest entry\<close>
  "base_inv b \<longleftrightarrow> ring_inv (buf b) \<and> latest b = Latest (buf b)"

lemma NewBase_inv [inv_intros]: "NewBase z i n = Inr b \<Longrightarrow> base_inv b"
  by (auto simp: NewBase_def base_inv_def Latest_def NewRingBuffer_def ring_inv_def
      split: sum.splits if_splits)

lemma NewBase_fields:
  assumes "NewBase z i n = Inr b"
  shows "Snapshot (buf b) = []" "Cap (buf b) = n" "Interval b = i" "0 < n" "Base_Latest b = None"
  using assms
  by (auto simp: NewBase_def NewRingBuffer_def Snapshot_def Cap_def Base_Latest_def
      split: sum.splits if_splits)

lemma NewBase_ok: "0 < n \<Longrightarrow> \<exists>b. NewBase z i n = Inr b"
  by (simp add: NewBase_def NewRingBuffer_def)

lemma publish_simps [simp]:
  "latest (publish_latest s b) = Some s" "buf (publish_latest s b) = buf b"
  "buf (publish_push s b) = Push s (buf b)" "latest (publish_push s b) = latest b"
  "latest (publish_stamp t b) = latest b" "buf (publish_stamp t b) = buf b"
  "lastSampleUnix (publish_stamp t b) = wrap64 t"
  "Interval (publish_latest s b) = Interval b" "Interval (publish_push s b) = Interval b"
  "Interval (publish_stamp t b) = Interval b"
  by (simp_all add: publish_latest_def publish_push_def publish_stamp_def)

lemma Publish_fields [simp]:
  "latest (Publish now s b) = Some s"
  "buf (Publish now s b) = Push s (buf b)"
  "lastSampleUnix (Publish now s b) = wrap64 now"
  "Interval (Publish now s b) = Interval b"
  by (simp_all add: Publish_def)

lemma Publish_inv [inv_intros]: "base_inv b \<Longrightarrow> base_inv (Publish now s b)"
  by (simp add: base_inv_def Push_inv ring.newest_push)

lemma fold_Publish:
  "buf (fold (\<lambda>(t, s). Publish t s) ps b) = fold Push (map snd ps) (buf b)"
  "base_inv b \<Longrightarrow> base_inv (fold (\<lambda>(t, s). Publish t s) ps b)"
  by (induction ps arbitrary: b) (auto intro: inv_intros)

lemma on_tick_None [simp]: "on_tick collect e = None \<longleftrightarrow> e = Cancelled"
  by (cases e) simp_all

lemma ticks_work:
  assumes "\<forall>i < n. ch i = Tick"
  shows "work_of (\<lambda>k. on_tick (collect k) (ch k)) 0 n s = fold collect [0..<n] s"
  using assms by (induction n arbitrary: s) (simp_all add: work_of_def)

lemma ParseDurationParam_range:
  assumes "ParseDurationParam s def = (d, True)"
  shows "s = '''' \<and> d = def \<or> 0 < d \<and> d \<le> max_int64"
  using assms ParseDuration_range [of s]
  by (auto simp: ParseDurationParam_def split: option.splits if_splits)

lemma ParseLimitParam_range: "0 \<le> ParseLimitParam s \<and> ParseLimitParam s \<le> max_int64"
  using Atoi_range [of s] by (auto simp: ParseLimitParam_def split: option.splits)

lemma BuildHistoryResponse_lastn:
  assumes "0 \<le> limit"
  shows "Samples (BuildHistoryResponse w xs limit) = (if limit = 0 then xs else lastn (nat limit) xs)"
    "Count (BuildHistoryResponse w xs limit) = int (length (Samples (BuildHistoryResponse w xs limit)))"
  using assms by (auto simp: BuildHistoryResponse_def Let_def lastn_def)

lemma WriteJSON_wire:
  assumes "unsent w" "encodable v"
  shows "wire_status (WriteJSON v w) = Some 200" "written (WriteJSON v w) = [Doc v]"
    "wire_header (WriteJSON v w) ''Content-Type'' = [''application/json'']"
  using assms by (simp_all add: WriteJSON_def Encode_wire)

section \<open>Samples pushed in clock order\<close>

text \<open>
  The contract under which a trailing-window history is a suffix of the log: samples carry a
  timestamp and each is stamped no earlier than those already in the buffer.
\<close>

locale timed_log = bounded_log push snap newest size_of capacity ok
  for push :: "'a \<Rightarrow> 'b \<Rightarrow> 'b" and snap :: "'b \<Rightarrow> 'a list" and newest :: "'b \<Rightarrow> 'a option"
    and size_of :: "'b \<Rightarrow> int" and capacity :: "'b \<Rightarrow> nat" and ok :: "'b \<Rightarrow> bool" +
  fixes window :: "instant \<Rightarrow> 'b \<Rightarrow> duration \<Rightarrow> ('a \<Rightarrow> instant \<Rightarrow> bool) \<Rightarrow> 'a list"
  assumes window_snap: "window now b d keep = filter (\<lambda>s. keep s (now - d)) (snap b)"
begin

lemma window_bounded: "ok b \<Longrightarrow> length (window now b d keep) \<le> capacity b"
  by (simp add: window_snap) (meson le_trans length_filter_le snap_bounded)

lemma window_suffix:
  assumes "sorted (map stamp (snap b))"
  shows "window now b d (\<lambda>s c. \<not> stamp s < c)
      = dropWhile (\<lambda>s. stamp s < now - d) (snap b)"
  using filter_from_sorted [OF assms] by (simp add: window_snap)

lemma sorted_fold:
  assumes "ok b" "snap b = []" "sorted (map stamp vs)"
  shows "sorted (map stamp (snap (fold push vs b)))"
proof -
  have "sorted_wrt (\<lambda>x y. stamp x \<le> stamp y) (lastn (capacity b) vs)"
    using assms(3) by (intro sorted_wrt_lastn) (simp add: sorted_wrt_map)
  then show ?thesis using assms(1,2) by (simp add: snap_pushes sorted_wrt_map)
qed

end

interpretation history: timed_log Push Snapshot Latest Len "\<lambda>r. nat (Cap r)" ring_inv HistoryWithin
  by unfold_locales (simp add: HistoryWithin_def time_add_def)

end
