(* ===== verification/Module_Contract.thy ===== *)
theory Module_Contract
  imports Metrics_Base
begin

text \<open>
  The contract of \<^verbatim>\<open>internal/metrics/module.go\<close> that the four collectors share. A module owns a
  \<open>Base\<close>; its sampling step publishes one sample made from what the environment delivers at that
  tick; \<open>Latest\<close>, \<open>History\<close> and \<open>LastSampleAge\<close> read the base. The lemmas are proved once in the
  locale \<open>sampled_module\<close>, which every module theory interprets on its own definitions.
\<close>

datatype 'a any_ptr =
    NilAny
  | Ptr "'a option"
  \<comment> \<open>an interface value of type \<open>any\<close>: the nil interface, or a pointer to a sample, which is a
     non-nil interface value even when the pointer is nil (\<open>Ptr None\<close>)\<close>

datatype log_entry = Warn string string
  \<comment> \<open>a warning line of the structured log: its message and its one attribute\<close>

locale sampled_module =
  fixes mbase :: "'m \<Rightarrow> 's base option"
    and stamp :: "'s \<Rightarrow> instant"
    and collect :: "'e \<Rightarrow> 'm \<Rightarrow> 'm"
    and sample_of :: "'e \<Rightarrow> 'm \<Rightarrow> 's"
    and clock :: "'e \<Rightarrow> instant"
    and latest_of :: "'m \<Rightarrow> 's any_ptr"
    and history_of :: "instant \<Rightarrow> 'm \<Rightarrow> duration \<Rightarrow> 's list"
    and age_of :: "instant \<Rightarrow> 'm \<Rightarrow> duration"
  assumes collect_publishes:
      "mbase m = Some b \<Longrightarrow> mbase (collect e m) = Some (Publish (clock e) (sample_of e m) b)"
    and latest_reads: "mbase m = Some b \<Longrightarrow> latest_of m = Ptr (Base_Latest b)"
    and latest_nil: "mbase m = None \<Longrightarrow> latest_of m = NilAny"
    and history_reads:
      "mbase m = Some b \<Longrightarrow>
         history_of now m d = HistoryAny now (buf b) d (\<lambda>s cutoff. \<not> before (stamp s) cutoff) id"
    and age_reads: "mbase m = Some b \<Longrightarrow> age_of now m = LastSampleAge now b"
begin

primrec samples :: "'e list \<Rightarrow> 'm \<Rightarrow> 's list" where
  \<comment> \<open>the samples a sequence of ticks publishes\<close>
  "samples [] m = []"
| "samples (e # es) m = sample_of e m # samples es (collect e m)"

lemma length_samples [simp]: "length (samples es m) = length es"
  by (induction es arbitrary: m) simp_all

lemma collects_base:
  assumes "mbase m = Some b" "base_inv b"
  shows "\<exists>b'. mbase (fold collect es m) = Some b' \<and> base_inv b'
    \<and> buf b' = fold Push (samples es m) (buf b) \<and> Interval b' = Interval b
    \<and> (es \<noteq> [] \<longrightarrow> latest b' = Some (last (samples es m))
        \<and> lastSampleUnix b' = wrap64 (clock (last es)))"
  using assms
proof (induction es arbitrary: m b)
  case Nil
  then show ?case by simp
next
  case (Cons e es)
  let ?b1 = "Publish (clock e) (sample_of e m) b"
  have "mbase (collect e m) = Some ?b1" using Cons.prems by (simp add: collect_publishes)
  moreover have "base_inv ?b1" using Cons.prems by (simp add: Publish_inv)
  ultimately show ?case using Cons.IH [of "collect e m" ?b1] Cons.prems
    by (cases es) (auto simp: collect_publishes)
qed

lemma latest_after:
  assumes "mbase m = Some b" "base_inv b" "es \<noteq> []"
  shows "latest_of (fold collect es m) = Ptr (Some (last (samples es m)))"
  using collects_base [OF assms(1,2), of es] assms(3)
  by (auto simp: latest_reads Base_Latest_def)

lemma history_after:
  assumes "mbase m = Some b" "base_inv b"
  shows "history_of now (fold collect es m) d =
    filter (\<lambda>s. now - d \<le> stamp s) (lastn (nat (Cap (buf b))) (Snapshot (buf b) @ samples es m))"
proof -
  obtain b' where b': "mbase (fold collect es m) = Some b'"
    "buf b' = fold Push (samples es m) (buf b)"
    using collects_base [OF assms] by blast
  have "ring_inv (buf b)" using assms(2) by (simp add: base_inv_def)
  then show ?thesis
    by (simp add: history_reads [OF b'(1)] b'(2) HistoryAny_def HistoryWithin_def ring.snap_pushes
        time_add_def before_def not_less)
qed

lemma history_bounded:
  assumes "mbase m = Some b" "base_inv b"
  shows "length (history_of now (fold collect es m) d) \<le> nat (Cap (buf b))"
  unfolding history_after [OF assms]
  by (rule order_trans [OF length_filter_le]) simp

lemma age_after:
  assumes "mbase m = Some b" "base_inv b" "es \<noteq> []"
    and "clock (last es) \<noteq> 0" "min_int64 \<le> clock (last es)" "clock (last es) \<le> max_int64"
  shows "age_of now (fold collect es m) = since now (clock (last es))"
  using collects_base [OF assms(1,2), of es] assms(3-)
  by (auto simp: age_reads LastSampleAge_def)

end

text \<open>
  The optional contract of \<^verbatim>\<open>peakable.go\<close>: a peak takes its non-stress fields, its timestamp among
  them, from the newest sample of the window, and there is none when the window is empty.
\<close>

locale peakable_module = sampled_module mbase stamp collect sample_of clock latest_of history_of age_of
  for mbase :: "'m \<Rightarrow> 's base option" and stamp :: "'s \<Rightarrow> instant" and collect :: "'e \<Rightarrow> 'm \<Rightarrow> 'm"
    and sample_of :: "'e \<Rightarrow> 'm \<Rightarrow> 's" and clock :: "'e \<Rightarrow> instant" and latest_of :: "'m \<Rightarrow> 's any_ptr"
    and history_of :: "instant \<Rightarrow> 'm \<Rightarrow> duration \<Rightarrow> 's list" and age_of :: "instant \<Rightarrow> 'm \<Rightarrow> duration" +
  fixes peak_of :: "instant \<Rightarrow> duration \<Rightarrow> 'm \<Rightarrow> 's any_ptr"
  assumes peak_newest:
      "mbase m = Some b \<Longrightarrow> history_of now m d = vs @ [w] \<Longrightarrow>
         \<exists>p. peak_of now d m = Ptr (Some p) \<and> stamp p = stamp w"
    and peak_empty:
      "mbase m = Some b \<Longrightarrow> history_of now m d = [] \<Longrightarrow> peak_of now d m \<in> {NilAny, Ptr None}"
begin

lemma peak_exists_iff:
  assumes "mbase m = Some b"
  shows "(\<exists>p. peak_of now d m = Ptr (Some p)) \<longleftrightarrow> history_of now m d \<noteq> []"
proof (cases "history_of now m d" rule: rev_cases)
  case Nil
  then show ?thesis using peak_empty [OF assms Nil] by auto
next
  case (snoc vs w)
  then show ?thesis using peak_newest [OF assms snoc] by auto
qed

lemma peak_after:
  assumes "mbase m = Some b" "base_inv b" "es \<noteq> []" "0 < Cap (buf b)"
    and "now - d \<le> stamp (last (samples es m))"
  shows "\<exists>p. peak_of now d (fold collect es m) = Ptr (Some p) \<and> stamp p = stamp (last (samples es m))"
proof -
  have "samples es m \<noteq> []" using assms(3) by (cases es) auto
  then obtain vs w where s: "samples es m = vs @ [w]" by (meson rev_exhaust)
  obtain k where k: "nat (Cap (buf b)) = Suc k" using assms(4) by (metis gr0_implies_Suc zero_less_nat_eq)
  have "lastn (Suc k) (Snapshot (buf b) @ vs @ [w]) = lastn k (Snapshot (buf b) @ vs) @ [w]"
    using lastn_snoc [of k "Snapshot (buf b) @ vs" w] by simp
  then have "history_of now (fold collect es m) d =
      filter (\<lambda>s. now - d \<le> stamp s) (lastn k (Snapshot (buf b) @ vs)) @ [w]"
    unfolding history_after [OF assms(1,2)] k s using assms(5) by (simp add: s)
  moreover obtain b' where "mbase (fold collect es m) = Some b'" using collects_base [OF assms(1,2)] by blast
  ultimately show ?thesis using peak_newest by (simp add: s)
qed

end

end
