(* ===== verification/Cpu.thy ===== *)
theory Cpu
  imports Module_Contract
begin

text \<open>
  The CPU module (\<^verbatim>\<open>internal/cpu\<close>). A sample holds its per-core percentages in a slice, and the
  copies of a sample that the ring buffer, \<open>Snapshot\<close> and \<open>Peak\<close> make share that slice's backing
  array. The arrays are therefore kept in an explicit store, and \<open>Peak\<close>, which writes maxima
  through the slice of the sample it copied, returns the updated store. gopsutil's readings are
  arguments.
\<close>

section \<open>Slices of float64 in a store\<close>

record heap =
  cells :: "nat \<Rightarrow> f64 list"
  next_addr :: nat

type_synonym slice = "nat option"
  \<comment> \<open>the backing array of a slice that spans it; \<open>None\<close> is the nil slice\<close>

definition elems :: "heap \<Rightarrow> slice \<Rightarrow> f64 list" where
  "elems h s = (case s of None \<Rightarrow> [] | Some a \<Rightarrow> cells h a)"

definition alloc :: "f64 list \<Rightarrow> heap \<Rightarrow> slice \<times> heap" where
  "alloc xs h =
     (Some (next_addr h), h\<lparr>cells := (cells h)(next_addr h := xs), next_addr := Suc (next_addr h)\<rparr>)"

definition append_to_nil :: "f64 list \<Rightarrow> heap \<Rightarrow> slice \<times> heap" where
  \<comment> \<open>\<open>append([]float64(nil), xs...)\<close>\<close>
  "append_to_nil xs h = (if xs = [] then (None, h) else alloc xs h)"

definition store_at :: "slice \<Rightarrow> nat \<Rightarrow> f64 \<Rightarrow> heap \<Rightarrow> heap" where
  \<comment> \<open>\<open>s[i] = v\<close> for an index in range\<close>
  "store_at s i v h =
     (case s of None \<Rightarrow> h | Some a \<Rightarrow> h\<lparr>cells := (cells h)(a := (cells h a)[i := v])\<rparr>)"

section \<open>Samples and the collector\<close>

record cpu_sample =
  Timestamp :: instant
  OverallPercent :: f64
  PerCorePercent :: slice
  CoreCount :: int
  Error :: string

record cpu_profile =
  ModelName :: string
  Vendor :: string
  Architecture :: string
  ProfileCoreCount :: int
  StartupError :: string

definition cpu_zero_sample :: cpu_sample where
  "cpu_zero_sample = \<lparr>Timestamp = zero_time, OverallPercent = Fin 0, PerCorePercent = None,
     CoreCount = 0, Error = ''''\<rparr>"

definition json_of_cpu_sample :: "heap \<Rightarrow> cpu_sample \<Rightarrow> json" where
  "json_of_cpu_sample h s =
     JObject ([(''timestamp'', JTime (Timestamp s)), (''overall_percent'', JFloat (OverallPercent s)),
       (''per_core_percent'', jslice JFloat (map_option (\<lambda>a. cells h a) (PerCorePercent s))),
       (''core_count'', JInt (CoreCount s))] @ omit_string ''error'' (Error s))"

record cpu_reading =
  \<comment> \<open>what gopsutil and the clock deliver at one tick: the results of the two \<open>cpu.Percent\<close> calls,
     the timestamp read in between and the clock when the sample is published\<close>
  overall_reading :: "string + f64 list"
  per_core_reading :: "string + f64 list"
  stamp_clock :: instant
  publish_clock :: instant

definition warmup :: "string option \<Rightarrow> string option \<Rightarrow> string option" where
  \<comment> \<open>\<open>Warmup\<close>: the errors of the two concurrent \<open>cpu.Percent(interval, \<dots>)\<close> calls\<close>
  "warmup overallErr perCoreErr = (if overallErr \<noteq> None then overallErr else perCoreErr)"

definition collectSample :: "cpu_reading \<Rightarrow> heap \<Rightarrow> cpu_sample \<times> heap" where
  "collectSample e h =
     (case overall_reading e of
        Inl err \<Rightarrow> (cpu_zero_sample\<lparr>Error := err\<rparr>, h)
      | Inr overall \<Rightarrow>
        (case per_core_reading e of
           Inl err \<Rightarrow> (cpu_zero_sample\<lparr>Error := err\<rparr>, h)
         | Inr per \<Rightarrow>
           let (arr, h1) = alloc per h;
               ov = (if 0 < length overall then overall ! 0 else Fin 0)
           in (\<lparr>Timestamp = stamp_clock e, OverallPercent = ov, PerCorePercent = arr,
                CoreCount = int (length per), Error = ''''\<rparr>, h1)))"

definition cpu_Info :: "string + (string \<times> string) list \<Rightarrow> cpu_profile" where
  \<comment> \<open>\<open>cpu.Info()\<close> of gopsutil delivers model name and vendor of each processor, or an error\<close>
  "cpu_Info infos =
     (case infos of
        Inl err \<Rightarrow> \<lparr>ModelName = '''', Vendor = '''', Architecture = '''', ProfileCoreCount = 0,
                     StartupError = err\<rparr>
      | Inr xs \<Rightarrow>
        let pi = \<lparr>ModelName = '''', Vendor = '''', Architecture = '''',
                  ProfileCoreCount = int (length xs), StartupError = ''''\<rparr>
        in (case xs of [] \<Rightarrow> pi
            | first # _ \<Rightarrow> pi\<lparr>ModelName := fst first, Vendor := snd first\<rparr>))"

section \<open>The module\<close>

record cpu_module =
  cpu_base :: "cpu_sample base option"
  cpu_profile_info :: cpu_profile

type_synonym cpu_state = "cpu_module \<times> heap"

definition cpu_collectOnce :: "cpu_reading \<Rightarrow> cpu_state \<Rightarrow> cpu_state" where
  "cpu_collectOnce e = (\<lambda>(m, h).
     let (s, h1) = collectSample e h
     in (m\<lparr>cpu_base := map_option (Publish (publish_clock e) s) (cpu_base m)\<rparr>, h1))"

definition cpu_NewWithCollector ::
  "string option \<Rightarrow> string option \<Rightarrow> string + (string \<times> string) list \<Rightarrow> cpu_reading
     \<Rightarrow> duration \<Rightarrow> int \<Rightarrow> heap \<Rightarrow> go_panic + (cpu_state \<times> log_entry list)" where
  \<comment> \<open>the arguments after the warmup errors are the static information and the first reading\<close>
  "cpu_NewWithCollector overallErr perCoreErr infos e intv historyCapacity h =
     (let logs = (case warmup overallErr perCoreErr of None \<Rightarrow> []
                  | Some err \<Rightarrow> [Warn ''cpu warmup failed; first sample will report error'' err])
      in case NewBase cpu_zero_sample intv historyCapacity of
           Inl p \<Rightarrow> Inl p
         | Inr b \<Rightarrow> Inr (cpu_collectOnce e (\<lparr>cpu_base = Some b, cpu_profile_info = cpu_Info infos\<rparr>, h), logs))"

definition cpu_Latest :: "cpu_state \<Rightarrow> cpu_sample any_ptr" where
  "cpu_Latest = (\<lambda>(m, h). case cpu_base m of None \<Rightarrow> NilAny | Some b \<Rightarrow> Ptr (Base_Latest b))"

definition cpu_History :: "instant \<Rightarrow> cpu_state \<Rightarrow> duration \<Rightarrow> cpu_sample list" where
  "cpu_History now = (\<lambda>(m, h) d. case cpu_base m of None \<Rightarrow> []
     | Some b \<Rightarrow> HistoryAny now (buf b) d (\<lambda>s cutoff. \<not> before (Timestamp s) cutoff) id)"

definition cpu_LastSampleAge :: "instant \<Rightarrow> cpu_state \<Rightarrow> go_panic + duration" where
  \<comment> \<open>unlike its siblings this method does not check for a nil base\<close>
  "cpu_LastSampleAge now = (\<lambda>(m, h). case cpu_base m of
     None \<Rightarrow> Inl (Panic ''invalid memory address or nil pointer dereference'')
   | Some b \<Rightarrow> Inr (LastSampleAge now b))"

fun max_into :: "slice \<Rightarrow> nat \<Rightarrow> f64 list \<Rightarrow> heap \<Rightarrow> heap" where
  \<comment> \<open>the loop over \<open>s.PerCorePercent\<close> from index \<open>i\<close> on\<close>
  "max_into p i [] h = h"
| "max_into p i (v # vs) h =
     max_into p (Suc i) vs
       (if i < length (elems h p) \<and> f64_gt v (elems h p ! i) then store_at p i v h else h)"

definition cpu_peak_step :: "instant \<Rightarrow> cpu_sample \<Rightarrow> cpu_sample option \<times> heap \<Rightarrow> cpu_sample option \<times> heap" where
  "cpu_peak_step cutoff s = (\<lambda>(peak, h).
     if before (Timestamp s) cutoff then (peak, h)
     else case peak of
       None \<Rightarrow> (Some s, h)
     | Some p \<Rightarrow>
       let p1 = (if f64_gt (OverallPercent s) (OverallPercent p)
                 then p\<lparr>OverallPercent := OverallPercent s\<rparr> else p);
           (p2, h2) = (if length (elems h (PerCorePercent p1)) < length (elems h (PerCorePercent s))
                       then let (arr, h1) = append_to_nil (elems h (PerCorePercent s)) h
                            in (p1\<lparr>PerCorePercent := arr\<rparr>, h1)
                       else (p1, h))
       in (Some p2, max_into (PerCorePercent p2) 0 (elems h2 (PerCorePercent s)) h2))"

definition cpu_Peak :: "instant \<Rightarrow> duration \<Rightarrow> cpu_state \<Rightarrow> cpu_sample any_ptr \<times> cpu_state" where
  \<comment> \<open>the loop runs over the snapshot from its newest entry to its oldest; a nil \<open>*Sample\<close> is
     returned as a typed nil\<close>
  "cpu_Peak now d = (\<lambda>(m, h).
     case cpu_base m of
       None \<Rightarrow> (NilAny, (m, h))
     | Some b \<Rightarrow>
       let cutoff = time_add now (- d);
           (peak, h1) = fold (cpu_peak_step cutoff) (rev (Snapshot (buf b))) (None, h)
       in (Ptr peak, (m, h1)))"

definition cpu_serve_latest :: "cpu_state \<Rightarrow> writer \<Rightarrow> writer" where
  \<comment> \<open>\<open>GET /metrics/cpu\<close>; no disabled function\<close>
  "cpu_serve_latest = (\<lambda>(m, h).
     serve_latest (cpu_base m) (case cpu_base m of None \<Rightarrow> None | Some b \<Rightarrow> Base_Latest b) (json_of_cpu_sample h) None)"

definition cpu_serve_history :: "instant \<Rightarrow> cpu_state \<Rightarrow> request \<Rightarrow> writer \<Rightarrow> writer" where
  "cpu_serve_history now = (\<lambda>(m, h).
     serve_history (cpu_base m) (cpu_History now (m, h)) (json_of_cpu_sample h) None)"

section \<open>The module contract\<close>

definition cpu_sample_of :: "cpu_reading \<Rightarrow> cpu_state \<Rightarrow> cpu_sample" where
  "cpu_sample_of e = (\<lambda>(m, h). fst (collectSample e h))"

interpretation cpu: sampled_module "\<lambda>(m, h). cpu_base m" Timestamp cpu_collectOnce cpu_sample_of
  publish_clock cpu_Latest cpu_History "\<lambda>now st. projr (cpu_LastSampleAge now st)"
  by unfold_locales
    (auto simp: cpu_collectOnce_def cpu_sample_of_def cpu_Latest_def cpu_History_def
      cpu_LastSampleAge_def split: prod.splits option.splits)

section \<open>Peak: the value it computes and the arrays it writes\<close>

lemma elems_alloc:
  "alloc xs h = (s, h1) \<Longrightarrow> elems h1 s = xs"
  "alloc xs h = (s, h1) \<Longrightarrow> a \<noteq> next_addr h \<Longrightarrow> cells h1 a = cells h a"
  by (auto simp: alloc_def elems_def)

lemma elems_store_at:
  "elems (store_at s i v h) s = (elems h s)[i := v]"
  "t \<noteq> s \<Longrightarrow> elems (store_at s i v h) t = elems h t"
  "next_addr (store_at s i v h) = next_addr h"
  by (auto simp: store_at_def elems_def split: option.splits)

lemma max_into_frame:
  "t \<noteq> p \<Longrightarrow> elems (max_into p i vs h) t = elems h t"
  "next_addr (max_into p i vs h) = next_addr h"
  by (induction p i vs h rule: max_into.induct) (simp_all add: elems_store_at)

lemma max_into_elems:
  "length (elems (max_into p i vs h) p) = length (elems h p)"
  "j < length (elems h p) \<Longrightarrow> elems (max_into p i vs h) p ! j =
     (if i \<le> j \<and> j < i + length vs then f64_max (elems h p ! j) (vs ! (j - i)) else elems h p ! j)"
proof (induction p i vs h rule: max_into.induct)
  case (2 p i v vs h)
  let ?h1 = "if i < length (elems h p) \<and> f64_gt v (elems h p ! i) then store_at p i v h else h"
  have len: "length (elems ?h1 p) = length (elems h p)" by (simp add: elems_store_at)
  show "length (elems (max_into p i (v # vs) h) p) = length (elems h p)"
    using 2(1) len by simp
  assume j: "j < length (elems h p)"
  have "elems ?h1 p ! j = (if j = i then f64_max (elems h p ! i) v else elems h p ! j)"
    using j by (auto simp: elems_store_at f64_max_def nth_list_update)
  then show "elems (max_into p i (v # vs) h) p ! j =
      (if i \<le> j \<and> j < i + length (v # vs) then f64_max (elems h p ! j) ((v # vs) ! (j - i))
       else elems h p ! j)"
    using 2(2) j len by (auto simp: nth_Cons' Suc_diff_le)
qed auto

text \<open>One in-window step on an accumulator: the static fields stay, the overall value is maxed.\<close>

lemma peak_step_fields:
  assumes "\<not> before (Timestamp s) c"
  shows "\<exists>q h1. cpu_peak_step c s (Some p, h) = (Some q, h1)
    \<and> Timestamp q = Timestamp p \<and> CoreCount q = CoreCount p \<and> Error q = Error p
    \<and> OverallPercent q = f64_max (OverallPercent p) (OverallPercent s)"
  using assms
  by (cases "append_to_nil (elems h (PerCorePercent s)) h";
      cases "length (elems h (PerCorePercent p)) < length (elems h (PerCorePercent s))")
    (auto simp: cpu_peak_step_def f64_max_def Let_def)

lemma fold_peak_skip:
  "fold (cpu_peak_step c) xs st = fold (cpu_peak_step c) (filter (\<lambda>s. \<not> before (Timestamp s) c) xs) st"
  by (induction xs arbitrary: st) (auto simp: cpu_peak_step_def)

lemma fold_peak_fields:
  assumes "\<forall>s \<in> set ws. \<not> before (Timestamp s) c"
  shows "\<exists>q h1. fold (cpu_peak_step c) ws (Some p, h) = (Some q, h1)
    \<and> Timestamp q = Timestamp p \<and> CoreCount q = CoreCount p \<and> Error q = Error p
    \<and> OverallPercent q = fold (\<lambda>s acc. f64_max acc (OverallPercent s)) ws (OverallPercent p)"
  using assms
proof (induction ws arbitrary: p h)
  case (Cons s ws)
  then obtain q h1 where step: "cpu_peak_step c s (Some p, h) = (Some q, h1)"
    "Timestamp q = Timestamp p" "CoreCount q = CoreCount p" "Error q = Error p"
    "OverallPercent q = f64_max (OverallPercent p) (OverallPercent s)"
    using peak_step_fields [of s c p h] by auto
  show ?case using Cons.IH [of q h1] Cons.prems step by fastforce
qed simp

text \<open>
  With slices of one length in separate arrays, the accumulator keeps the slice it started with
  and that array receives the maximum of each core; no other array changes.
\<close>

lemma peak_step_equal_width:
  assumes "\<not> before (Timestamp s) c"
    and "length (elems h (PerCorePercent s)) = length (elems h (PerCorePercent p))"
  shows "\<exists>q. cpu_peak_step c s (Some p, h) = (Some q, max_into (PerCorePercent p) 0 (elems h (PerCorePercent s)) h)
    \<and> PerCorePercent q = PerCorePercent p"
  using assms by (auto simp: cpu_peak_step_def Let_def)

lemma fold_peak_equal_width:
  assumes "\<forall>s \<in> set ws. \<not> before (Timestamp s) c"
    and "\<forall>s \<in> set ws. length (elems h (PerCorePercent s)) = length (elems h (PerCorePercent p))"
    and "\<forall>s \<in> set ws. PerCorePercent s \<noteq> PerCorePercent p"
  shows "\<exists>q h1. fold (cpu_peak_step c) ws (Some p, h) = (Some q, h1)
    \<and> PerCorePercent q = PerCorePercent p
    \<and> next_addr h1 = next_addr h
    \<and> length (elems h1 (PerCorePercent p)) = length (elems h (PerCorePercent p))
    \<and> (\<forall>i < length (elems h (PerCorePercent p)). elems h1 (PerCorePercent p) ! i =
         fold (\<lambda>s acc. f64_max acc (elems h (PerCorePercent s) ! i)) ws (elems h (PerCorePercent p) ! i))
    \<and> (\<forall>t. t \<noteq> PerCorePercent p \<longrightarrow> elems h1 t = elems h t)"
  using assms
proof (induction ws arbitrary: p h)
  case (Cons s ws)
  let ?P = "PerCorePercent p" and ?v = "elems h (PerCorePercent s)"
  let ?h = "max_into ?P 0 ?v h"
  obtain q where q: "cpu_peak_step c s (Some p, h) = (Some q, ?h)" "PerCorePercent q = ?P"
    using peak_step_equal_width [of s c h p] Cons.prems by auto
  have others: "elems ?h t = elems h t" if "t \<noteq> ?P" for t
    using that by (simp add: max_into_frame)
  have len: "length (elems ?h ?P) = length (elems h ?P)" by (simp add: max_into_elems)
  have val: "elems ?h ?P ! i = f64_max (elems h ?P ! i) (?v ! i)" if "i < length (elems h ?P)" for i
    using that Cons.prems(2) by (simp add: max_into_elems)
  have ws: "elems ?h (PerCorePercent u) = elems h (PerCorePercent u)" if "u \<in> set ws" for u
    using that Cons.prems(3) by (simp add: others)
  have "\<exists>q' h1. fold (cpu_peak_step c) ws (Some q, ?h) = (Some q', h1)
    \<and> PerCorePercent q' = PerCorePercent q \<and> next_addr h1 = next_addr ?h
    \<and> length (elems h1 (PerCorePercent q)) = length (elems ?h (PerCorePercent q))
    \<and> (\<forall>i < length (elems ?h (PerCorePercent q)). elems h1 (PerCorePercent q) ! i =
         fold (\<lambda>s acc. f64_max acc (elems ?h (PerCorePercent s) ! i)) ws (elems ?h (PerCorePercent q) ! i))
    \<and> (\<forall>t. t \<noteq> PerCorePercent q \<longrightarrow> elems h1 t = elems ?h t)"
    using Cons.prems ws len by (intro Cons.IH) (simp_all add: q(2))
  then obtain q' h1 where IH: "fold (cpu_peak_step c) ws (Some q, ?h) = (Some q', h1)"
    "PerCorePercent q' = ?P" "next_addr h1 = next_addr h"
    "length (elems h1 ?P) = length (elems h ?P)"
    "\<forall>i < length (elems h ?P). elems h1 ?P ! i =
         fold (\<lambda>s acc. f64_max acc (elems ?h (PerCorePercent s) ! i)) ws (elems ?h ?P ! i)"
    "\<forall>t. t \<noteq> ?P \<longrightarrow> elems h1 t = elems ?h t"
    by (auto simp: q(2) len max_into_frame)
  have "fold (\<lambda>s acc. f64_max acc (elems ?h (PerCorePercent s) ! i)) ws a
      = fold (\<lambda>s acc. f64_max acc (elems h (PerCorePercent s) ! i)) ws a" for i a
    using ws by (intro fold_cong) simp_all
  then show ?case using IH q val others by auto
qed simp

section \<open>The invariant of the module and its store\<close>

definition slots :: "cpu_sample list \<Rightarrow> nat list" where
  \<comment> \<open>the arrays the samples of a list refer to\<close>
  "slots xs = List.map_filter PerCorePercent xs"

definition cpu_inv :: "cpu_state \<Rightarrow> bool" where
  \<comment> \<open>no two retained samples share an array, every array was allocated, and the core count of a
     sample is the width of its slice\<close>
  "cpu_inv = (\<lambda>(m, h). \<exists>b. cpu_base m = Some b \<and> base_inv b
     \<and> distinct (slots (Snapshot (buf b)))
     \<and> (\<forall>a \<in> set (slots (Snapshot (buf b))). a < next_addr h)
     \<and> (\<forall>s \<in> set (Snapshot (buf b)). CoreCount s = int (length (elems h (PerCorePercent s)))))"

lemma slots_simps [simp]:
  "slots [] = []"
  "slots (s # xs) = (case PerCorePercent s of None \<Rightarrow> slots xs | Some a \<Rightarrow> a # slots xs)"
  "slots (xs @ ys) = slots xs @ slots ys"
  by (simp_all add: slots_def List.map_filter_def split: option.splits)

lemma set_slots: "set (slots xs) = {a. \<exists>s \<in> set xs. PerCorePercent s = Some a}"
  by (induction xs) (auto split: option.splits)

lemma slots_lastn: "slots (lastn n xs) = lastn (length (slots (lastn n xs))) (slots xs)"
proof -
  have "xs = take (length xs - n) xs @ lastn n xs" by (simp add: lastn_def)
  then have "slots xs = slots (take (length xs - n) xs) @ slots (lastn n xs)"
    by (metis slots_simps(3))
  then show ?thesis by (simp add: lastn_def)
qed

lemma distinct_lastn: "distinct xs \<Longrightarrow> distinct (lastn n xs)"
  by (simp add: lastn_def)

lemma collectSample_cases:
  obtains (fail) err where "collectSample e h = (cpu_zero_sample\<lparr>Error := err\<rparr>, h)"
  | (ok) ov per where "collectSample e h =
      (\<lparr>Timestamp = stamp_clock e, OverallPercent = ov, PerCorePercent = Some (next_addr h),
        CoreCount = int (length per), Error = ''''\<rparr>,
       h\<lparr>cells := (cells h)(next_addr h := per), next_addr := Suc (next_addr h)\<rparr>)"
proof (cases "overall_reading e")
  case (Inl err)
  then show ?thesis by (intro fail [of err]) (simp add: collectSample_def)
next
  case o: (Inr overall)
  show ?thesis
  proof (cases "per_core_reading e")
    case (Inl err)
    then show ?thesis by (intro fail [of err]) (simp add: collectSample_def o)
  next
    case (Inr per)
    then show ?thesis
      by (intro ok [of "if overall = [] then Fin 0 else overall ! 0" per])
        (simp add: collectSample_def o alloc_def)
  qed
qed

lemma cpu_New_inv [inv_intros]:
  assumes "cpu_NewWithCollector oe pe infos e intv cap h = Inr (st, logs)"
  shows "cpu_inv st"
proof -
  obtain b where b: "NewBase cpu_zero_sample intv cap = Inr b"
    and st: "st = cpu_collectOnce e (\<lparr>cpu_base = Some b, cpu_profile_info = cpu_Info infos\<rparr>, h)"
    using assms by (auto simp: cpu_NewWithCollector_def Let_def split: sum.splits)
  note f = NewBase_fields [OF b]
  have inv: "base_inv b" "ring_inv (buf b)" using NewBase_inv [OF b] by (simp_all add: base_inv_def)
  show ?thesis
    by (cases rule: collectSample_cases [of e h])
      (use f inv in \<open>simp_all add: st cpu_collectOnce_def cpu_inv_def Publish_inv Snapshot_Push
        cpu_zero_sample_def elems_def lastn_def\<close>)
qed

lemma cpu_collectOnce_inv [inv_intros]:
  assumes "cpu_inv st"
  shows "cpu_inv (cpu_collectOnce e st)"
proof -
  obtain m h where st: "st = (m, h)" by (cases st)
  obtain b where b: "cpu_base m = Some b" "base_inv b" "distinct (slots (Snapshot (buf b)))"
    "\<forall>a \<in> set (slots (Snapshot (buf b))). a < next_addr h"
    "\<forall>s \<in> set (Snapshot (buf b)). CoreCount s = int (length (elems h (PerCorePercent s)))"
    using assms by (auto simp: cpu_inv_def st)
  then have ring: "ring_inv (buf b)" by (simp add: base_inv_def)
  obtain s h1 where s: "collectSample e h = (s, h1)" by (cases "collectSample e h")
  let ?S = "lastn (nat (Cap (buf b))) (Snapshot (buf b) @ [s])"
  have sub: "set ?S \<subseteq> insert s (set (Snapshot (buf b)))" using set_lastn by fastforce
  have new: "distinct (slots (Snapshot (buf b) @ [s]))
    \<and> (\<forall>a \<in> set (slots (Snapshot (buf b) @ [s])). a < next_addr h1)
    \<and> CoreCount s = int (length (elems h1 (PerCorePercent s)))
    \<and> (\<forall>u \<in> set (Snapshot (buf b)). elems h1 (PerCorePercent u) = elems h (PerCorePercent u))"
    by (cases rule: collectSample_cases [of e h])
      (use b s in \<open>auto simp: cpu_zero_sample_def elems_def set_slots split: option.splits
        dest: order_less_imp_not_eq\<close>)
  have d: "distinct (slots ?S)" using new by (subst slots_lastn) (simp add: distinct_lastn)
  have a: "\<forall>a \<in> set (slots ?S). a < next_addr h1"
    using new sub by (fastforce simp: set_slots)
  have c: "\<forall>u \<in> set ?S. CoreCount u = int (length (elems h1 (PerCorePercent u)))"
    using new sub b(5) by fastforce
  show ?thesis
    using b(1,2) d a c s by (simp add: st cpu_collectOnce_def cpu_inv_def Publish_inv Snapshot_Push [OF ring])
qed

section \<open>Peak over the window\<close>

lemma cpu_Peak_window:
  assumes "cpu_base m = Some b"
  shows "cpu_Peak now d (m, h) =
    (case fold (cpu_peak_step (now - d)) (rev (cpu_History now (m, h) d)) (None, h) of
       (peak, h1) \<Rightarrow> (Ptr peak, (m, h1)))"
proof -
  have "rev (cpu_History now (m, h) d)
      = filter (\<lambda>s. \<not> before (Timestamp s) (now - d)) (rev (Snapshot (buf b)))"
    using assms by (simp add: cpu_History_def HistoryAny_def HistoryWithin_def time_add_def rev_filter)
  then show ?thesis
    using assms fold_peak_skip [of "now - d" "rev (Snapshot (buf b))" "(None, h)"]
    by (simp add: cpu_Peak_def time_add_def)
qed

lemma cpu_History_in_window: "s \<in> set (cpu_History now st d) \<Longrightarrow> \<not> before (Timestamp s) (now - d)"
  by (cases st) (auto simp: cpu_History_def HistoryAny_def HistoryWithin_def time_add_def split: option.splits)

lemma cpu_Peak_from_newest:
  assumes b: "cpu_base m = Some b" and W: "cpu_History now (m, h) d = vs @ [w]"
  shows "cpu_Peak now d (m, h) =
    (case fold (cpu_peak_step (now - d)) (rev vs) (Some w, h) of (peak, h1) \<Rightarrow> (Ptr peak, (m, h1)))"
proof -
  have "\<not> before (Timestamp w) (now - d)" using cpu_History_in_window [of w now "(m, h)" d] W by simp
  then have "cpu_peak_step (now - d) w (None, h) = (Some w, h)" by (simp add: cpu_peak_step_def)
  then show ?thesis by (simp add: cpu_Peak_window [OF b] W)
qed

text \<open>The maximum of one number per sample, as the loop folds it.\<close>

lemma distinct_slots_filter: "distinct (slots xs) \<Longrightarrow> distinct (slots (filter P xs))"
  by (induction xs) (auto simp: set_slots split: option.splits)

lemma cpu_History_filter:
  "cpu_base m = Some b \<Longrightarrow>
     cpu_History now (m, h) d = filter (\<lambda>s. \<not> before (Timestamp s) (now - d)) (Snapshot (buf b))"
  by (simp add: cpu_History_def HistoryAny_def HistoryWithin_def time_add_def)

lemma cpu_Peak_cores:
  assumes inv: "cpu_inv (m, h)" and W: "cpu_History now (m, h) d = vs @ [w]" and n: "0 < n"
    and width: "\<forall>s \<in> set (vs @ [w]). length (elems h (PerCorePercent s)) = n"
  shows "\<exists>p h1. cpu_Peak now d (m, h) = (Ptr (Some p), (m, h1))
    \<and> PerCorePercent p = PerCorePercent w
    \<and> length (elems h1 (PerCorePercent w)) = n
    \<and> (\<forall>i < n. elems h1 (PerCorePercent w) ! i =
         fold (\<lambda>s acc. f64_max acc (elems h (PerCorePercent s) ! i)) (rev vs) (elems h (PerCorePercent w) ! i))
    \<and> (\<forall>t. t \<noteq> PerCorePercent w \<longrightarrow> elems h1 t = elems h t) \<and> next_addr h1 = next_addr h"
proof -
  obtain b where b: "cpu_base m = Some b" and dist: "distinct (slots (Snapshot (buf b)))"
    using inv by (auto simp: cpu_inv_def)
  have "distinct (slots (vs @ [w]))"
    using distinct_slots_filter [OF dist] cpu_History_filter [OF b, of now h d] W by metis
  moreover have "PerCorePercent w \<noteq> None" using width n by (cases "PerCorePercent w") (auto simp: elems_def)
  ultimately have apart: "\<forall>s \<in> set (rev vs). PerCorePercent s \<noteq> PerCorePercent w"
    by (auto simp: set_slots split: option.splits)
  have win: "\<forall>s \<in> set (rev vs). \<not> before (Timestamp s) (now - d)"
    using cpu_History_in_window [of _ now "(m, h)" d] W by simp
  obtain q h1 where "fold (cpu_peak_step (now - d)) (rev vs) (Some w, h) = (Some q, h1)"
    and "PerCorePercent q = PerCorePercent w"
    "length (elems h1 (PerCorePercent w)) = length (elems h (PerCorePercent w))"
    "\<forall>i < length (elems h (PerCorePercent w)). elems h1 (PerCorePercent w) ! i =
         fold (\<lambda>s acc. f64_max acc (elems h (PerCorePercent s) ! i)) (rev vs) (elems h (PerCorePercent w) ! i)"
    "\<forall>t. t \<noteq> PerCorePercent w \<longrightarrow> elems h1 t = elems h t" "next_addr h1 = next_addr h"
    using fold_peak_equal_width [OF win _ apart, of h] width by auto
  then show ?thesis using width by (simp add: cpu_Peak_from_newest [OF b W])
qed

lemma cpu_Peak_static:
  assumes b: "cpu_base m = Some b" and W: "cpu_History now (m, h) d = vs @ [w]"
  shows "\<exists>p h1. cpu_Peak now d (m, h) = (Ptr (Some p), (m, h1))
    \<and> Timestamp p = Timestamp w \<and> CoreCount p = CoreCount w \<and> Error p = Error w
    \<and> OverallPercent p = fold (\<lambda>s acc. f64_max acc (OverallPercent s)) (rev vs) (OverallPercent w)"
proof -
  have "\<forall>s \<in> set (rev vs). \<not> before (Timestamp s) (now - d)"
    using cpu_History_in_window [of _ now "(m, h)" d] W by simp
  then show ?thesis
    using fold_peak_fields [of "rev vs" "now - d" w h] by (auto simp: cpu_Peak_from_newest [OF b W])
qed

lemma cpu_Peak_empty:
  "cpu_base m = Some b \<Longrightarrow> cpu_History now (m, h) d = [] \<Longrightarrow> cpu_Peak now d (m, h) = (Ptr None, (m, h))"
  by (simp add: cpu_Peak_window)

interpretation cpu_peakable: peakable_module "\<lambda>(m, h). cpu_base m" Timestamp cpu_collectOnce cpu_sample_of
  publish_clock cpu_Latest cpu_History "\<lambda>now st. projr (cpu_LastSampleAge now st)"
  "\<lambda>now d st. fst (cpu_Peak now d st)"
proof unfold_locales
  fix st b now d vs w
  assume b: "(case st of (m, h) \<Rightarrow> cpu_base m) = Some b" and W: "cpu_History now st d = vs @ [w]"
  obtain m h where st: "st = (m, h)" by (cases st)
  show "\<exists>p. fst (cpu_Peak now d st) = Ptr (Some p) \<and> Timestamp p = Timestamp w"
    using cpu_Peak_static [of m b now h d vs w] b W by (auto simp: st)
next
  fix st b now d
  assume "(case st of (m, h) \<Rightarrow> cpu_base m) = Some b" and "cpu_History now st d = []"
  then show "fst (cpu_Peak now d st) \<in> {NilAny, Ptr None}"
    by (cases st) (simp add: cpu_Peak_empty)
qed

lemma cpu_New_state:
  assumes "cpu_NewWithCollector oe pe infos e intv cap h = Inr (st, logs)"
  shows "\<exists>m b. st = cpu_collectOnce e (m, h) \<and> cpu_base m = Some b \<and> base_inv b
    \<and> Snapshot (buf b) = [] \<and> Cap (buf b) = cap \<and> 0 < cap"
  using assms
  by (auto simp: cpu_NewWithCollector_def Let_def NewBase_fields NewBase_inv split: sum.splits)

section \<open>Properties\<close>

text \<open>
  C3. The peak sample of a non-empty window is the newest in-window sample with its overall
  percentage replaced by the largest one observed in the window: timestamp, core count and error
  are the newest sample's, the value is one of those observed, and no observed value exceeds it.
\<close>

theorem cpu_peak_overall:
  assumes "cpu_base m = Some b"
    and "cpu_History now (m, h) d = W" "W \<noteq> []"
  shows "\<exists>p h1. cpu_Peak now d (m, h) = (Ptr (Some p), (m, h1))
    \<and> Timestamp p = Timestamp (last W) \<and> CoreCount p = CoreCount (last W) \<and> Error p = Error (last W)
    \<and> OverallPercent p \<in> OverallPercent ` set W
    \<and> (\<forall>s \<in> set W. \<not> f64_gt (OverallPercent s) (OverallPercent p))"
proof -
  have W: "cpu_History now (m, h) d = butlast W @ [last W]" using assms by simp
  have set_W: "set W = set (last W # rev (butlast W))"
    by (metis assms(3) append_butlast_last_id list.set(2) rev.simps(2) rev_append rev_rev_ident set_rev
        append_Cons append_Nil)
  show ?thesis
    using cpu_Peak_static [OF assms(1) W] fold_max_over [where f = OverallPercent and w = "last W" and vs = "rev (butlast W)"]
    unfolding set_W by metis
qed

text \<open>
  Concrete runs for the witnesses: a module of capacity 3, sampled at seconds 1, 2 and 3 on a
  machine with two cores.
\<close>

definition reading :: "int \<Rightarrow> int \<Rightarrow> int list \<Rightarrow> cpu_reading" where
  "reading t ov cores =
     \<lparr>overall_reading = Inr [Fin (of_int ov)], per_core_reading = Inr (map (\<lambda>c. Fin (of_int c)) cores),
      stamp_clock = t * second, publish_clock = t * second\<rparr>"

definition empty_heap :: heap where
  "empty_heap = \<lparr>cells = (\<lambda>_. []), next_addr = 0\<rparr>"

definition started :: "cpu_reading \<Rightarrow> cpu_state" where
  "started e = fst (projr (cpu_NewWithCollector None None (Inr []) e second 3 empty_heap))"

definition run3 :: cpu_state where
  "run3 = cpu_collectOnce (reading 3 40 [50, 60])
            (cpu_collectOnce (reading 2 80 [70, 50]) (started (reading 1 30 [20, 30])))"

lemmas run_defs = run3_def started_def reading_def empty_heap_def cpu_NewWithCollector_def NewBase_def
  NewRingBuffer_def cpu_collectOnce_def collectSample_def alloc_def Publish_def publish_latest_def
  publish_push_def publish_stamp_def Push_def warmup_def cpu_Info_def cpu_zero_sample_def

lemma started_inv: "cpu_inv (started e)"
proof -
  have "\<exists>st logs. cpu_NewWithCollector None None (Inr []) e second 3 empty_heap = Inr (st, logs)"
    by (simp add: cpu_NewWithCollector_def NewBase_def NewRingBuffer_def Let_def)
  then show ?thesis by (auto simp: started_def dest: cpu_New_inv)
qed

lemma run3_inv: "cpu_inv run3"
  unfolding run3_def by (intro cpu_collectOnce_inv started_inv)

definition run3_module :: cpu_module where
  "run3_module = fst run3"

definition run3_heap :: heap where
  "run3_heap = snd run3"

lemma run3_pair: "run3 = (run3_module, run3_heap)"
  by (simp add: run3_module_def run3_heap_def)

lemma run3_base:
  "\<exists>b. cpu_base run3_module = Some b \<and> Snapshot (buf b) =
     [\<lparr>Timestamp = 1 * second, OverallPercent = Fin 30, PerCorePercent = Some 0, CoreCount = 2, Error = ''''\<rparr>,
      \<lparr>Timestamp = 2 * second, OverallPercent = Fin 80, PerCorePercent = Some (Suc 0), CoreCount = 2, Error = ''''\<rparr>,
      \<lparr>Timestamp = 3 * second, OverallPercent = Fin 40, PerCorePercent = Some 2, CoreCount = 2, Error = ''''\<rparr>]"
  by (simp add: run3_module_def run_defs Let_def Snapshot_def numeral_2_eq_2 numeral_3_eq_3)

definition run3_window :: "cpu_sample list" where
  "run3_window =
     [\<lparr>Timestamp = 1 * second, OverallPercent = Fin 30, PerCorePercent = Some 0, CoreCount = 2, Error = ''''\<rparr>,
      \<lparr>Timestamp = 2 * second, OverallPercent = Fin 80, PerCorePercent = Some (Suc 0), CoreCount = 2, Error = ''''\<rparr>,
      \<lparr>Timestamp = 3 * second, OverallPercent = Fin 40, PerCorePercent = Some 2, CoreCount = 2, Error = ''''\<rparr>]"

lemma run3_history: "cpu_History (4 * second) (run3_module, run3_heap) (10 * second) = run3_window"
proof -
  obtain b where "cpu_base (run3_module) = Some b" "Snapshot (buf b) = run3_window"
    using run3_base unfolding run3_window_def by blast
  then show ?thesis
    by (simp add: cpu_History_filter) (simp add: run3_window_def before_def)
qed

lemma run3_cells:
  "elems run3_heap (Some 0) = [Fin 20, Fin 30]" "elems run3_heap (Some (Suc 0)) = [Fin 70, Fin 50]"
  "elems run3_heap (Some 2) = [Fin 50, Fin 60]"
  by (simp_all add: run3_heap_def run_defs Let_def elems_def numeral_2_eq_2 numeral_3_eq_3)

theorem cpu_peak_overall_witness:
  "\<exists>p h1. cpu_Peak (4 * second) (10 * second) (run3_module, run3_heap) = (Ptr (Some p), (run3_module, h1))
     \<and> Timestamp p = 3 * second \<and> OverallPercent p = Fin 80"
proof -
  obtain b where b: "cpu_base (run3_module) = Some b" using run3_base by blast
  show ?thesis
    using cpu_peak_overall [OF b run3_history] by (fastforce simp: run3_window_def)
qed

text \<open>
  When the samples of the window have the same number of cores, every core of the peak sample
  holds the largest percentage that the arrays of these samples hold for that core at the time of the
  call. (They hold what was measured until a peak request writes into them.)
\<close>

theorem cpu_peak_stored:
  assumes "cpu_inv (m, h)" and "cpu_History now (m, h) d = W" "W \<noteq> []" and "0 < n"
    and "\<forall>s \<in> set W. length (elems h (PerCorePercent s)) = n"
  shows "\<exists>p h1. cpu_Peak now d (m, h) = (Ptr (Some p), (m, h1))
    \<and> length (elems h1 (PerCorePercent p)) = n
    \<and> (\<forall>i < n. elems h1 (PerCorePercent p) ! i \<in> (\<lambda>s. elems h (PerCorePercent s) ! i) ` set W
        \<and> (\<forall>s \<in> set W. \<not> f64_gt (elems h (PerCorePercent s) ! i) (elems h1 (PerCorePercent p) ! i)))"
proof -
  have W: "cpu_History now (m, h) d = butlast W @ [last W]" and W2: "butlast W @ [last W] = W"
    using assms by simp_all
  have set_W: "set W = set (last W # rev (butlast W))"
    using arg_cong [OF W2, of set] by (simp add: insert_commute)
  obtain p h1 where p: "cpu_Peak now d (m, h) = (Ptr (Some p), (m, h1))"
    "PerCorePercent p = PerCorePercent (last W)" "length (elems h1 (PerCorePercent (last W))) = n"
    and v: "\<forall>i < n. elems h1 (PerCorePercent (last W)) ! i =
      fold (\<lambda>s acc. f64_max acc (elems h (PerCorePercent s) ! i)) (rev (butlast W))
        (elems h (PerCorePercent (last W)) ! i)"
    using cpu_Peak_cores [OF assms(1) W assms(4)] assms(5) W2 by metis
  show ?thesis
    using p v fold_max_over [where f = "\<lambda>s. elems h (PerCorePercent s) ! _" and w = "last W" and vs = "rev (butlast W)"]
    unfolding set_W by metis
qed

theorem cpu_peak_stored_witness:
  "\<exists>p h1. cpu_Peak (4 * second) (10 * second) (run3_module, run3_heap) = (Ptr (Some p), (run3_module, h1))
     \<and> elems h1 (PerCorePercent p) = [Fin 70, Fin 60]"
proof -
  have inv: "cpu_inv (run3_module, run3_heap)" using run3_inv run3_pair by simp
  obtain p h1 where p: "cpu_Peak (4 * second) (10 * second) (run3_module, run3_heap) = (Ptr (Some p), (run3_module, h1))"
    and len: "length (elems h1 (PerCorePercent p)) = 2"
    and v: "\<forall>i < 2. elems h1 (PerCorePercent p) ! i \<in> (\<lambda>s. elems run3_heap (PerCorePercent s) ! i) ` set run3_window
        \<and> (\<forall>s \<in> set run3_window. \<not> f64_gt (elems run3_heap (PerCorePercent s) ! i) (elems h1 (PerCorePercent p) ! i))"
    using cpu_peak_stored [OF inv run3_history, of 2] by (auto simp: run3_window_def run3_cells)
  have "elems h1 (PerCorePercent p) ! 0 = Fin 70"
    using v [rule_format, of 0] by (auto simp: run3_window_def run3_cells)
  moreover have "elems h1 (PerCorePercent p) ! 1 = Fin 60"
    using v [rule_format, of 1] by (auto simp: run3_window_def run3_cells)
  ultimately show ?thesis using p len
    by (metis (no_types, lifting) One_nat_def Suc_1 length_0_conv length_Suc_conv nth_Cons_0 nth_Cons_Suc)
qed

text \<open>
  \<open>Peak\<close> computes these maxima in the array of the newest in-window sample itself, which the
  ring buffer and the latest pointer share: after the call the recorded sample reads like the
  peak, and it is unchanged exactly when no older in-window sample had a larger value on a core.
  No other array changes.
\<close>

theorem cpu_peak_writes_newest:
  assumes "cpu_inv (m, h)" and "cpu_History now (m, h) d = W" "W \<noteq> []" and "0 < n"
    and "\<forall>s \<in> set W. length (elems h (PerCorePercent s)) = n"
  shows "\<exists>p h1. cpu_Peak now d (m, h) = (Ptr (Some p), (m, h1))
    \<and> PerCorePercent p = PerCorePercent (last W)
    \<and> (\<forall>t. t \<noteq> PerCorePercent (last W) \<longrightarrow> elems h1 t = elems h t)
    \<and> (elems h1 (PerCorePercent (last W)) = elems h (PerCorePercent (last W)) \<longleftrightarrow>
        (\<forall>s \<in> set W. \<forall>i < n. \<not> f64_gt (elems h (PerCorePercent s) ! i) (elems h (PerCorePercent (last W)) ! i)))"
proof -
  let ?L = "PerCorePercent (last W)" and ?E = "\<lambda>s i. elems h (PerCorePercent s) ! i"
  have W: "cpu_History now (m, h) d = butlast W @ [last W]" and W2: "butlast W @ [last W] = W"
    using assms by simp_all
  have set_W: "set W = set (last W # rev (butlast W))"
    using arg_cong [OF W2, of set] by (simp add: insert_commute)
  obtain p h1 where p: "cpu_Peak now d (m, h) = (Ptr (Some p), (m, h1))"
    "PerCorePercent p = ?L" "length (elems h1 ?L) = n" "\<forall>t. t \<noteq> ?L \<longrightarrow> elems h1 t = elems h t"
    and v: "\<forall>i < n. elems h1 ?L ! i = fold (\<lambda>s acc. f64_max acc (?E s i)) (rev (butlast W)) (?E (last W) i)"
    using cpu_Peak_cores [OF assms(1) W assms(4)] assms(5) W2 by metis
  have len: "length (elems h ?L) = n" using assms(5) set_W by simp
  have same: "elems h1 ?L ! i = ?E (last W) i \<longleftrightarrow> (\<forall>s \<in> set W. \<not> f64_gt (?E s i) (?E (last W) i))"
    if i: "i < n" for i
  proof -
    have "fold (\<lambda>s acc. f64_max acc (?E s i)) xs a = a" if "\<forall>s \<in> set xs. \<not> f64_gt (?E s i) a" for xs a
      using that by (induction xs) (auto simp: f64_max_def)
    then show ?thesis
      using v i fold_max_over(2) [where f = "\<lambda>s. ?E s i" and w = "last W" and vs = "rev (butlast W)"]
      unfolding set_W by (metis list.set_intros(2))
  qed
  have "elems h1 ?L = elems h ?L \<longleftrightarrow> (\<forall>i < n. elems h1 ?L ! i = ?E (last W) i)"
    using p(3) len by (auto simp: list_eq_iff_nth_eq)
  then show ?thesis using p same by blast
qed

theorem cpu_peak_writes_newest_witness:
  "\<exists>p h1. cpu_Peak (4 * second) (10 * second) (run3_module, run3_heap) = (Ptr (Some p), (run3_module, h1))
     \<and> elems h1 (Some 2) \<noteq> elems run3_heap (Some 2)"
proof -
  have inv: "cpu_inv (run3_module, run3_heap)" using run3_inv run3_pair by simp
  have "\<exists>s \<in> set run3_window. \<exists>i < 2. f64_gt (elems run3_heap (PerCorePercent s) ! i)
      (elems run3_heap (PerCorePercent (last run3_window)) ! i)"
    by (auto simp: run3_window_def run3_cells intro!: exI [of _ 0])
  then show ?thesis
    using cpu_peak_writes_newest [OF inv run3_history, of 2] by (auto simp: run3_window_def run3_cells)
qed

text \<open>
  An older in-window sample with more cores than the accumulator replaces the accumulated
  per-core maxima by its own values: whatever larger values newer samples had are dropped.
\<close>

theorem cpu_peak_wider_sample:
  assumes "\<not> before (Timestamp s) cutoff"
    and "length (elems h (PerCorePercent p)) < length (elems h (PerCorePercent s))"
    and "\<forall>a. PerCorePercent s = Some a \<longrightarrow> a < next_addr h"
  shows "\<exists>q h1. cpu_peak_step cutoff s (Some p, h) = (Some q, h1)
    \<and> elems h1 (PerCorePercent q) = elems h (PerCorePercent s)"
proof -
  let ?v = "elems h (PerCorePercent s)"
  have ne: "?v \<noteq> []" using assms(2) by auto
  obtain arr h1 where al: "alloc ?v h = (arr, h1)" by (cases "alloc ?v h")
  have same: "elems h1 (PerCorePercent s) = ?v" "elems h1 arr = ?v"
    using al assms(3) by (auto simp: alloc_def elems_def split: option.splits)
  have "max_into a i vs g = g" if "\<forall>j < length vs. i + j < length (elems g a) \<longrightarrow> elems g a ! (i + j) = vs ! j"
    for a i vs g
    using that
  proof (induction vs arbitrary: i)
    case (Cons v vs)
    have "max_into a (Suc i) vs g = g"
      using Cons.prems by (intro Cons.IH) fastforce
    then show ?case using Cons.prems by fastforce
  qed simp
  then have "max_into arr 0 ?v h1 = h1" using same by simp
  then show ?thesis using assms(1,2) ne al same
    by (auto simp: cpu_peak_step_def append_to_nil_def Let_def)
qed

theorem cpu_peak_wider_sample_witness:
  "let h0 = empty_heap; (a, h1) = alloc [Fin 90] h0; (c, h2) = alloc [Fin 10, Fin 20] h1;
       newer = cpu_zero_sample\<lparr>Timestamp := 5, PerCorePercent := a\<rparr>;
       older = cpu_zero_sample\<lparr>Timestamp := 4, PerCorePercent := c\<rparr>
   in \<exists>q h3. cpu_peak_step 0 older (Some newer, h2) = (Some q, h3)
        \<and> elems h3 (PerCorePercent q) = [Fin 10, Fin 20]"
  using cpu_peak_wider_sample [of "cpu_zero_sample\<lparr>Timestamp := 4, PerCorePercent := Some 1\<rparr>" 0
      "snd (alloc [Fin 10, Fin 20] (snd (alloc [Fin 90] empty_heap)))"
      "cpu_zero_sample\<lparr>Timestamp := 5, PerCorePercent := Some 0\<rparr>"]
  by (simp add: alloc_def empty_heap_def elems_def before_def cpu_zero_sample_def)

text \<open>What any step of the loop leaves of the store: old arrays keep their length.\<close>

definition heap_grows :: "heap \<Rightarrow> heap \<Rightarrow> bool" where
  "heap_grows h h1 \<longleftrightarrow> next_addr h \<le> next_addr h1
     \<and> (\<forall>t. (\<forall>a. t = Some a \<longrightarrow> a < next_addr h) \<longrightarrow> length (elems h1 t) = length (elems h t))"

lemma heap_grows_refl [simp]: "heap_grows h h"
  by (simp add: heap_grows_def)

lemma heap_grows_trans: "heap_grows h h1 \<Longrightarrow> heap_grows h1 h2 \<Longrightarrow> heap_grows h h2"
  unfolding heap_grows_def by (metis order_less_le_trans order_trans)

lemma heap_grows_max_into: "heap_grows h (max_into p i vs h)"
proof -
  have "length (elems (max_into p i vs h) t) = length (elems h t)" for t
    by (cases "t = p") (simp_all add: max_into_elems max_into_frame)
  then show ?thesis by (simp add: heap_grows_def max_into_frame)
qed

lemma heap_grows_append: "append_to_nil xs h = (a, h1) \<Longrightarrow> heap_grows h h1"
  by (auto simp: append_to_nil_def alloc_def heap_grows_def elems_def split: if_splits option.splits)

lemma heap_grows_step:
  assumes "cpu_peak_step c s (peak, h) = (peak1, h1)"
  shows "heap_grows h h1"
proof (cases peak)
  case None
  then show ?thesis using assms by (auto simp: cpu_peak_step_def split: if_splits)
next
  case (Some p)
  obtain a h2 where a: "append_to_nil (elems h (PerCorePercent s)) h = (a, h2)"
    by (cases "append_to_nil (elems h (PerCorePercent s)) h")
  show ?thesis
    using assms Some a heap_grows_append [OF a] heap_grows_max_into heap_grows_trans
    by (auto simp: cpu_peak_step_def Let_def split: if_splits)
qed

lemma heap_grows_fold:
  "fold (cpu_peak_step c) xs (peak, h) = (peak1, h1) \<Longrightarrow> heap_grows h h1"
proof (induction xs arbitrary: peak h)
  case (Cons s xs)
  obtain q h2 where q: "cpu_peak_step c s (peak, h) = (q, h2)" by (cases "cpu_peak_step c s (peak, h)")
  then show ?case using Cons heap_grows_step [OF q] by (auto intro: heap_grows_trans)
qed simp

lemma cpu_Peak_inv [inv_intros]:
  assumes "cpu_inv st"
  shows "cpu_inv (snd (cpu_Peak now d st))"
proof -
  obtain m h where st: "st = (m, h)" by (cases st)
  obtain b where b: "cpu_base m = Some b" "base_inv b" "distinct (slots (Snapshot (buf b)))"
    "\<forall>a \<in> set (slots (Snapshot (buf b))). a < next_addr h"
    "\<forall>s \<in> set (Snapshot (buf b)). CoreCount s = int (length (elems h (PerCorePercent s)))"
    using assms by (auto simp: cpu_inv_def st)
  obtain p h1 where p: "fold (cpu_peak_step (now - d)) (rev (Snapshot (buf b))) (None, h) = (p, h1)"
    by (cases "fold (cpu_peak_step (now - d)) (rev (Snapshot (buf b))) (None, h)")
  have g: "next_addr h \<le> next_addr h1"
    "length (elems h1 t) = length (elems h t)" if "\<forall>a. t = Some a \<longrightarrow> a < next_addr h" for t
    using heap_grows_fold [OF p] that by (auto simp: heap_grows_def)
  have "length (elems h1 (PerCorePercent s)) = length (elems h (PerCorePercent s))"
    if "s \<in> set (Snapshot (buf b))" for s
    using that b(4) by (intro g(2)) (auto simp: set_slots)
  moreover have "next_addr h \<le> next_addr h1" using g(1) [of None] by simp
  ultimately show ?thesis
    using b p by (fastforce simp: st cpu_inv_def cpu_Peak_def time_add_def)
qed

text \<open>What can happen to a constructed module: a sampling tick or a peak request.\<close>

datatype cpu_op = Sampled cpu_reading | PeakRequest instant duration

primrec cpu_apply :: "cpu_op \<Rightarrow> cpu_state \<Rightarrow> cpu_state" where
  "cpu_apply (Sampled e) st = cpu_collectOnce e st"
| "cpu_apply (PeakRequest now d) st = snd (cpu_Peak now d st)"

lemma cpu_apply_inv: "cpu_inv st \<Longrightarrow> cpu_inv (cpu_apply op st)"
  by (cases op) (auto intro: inv_intros)

text \<open>
  In every state that sampling ticks and peak requests can lead to from a constructed module,
  the retained samples own pairwise different, allocated arrays, each sample's core count is the
  width of its array, and the latest pointer is the newest retained sample.
\<close>

theorem cpu_reachable_inv:
  assumes "cpu_NewWithCollector oe pe infos e intv cap h = Inr (st, logs)"
  shows "cpu_inv (fold cpu_apply ops st)"
proof -
  have "cpu_inv s \<Longrightarrow> cpu_inv (fold cpu_apply ops s)" for s
    by (induction ops arbitrary: s) (simp_all add: cpu_apply_inv)
  then show ?thesis using cpu_New_inv [OF assms] by blast
qed

theorem cpu_reachable_inv_witness:
  "cpu_inv (fold cpu_apply [Sampled (reading 2 80 [70, 50]), PeakRequest (3 * second) second] (started (reading 1 30 [20, 30])))"
proof -
  obtain st logs where st: "cpu_NewWithCollector None None (Inr []) (reading 1 30 [20, 30]) second 3 empty_heap = Inr (st, logs)"
    by (simp add: cpu_NewWithCollector_def NewBase_def NewRingBuffer_def Let_def)
  then show ?thesis
    using cpu_reachable_inv [OF st, of "[Sampled (reading 2 80 [70, 50]), PeakRequest (3 * second) second]"]
    by (simp add: started_def)
qed

text \<open>
  After construction and any further ticks, \<open>History(d)\<close> is, oldest first, exactly those of the
  last \<open>capacity\<close> published samples whose timestamp lies within the trailing \<open>d\<close>, and \<open>Latest\<close> is
  the last published sample.
\<close>

theorem cpu_history_window:
  assumes "cpu_NewWithCollector oe pe infos e intv cap h = Inr (st, logs)"
  shows "\<exists>st0. st = cpu_collectOnce e st0
    \<and> cpu_History now (fold cpu_collectOnce es st) d =
        filter (\<lambda>s. now - d \<le> Timestamp s) (lastn (nat cap) (cpu.samples (e # es) st0))
    \<and> cpu_Latest (fold cpu_collectOnce es st) = Ptr (Some (last (cpu.samples (e # es) st0)))"
proof -
  obtain m b where st: "st = cpu_collectOnce e (m, h)" and b: "cpu_base m = Some b" "base_inv b"
    and f: "Snapshot (buf b) = []" "Cap (buf b) = cap"
    using cpu_New_state [OF assms] by blast
  have base: "(case (m, h) of (m, h) \<Rightarrow> cpu_base m) = Some b" using b by simp
  have f1: "fold cpu_collectOnce es st = fold cpu_collectOnce (e # es) (m, h)" by (simp add: st)
  show ?thesis
    unfolding f1 using st cpu.history_after [OF base b(2), of now "e # es" d]
      cpu.latest_after [OF base b(2), of "e # es"] f
    by (intro exI [of _ "(m, h)"]) (simp del: fold.simps cpu.samples.simps)
qed

theorem cpu_history_window_witness:
  "\<exists>st0. started (reading 1 30 [20, 30]) = cpu_collectOnce (reading 1 30 [20, 30]) st0
    \<and> cpu_Latest (started (reading 1 30 [20, 30])) = Ptr (Some (last (cpu.samples [reading 1 30 [20, 30]] st0)))"
proof -
  obtain st logs where st: "cpu_NewWithCollector None None (Inr []) (reading 1 30 [20, 30]) second 3 empty_heap = Inr (st, logs)"
    by (simp add: cpu_NewWithCollector_def NewBase_def NewRingBuffer_def Let_def)
  then show ?thesis using cpu_history_window [OF st, of 0 "[]" 0] by (auto simp: started_def)
qed

text \<open>
  A failed gopsutil call publishes a sample that carries the error but the zero timestamp,
  so no history and no peak window ever contains it (for any window reaching back less than to
  year 1), although \<open>Latest\<close> shows it.
\<close>

theorem cpu_error_sample_unseen:
  assumes "cpu_base m = Some b" "base_inv b"
    and "overall_reading e = Inl err \<or> (\<exists>ov. overall_reading e = Inr ov) \<and> per_core_reading e = Inl err"
    and "zero_time < now - d" and "err \<noteq> ''''"
  shows "\<exists>s. cpu_Latest (cpu_collectOnce e (m, h)) = Ptr (Some s) \<and> Error s = err
    \<and> s \<notin> set (cpu_History now (cpu_collectOnce e (m, h)) d)
    \<and> (\<forall>u \<in> set (cpu_History now (cpu_collectOnce e (m, h)) d). u \<in> set (cpu_History now (m, h) d))"
proof -
  let ?s = "cpu_zero_sample\<lparr>Error := err\<rparr>"
  have c: "collectSample e h = (?s, h)"
    using assms(3) by (auto simp: collectSample_def split: sum.splits)
  have ring: "ring_inv (buf b)" using assms(2) by (simp add: base_inv_def)
  have old: "u \<in> set (Snapshot (buf b))"
    if "u \<in> set (lastn (nat (Cap (buf b))) (Snapshot (buf b) @ [?s]))" "\<not> Timestamp u < now - d" for u
  proof -
    have "u \<noteq> ?s" using that(2) assms(4) by (auto simp: cpu_zero_sample_def)
    then show ?thesis using that(1) set_lastn by fastforce
  qed
  show ?thesis
    using assms(1,4) c old
    by (intro exI [of _ ?s])
      (auto simp: cpu_collectOnce_def cpu_Latest_def cpu_History_filter Base_Latest_def
        Snapshot_Push [OF ring] before_def, simp add: cpu_zero_sample_def)
qed

theorem cpu_error_sample_unseen_witness:
  "\<exists>s. cpu_Latest (cpu_collectOnce ((reading 4 0 [])\<lparr>overall_reading := Inl ''boom''\<rparr>) (run3_module, run3_heap)) = Ptr (Some s)
    \<and> Error s = ''boom''
    \<and> s \<notin> set (cpu_History (5 * second) (cpu_collectOnce ((reading 4 0 [])\<lparr>overall_reading := Inl ''boom''\<rparr>)
        (run3_module, run3_heap)) (10 * second))"
proof -
  obtain b where b: "cpu_base run3_module = Some b" "base_inv b"
    using run3_inv by (auto simp: run3_pair cpu_inv_def)
  show ?thesis
    using cpu_error_sample_unseen [OF b, of "(reading 4 0 [])\<lparr>overall_reading := Inl ''boom''\<rparr>" "''boom''"
        "5 * second" "10 * second" run3_heap]
    by (auto simp: zero_time_def)
qed

text \<open>
  When no retained sample lies in the window, \<open>Peak\<close> returns a nil \<open>*Sample\<close> wrapped in a
  non-nil interface value, so a caller's comparison with \<open>nil\<close> does not see it, and the module
  is left as it was.
\<close>

theorem cpu_peak_empty_window:
  assumes "cpu_base m = Some b" "cpu_History now (m, h) d = []"
  shows "cpu_Peak now d (m, h) = (Ptr None, (m, h)) \<and> fst (cpu_Peak now d (m, h)) \<noteq> NilAny"
  using assms by (simp_all add: cpu_Peak_window)

theorem cpu_peak_empty_window_witness:
  "cpu_Peak (9 * second) second (run3_module, run3_heap) = (Ptr None, (run3_module, run3_heap))"
proof -
  obtain b where b: "cpu_base run3_module = Some b" "Snapshot (buf b) = run3_window"
    using run3_base unfolding run3_window_def by blast
  then have "cpu_History (9 * second) (run3_module, run3_heap) second = []"
    by (simp add: cpu_History_filter) (simp add: run3_window_def before_def)
  then show ?thesis using cpu_peak_empty_window [OF b(1)] by simp
qed

end
