(* ===== verification/Memory.thy ===== *)
theory Memory
  imports Module_Contract
begin

text \<open>
  The memory module (\<^verbatim>\<open>internal/memory\<close>): byte counts are 64-bit words, the used-without-cache
  figure is computed with guarded subtractions, and \<open>Peak\<close> maximises that figure over a window
  and recomputes the percentage in \<open>float64\<close>. gopsutil's results and the clock are arguments.
\<close>

section \<open>Samples and the collector\<close>

record mem_sample =
  Timestamp :: instant
  TotalBytes :: u64
  UsedBytes :: u64
  UsedNoCacheBytes :: u64
  AvailableBytes :: u64
  UsedPercent :: f64
  SwapTotalBytes :: u64
  SwapUsedBytes :: u64
  BuffersBytes :: u64
  CachedBytes :: u64
  SharedBytes :: u64
  Error :: string

record mem_profile =
  ProfileTotalBytes :: u64
  StartupError :: string

definition mem_zero_sample :: mem_sample where
  "mem_zero_sample = \<lparr>Timestamp = zero_time, TotalBytes = 0, UsedBytes = 0, UsedNoCacheBytes = 0,
     AvailableBytes = 0, UsedPercent = Fin 0, SwapTotalBytes = 0, SwapUsedBytes = 0, BuffersBytes = 0,
     CachedBytes = 0, SharedBytes = 0, Error = ''''\<rparr>"

definition json_of_mem_sample :: "mem_sample \<Rightarrow> json" where
  "json_of_mem_sample s =
     JObject ([(''timestamp'', JTime (Timestamp s)), (''total_bytes'', JInt (uint (TotalBytes s))),
       (''used_bytes'', JInt (uint (UsedBytes s))),
       (''used_no_cache_bytes'', JInt (uint (UsedNoCacheBytes s))),
       (''available_bytes'', JInt (uint (AvailableBytes s))),
       (''used_percent'', JFloat (UsedPercent s)),
       (''swap_total_bytes'', JInt (uint (SwapTotalBytes s))),
       (''swap_used_bytes'', JInt (uint (SwapUsedBytes s)))]
       @ omit_int ''buffers_bytes'' (uint (BuffersBytes s))
       @ omit_int ''cached_bytes'' (uint (CachedBytes s))
       @ omit_int ''shared_bytes'' (uint (SharedBytes s))
       @ omit_string ''error'' (Error s))"

record virtual_memory =
  vmTotalBytes :: u64
  vmAvailableBytes :: u64
  vmFreeBytes :: u64
  vmUsedBytes :: u64
  vmUsedPercent :: f64
  vmBuffersBytes :: u64
  vmCachedBytes :: u64
  vmSharedBytes :: u64

record swap_memory =
  swTotalBytes :: u64
  swUsedBytes :: u64

definition zero_vm :: virtual_memory where
  "zero_vm = \<lparr>vmTotalBytes = 0, vmAvailableBytes = 0, vmFreeBytes = 0, vmUsedBytes = 0,
     vmUsedPercent = Fin 0, vmBuffersBytes = 0, vmCachedBytes = 0, vmSharedBytes = 0\<rparr>"

definition zero_sw :: swap_memory where
  "zero_sw = \<lparr>swTotalBytes = 0, swUsedBytes = 0\<rparr>"

definition gopsutil_Collect ::
  "string + virtual_memory \<Rightarrow> string + swap_memory
     \<Rightarrow> virtual_memory \<times> swap_memory \<times> string option" where
  \<comment> \<open>the arguments are the results of \<open>mem.VirtualMemory()\<close> and \<open>mem.SwapMemory()\<close>, the fields
     the code copies\<close>
  "gopsutil_Collect vmr swr =
     (case vmr of Inl err \<Rightarrow> (zero_vm, zero_sw, Some err)
      | Inr vm \<Rightarrow> (case swr of Inl err \<Rightarrow> (zero_vm, zero_sw, Some err) | Inr sw \<Rightarrow> (vm, sw, None)))"

definition mem_Info :: "string + virtual_memory \<Rightarrow> mem_profile" where
  "mem_Info vmr =
     (case vmr of Inl err \<Rightarrow> \<lparr>ProfileTotalBytes = 0, StartupError = err\<rparr>
      | Inr vm \<Rightarrow> \<lparr>ProfileTotalBytes = vmTotalBytes vm, StartupError = ''''\<rparr>)"

definition usedWithoutReclaimable :: "virtual_memory \<Rightarrow> u64" where
  "usedWithoutReclaimable vm =
     (let by_available =
            (if 0 < vmTotalBytes vm \<and> 0 < vmAvailableBytes vm \<and> vmAvailableBytes vm \<le> vmTotalBytes vm
             then vmTotalBytes vm - vmAvailableBytes vm else vmUsedBytes vm)
      in if 0 < vmTotalBytes vm \<and> 0 < vmFreeBytes vm \<and> vmFreeBytes vm \<le> vmTotalBytes vm
         then let used = vmTotalBytes vm - vmFreeBytes vm
              in if vmBuffersBytes vm \<le> used
                 then let used = used - vmBuffersBytes vm
                      in if vmCachedBytes vm \<le> used then used - vmCachedBytes vm else by_available
                 else by_available
         else by_available)"

section \<open>The module\<close>

record mem_reading =
  collected :: "virtual_memory \<times> swap_memory \<times> string option"
  stamp_clock :: instant
  publish_clock :: instant

record mem_module =
  mem_base :: "mem_sample base option"
  mem_profile_info :: mem_profile

definition mem_sample_of :: "mem_reading \<Rightarrow> mem_sample" where
  \<comment> \<open>the sample \<open>collectOnce\<close> publishes\<close>
  "mem_sample_of e =
     (case collected e of
        (vm, sw, Some err) \<Rightarrow> mem_zero_sample\<lparr>Timestamp := stamp_clock e, Error := err\<rparr>
      | (vm, sw, None) \<Rightarrow>
        \<lparr>Timestamp = stamp_clock e, TotalBytes = vmTotalBytes vm, UsedBytes = vmUsedBytes vm,
         UsedNoCacheBytes = usedWithoutReclaimable vm, AvailableBytes = vmAvailableBytes vm,
         UsedPercent = vmUsedPercent vm, SwapTotalBytes = swTotalBytes sw,
         SwapUsedBytes = swUsedBytes sw, BuffersBytes = vmBuffersBytes vm,
         CachedBytes = vmCachedBytes vm, SharedBytes = vmSharedBytes vm, Error = ''''\<rparr>)"

definition mem_collectOnce :: "mem_reading \<Rightarrow> mem_module \<Rightarrow> mem_module" where
  "mem_collectOnce e m =
     m\<lparr>mem_base := map_option (Publish (publish_clock e) (mem_sample_of e)) (mem_base m)\<rparr>"

definition captureProfile :: "virtual_memory \<times> swap_memory \<times> string option \<Rightarrow> mem_profile" where
  "captureProfile c =
     (case c of
        (vm, sw, Some err) \<Rightarrow> \<lparr>ProfileTotalBytes = 0, StartupError = err\<rparr>
      | (vm, sw, None) \<Rightarrow> \<lparr>ProfileTotalBytes = vmTotalBytes vm, StartupError = ''''\<rparr>)"

definition mem_NewWithCollector ::
  "virtual_memory \<times> swap_memory \<times> string option \<Rightarrow> mem_reading \<Rightarrow> duration \<Rightarrow> int
     \<Rightarrow> go_panic + mem_module" where
  \<comment> \<open>the collector is called twice: for the profile, then for the first sample\<close>
  "mem_NewWithCollector c e intv historyCapacity =
     (case NewBase mem_zero_sample intv historyCapacity of
        Inl p \<Rightarrow> Inl p
      | Inr b \<Rightarrow> Inr (mem_collectOnce e \<lparr>mem_base = Some b, mem_profile_info = captureProfile c\<rparr>))"

definition mem_Latest :: "mem_module \<Rightarrow> mem_sample any_ptr" where
  "mem_Latest m = (case mem_base m of None \<Rightarrow> NilAny | Some b \<Rightarrow> Ptr (Base_Latest b))"

definition mem_History :: "instant \<Rightarrow> mem_module \<Rightarrow> duration \<Rightarrow> mem_sample list" where
  "mem_History now m d = (case mem_base m of None \<Rightarrow> []
     | Some b \<Rightarrow> HistoryAny now (buf b) d (\<lambda>s cutoff. \<not> before (Timestamp s) cutoff) id)"

definition mem_LastSampleAge :: "instant \<Rightarrow> mem_module \<Rightarrow> duration" where
  "mem_LastSampleAge now m = (case mem_base m of None \<Rightarrow> max_int64 | Some b \<Rightarrow> LastSampleAge now b)"

definition mem_peak_step :: "instant \<Rightarrow> mem_sample \<Rightarrow> mem_sample option \<Rightarrow> mem_sample option" where
  "mem_peak_step cutoff s peak =
     (if before (Timestamp s) cutoff then peak
      else case peak of
        None \<Rightarrow> Some s
      | Some p \<Rightarrow> Some (if UsedNoCacheBytes p < UsedNoCacheBytes s
                        then p\<lparr>UsedNoCacheBytes := UsedNoCacheBytes s\<rparr> else p))"

definition percent_of :: "u64 \<Rightarrow> u64 \<Rightarrow> f64" where
  \<comment> \<open>\<open>float64(a) / float64(b) * 100\<close>\<close>
  "percent_of a b = f64_mul (f64_div (f64_of_int (uint a)) (f64_of_int (uint b))) (Fin 100)"

definition mem_Peak :: "instant \<Rightarrow> duration \<Rightarrow> mem_module \<Rightarrow> mem_sample any_ptr" where
  "mem_Peak now d m =
     (case mem_base m of
        None \<Rightarrow> NilAny
      | Some b \<Rightarrow>
        let cutoff = time_add now (- d);
            peak = fold (mem_peak_step cutoff) (rev (Snapshot (buf b))) None
        in case peak of
             None \<Rightarrow> Ptr None
           | Some p \<Rightarrow>
             if 0 < TotalBytes p
             then Ptr (Some (p\<lparr>UsedPercent := percent_of (UsedNoCacheBytes p) (TotalBytes p)\<rparr>))
             else Ptr (Some p))"

definition mem_serve_latest :: "mem_module \<Rightarrow> writer \<Rightarrow> writer" where
  \<comment> \<open>\<open>GET /metrics/memory\<close>; no disabled function\<close>
  "mem_serve_latest m =
     serve_latest (mem_base m) (case mem_base m of None \<Rightarrow> None | Some b \<Rightarrow> Base_Latest b) json_of_mem_sample None"

definition mem_serve_history :: "instant \<Rightarrow> mem_module \<Rightarrow> request \<Rightarrow> writer \<Rightarrow> writer" where
  "mem_serve_history now m = serve_history (mem_base m) (mem_History now m) json_of_mem_sample None"

section \<open>The module contract\<close>

interpretation mem: sampled_module mem_base Timestamp mem_collectOnce "\<lambda>e m. mem_sample_of e"
  publish_clock mem_Latest mem_History mem_LastSampleAge
  by unfold_locales
    (simp_all add: mem_collectOnce_def mem_Latest_def mem_History_def mem_LastSampleAge_def)

lemma mem_samples_map: "mem.samples es m = map mem_sample_of es"
  by (induction es arbitrary: m) simp_all

section \<open>Lemmas\<close>

lemma mem_peak_skip:
  "fold (mem_peak_step c) xs p = fold (mem_peak_step c) (filter (\<lambda>s. \<not> before (Timestamp s) c) xs) p"
  by (induction xs arbitrary: p) (auto simp: mem_peak_step_def)

lemma fold_mem_peak:
  assumes "\<forall>s \<in> set ws. \<not> before (Timestamp s) c"
  shows "fold (mem_peak_step c) ws (Some p) =
    Some (p\<lparr>UsedNoCacheBytes := fold (\<lambda>s acc. max acc (UsedNoCacheBytes s)) ws (UsedNoCacheBytes p)\<rparr>)"
  using assms
proof (induction ws arbitrary: p)
  case (Cons s ws)
  have "mem_peak_step c s (Some p) = Some (p\<lparr>UsedNoCacheBytes := max (UsedNoCacheBytes p) (UsedNoCacheBytes s)\<rparr>)"
    using Cons.prems by (simp add: mem_peak_step_def max_def not_less)
  then show ?case using Cons by simp
qed simp

lemma mem_History_filter:
  "mem_base m = Some b \<Longrightarrow>
     mem_History now m d = filter (\<lambda>s. \<not> before (Timestamp s) (now - d)) (Snapshot (buf b))"
  by (simp add: mem_History_def HistoryAny_def HistoryWithin_def time_add_def)

lemma mem_Peak_eq:
  assumes "mem_base m = Some b"
  shows "mem_Peak now d m =
    (if mem_History now m d = [] then Ptr None
     else let w = last (mem_History now m d);
              u = Max (UsedNoCacheBytes ` set (mem_History now m d))
          in Ptr (Some (if 0 < TotalBytes w
               then w\<lparr>UsedNoCacheBytes := u, UsedPercent := percent_of u (TotalBytes w)\<rparr>
               else w\<lparr>UsedNoCacheBytes := u\<rparr>)))"
proof -
  let ?c = "now - d"
  define W where "W = mem_History now m d"
  have W: "W = filter (\<lambda>s. \<not> before (Timestamp s) ?c) (Snapshot (buf b))"
    using assms by (simp add: W_def mem_History_filter)
  have f: "fold (mem_peak_step ?c) (rev (Snapshot (buf b))) None = fold (mem_peak_step ?c) (rev W) None"
    by (subst mem_peak_skip) (simp add: W rev_filter)
  show ?thesis
  proof (cases "W = []")
    case True
    then show ?thesis
      using assms f by (simp add: mem_Peak_def time_add_def flip: W_def)
  next
    case False
    then obtain vs w where vw: "W = vs @ [w]" by (metis append_butlast_last_id)
    have "\<forall>s \<in> set W. \<not> before (Timestamp s) ?c" by (simp add: W)
    then have win: "\<forall>s \<in> set (rev vs). \<not> before (Timestamp s) ?c" "\<not> before (Timestamp w) ?c"
      by (simp_all add: vw)
    have "fold (mem_peak_step ?c) (rev W) None = fold (mem_peak_step ?c) (rev vs) (Some w)"
      using win(2) by (simp add: vw mem_peak_step_def)
    also have "\<dots> = Some (w\<lparr>UsedNoCacheBytes :=
        fold (\<lambda>s acc. max acc (UsedNoCacheBytes s)) (rev vs) (UsedNoCacheBytes w)\<rparr>)"
      by (rule fold_mem_peak [OF win(1)])
    also have "fold (\<lambda>s acc. max acc (UsedNoCacheBytes s)) (rev vs) (UsedNoCacheBytes w)
        = Max (UsedNoCacheBytes ` set W)"
      by (simp add: fold_max_image vw insert_commute)
    finally show ?thesis
      using assms f False by (simp add: mem_Peak_def time_add_def vw flip: W_def)
  qed
qed

interpretation mem_peakable: peakable_module mem_base Timestamp mem_collectOnce "\<lambda>e m. mem_sample_of e"
  publish_clock mem_Latest mem_History mem_LastSampleAge mem_Peak
  by unfold_locales (auto simp: mem_Peak_eq Let_def)

lemma f64_of_u64: "\<exists>b. f64_of_int (uint (x :: u64)) = Fin b \<and> 0 \<le> b"
  using uint_bounded [of x] by (intro f64_of_int_finite) simp_all

lemma percent_of_range:
  assumes "a \<le> b" "0 < b"
  shows "\<exists>q. percent_of a b = Fin q \<and> 0 \<le> q \<and> q \<le> 100"
proof -
  have ab: "uint a \<le> uint b" "1 \<le> uint b"
    using assms by (simp_all add: word_le_def word_less_def)
  obtain B where B: "f64_of_int (uint b) = Fin B" using f64_of_u64 by blast
  then have B1: "1 \<le> B"
    using f64_of_int_mono [of 1 "uint b" B] f64_of_int_exact [of 1] ab(2) by auto
  obtain A where A: "f64_of_int (uint a) = Fin A" "0 \<le> A" "A \<le> B"
    using f64_of_int_mono [OF _ ab(1) B] by auto
  have one: "f64_round 1 = Fin 1" and hundred: "f64_round 100 = Fin 100"
    using f64_of_int_exact [of 1] f64_of_int_exact [of 100] by (simp_all add: f64_of_int_def)
  obtain r where r: "f64_round (A / B) = Fin r" "0 \<le> r" "r \<le> 1"
    using f64_round_mono [OF _ _ one, of "A / B"] A B1 by auto
  obtain q where "f64_round (r * 100) = Fin q" "0 \<le> q" "q \<le> 100"
    using f64_round_mono [OF _ _ hundred, of "r * 100"] r by auto
  then show ?thesis using A B B1 r by (simp add: percent_of_def)
qed

section \<open>Properties\<close>

text \<open>
  The used-without-cache figure is computed without wrap-around: when free memory, buffers and
  cache are known and fit into the total, it is the exact difference of the byte counts; otherwise
  it is the total less the available memory, or else the collector's own used figure; and it never
  exceeds the total when that last figure does not.
\<close>

theorem usedWithoutReclaimable_exact:
  "unat (usedWithoutReclaimable vm) =
     (if 0 < unat (vmFreeBytes vm)
         \<and> unat (vmFreeBytes vm) + unat (vmBuffersBytes vm) + unat (vmCachedBytes vm) \<le> unat (vmTotalBytes vm)
      then unat (vmTotalBytes vm) - (unat (vmFreeBytes vm) + unat (vmBuffersBytes vm) + unat (vmCachedBytes vm))
      else if 0 < unat (vmAvailableBytes vm) \<and> unat (vmAvailableBytes vm) \<le> unat (vmTotalBytes vm)
      then unat (vmTotalBytes vm) - unat (vmAvailableBytes vm)
      else unat (vmUsedBytes vm))
   \<and> (vmUsedBytes vm \<le> vmTotalBytes vm \<longrightarrow> usedWithoutReclaimable vm \<le> vmTotalBytes vm)"
proof -
  have pos: "0 < (x :: u64) \<longleftrightarrow> 0 < unat x" for x by (simp add: unat_gt_0 word_gt_0)
  have le: "(x :: u64) \<le> y \<longleftrightarrow> unat x \<le> unat y" for x y by (simp add: word_le_nat_alt)
  have sub: "unat ((x :: u64) - y) = unat x - unat y" if "unat y \<le> unat x" for x y
    using that by (simp add: unat_sub word_le_nat_alt)
  show ?thesis
    unfolding usedWithoutReclaimable_def Let_def pos le by (auto simp: sub)
qed

theorem usedWithoutReclaimable_exact_witness:
  "unat (usedWithoutReclaimable \<lparr>vmTotalBytes = 1000, vmAvailableBytes = 600, vmFreeBytes = 300,
      vmUsedBytes = 400, vmUsedPercent = Fin 40, vmBuffersBytes = 100, vmCachedBytes = 250,
      vmSharedBytes = 0\<rparr>) = 350
   \<and> usedWithoutReclaimable \<lparr>vmTotalBytes = 1000, vmAvailableBytes = 600, vmFreeBytes = 300,
      vmUsedBytes = 400, vmUsedPercent = Fin 40, vmBuffersBytes = 500, vmCachedBytes = 250,
      vmSharedBytes = 0\<rparr> \<le> 1000"
  using usedWithoutReclaimable_exact [of "\<lparr>vmTotalBytes = 1000, vmAvailableBytes = 600,
      vmFreeBytes = 300, vmUsedBytes = 400, vmUsedPercent = Fin 40, vmBuffersBytes = 100,
      vmCachedBytes = 250, vmSharedBytes = 0\<rparr>"]
    usedWithoutReclaimable_exact [of "\<lparr>vmTotalBytes = 1000, vmAvailableBytes = 600,
      vmFreeBytes = 300, vmUsedBytes = 400, vmUsedPercent = Fin 40, vmBuffersBytes = 500,
      vmCachedBytes = 250, vmSharedBytes = 0\<rparr>"]
  by simp

text \<open>A module of capacity 3 sampled at seconds 1, 2 and 3, the last reading a failure, for the witnesses.\<close>

definition vm_of :: "u64 \<Rightarrow> virtual_memory" where
  "vm_of free = \<lparr>vmTotalBytes = 1000, vmAvailableBytes = 600, vmFreeBytes = free, vmUsedBytes = 400,
     vmUsedPercent = Fin 40, vmBuffersBytes = 100, vmCachedBytes = 200, vmSharedBytes = 0\<rparr>"

definition mem_ok_reading :: "int \<Rightarrow> u64 \<Rightarrow> mem_reading" where
  "mem_ok_reading t free = \<lparr>collected = (vm_of free, zero_sw, None), stamp_clock = t * second,
     publish_clock = t * second\<rparr>"

definition mem_bad_reading :: "int \<Rightarrow> mem_reading" where
  "mem_bad_reading t = \<lparr>collected = (zero_vm, zero_sw, Some ''denied''), stamp_clock = t * second,
     publish_clock = t * second\<rparr>"

lemma stamp_readings [simp]:
  "stamp_clock (mem_ok_reading t free) = t * second" "stamp_clock (mem_bad_reading t) = t * second"
  by (simp_all add: mem_ok_reading_def mem_bad_reading_def)

definition mem_empty :: mem_module where
  "mem_empty = \<lparr>mem_base = Some (projr (NewBase mem_zero_sample second 3)),
     mem_profile_info = captureProfile (vm_of 300, zero_sw, None)\<rparr>"

definition mem_run :: "mem_reading list \<Rightarrow> mem_module" where
  "mem_run es = fold mem_collectOnce es mem_empty"

lemma mem_run_New:
  "mem_NewWithCollector (vm_of 300, zero_sw, None) e second 3 = Inr (mem_run [e])"
  by (simp add: mem_run_def mem_empty_def mem_NewWithCollector_def NewBase_def NewRingBuffer_def)

lemma Timestamp_mem_sample_of [simp]: "Timestamp (mem_sample_of e) = stamp_clock e"
  by (simp add: mem_sample_of_def split: prod.splits option.splits)

lemma mem_run_state:
  assumes "length es \<le> 3" "\<forall>e \<in> set es. now - d \<le> stamp_clock e"
  shows "\<exists>b. mem_base (mem_run es) = Some b \<and> base_inv b \<and> mem_History now (mem_run es) d = map mem_sample_of es"
proof -
  obtain b0 where b0: "NewBase mem_zero_sample second 3 = Inr b0" using NewBase_ok [of 3] by fastforce
  have base: "mem_base mem_empty = Some b0" by (simp add: mem_empty_def b0)
  have "filter (\<lambda>s. now - d \<le> Timestamp s) (map mem_sample_of es) = map mem_sample_of es"
    using assms(2) by (intro filter_True) simp
  then show ?thesis
    using mem.collects_base [OF base NewBase_inv [OF b0], of es]
      mem.history_after [OF base NewBase_inv [OF b0], of now es d] NewBase_fields [OF b0] assms(1)
    by (auto simp: mem_run_def mem_samples_map)
qed

text \<open>
  C17. The peak of a window is the newest sample of that window with its used-without-cache figure
  raised to the window's maximum and the percentage recomputed from the two; with no sample in the
  window the result is a nil pointer inside a non-nil interface value. When the maximum does not
  exceed the newest sample's total, the percentage is a finite number between 0 and 100. The newest
  sample's error is kept too: after a failed collection the peak has an error, a total and a
  percentage of zero, and the used figure of the older samples (\<open>mem_peak_of_failed_sample\<close>).
\<close>

theorem mem_peak_window:
  assumes "mem_base m = Some b" "mem_History now m d = vs @ [w]"
  shows "\<exists>p. mem_Peak now d m = Ptr (Some p)
    \<and> UsedNoCacheBytes p = Max (UsedNoCacheBytes ` set (vs @ [w]))
    \<and> UsedBytes p = UsedBytes w \<and> TotalBytes p = TotalBytes w \<and> Timestamp p = Timestamp w
    \<and> Memory.Error p = Memory.Error w
    \<and> (if 0 < TotalBytes w then UsedPercent p = percent_of (UsedNoCacheBytes p) (TotalBytes w)
       else UsedPercent p = UsedPercent w)
    \<and> (0 < TotalBytes w \<and> UsedNoCacheBytes p \<le> TotalBytes w
        \<longrightarrow> (\<exists>q. UsedPercent p = Fin q \<and> 0 \<le> q \<and> q \<le> 100))"
  using percent_of_range by (auto simp: mem_Peak_eq [OF assms(1)] assms(2) Let_def)

theorem mem_peak_window_witness:
  "\<exists>p. mem_Peak (4 * second) (10 * second) (mem_run [mem_ok_reading 1 300, mem_ok_reading 2 350]) = Ptr (Some p)
     \<and> UsedNoCacheBytes p = 400 \<and> Timestamp p = 2 * second
     \<and> (\<exists>q. UsedPercent p = Fin q \<and> 0 \<le> q \<and> q \<le> 100)"
proof -
  let ?m = "mem_run [mem_ok_reading 1 300, mem_ok_reading 2 350]"
  obtain b where b: "mem_base ?m = Some b" "mem_History (4 * second) ?m (10 * second)
      = [mem_sample_of (mem_ok_reading 1 300)] @ [mem_sample_of (mem_ok_reading 2 350)]"
    using mem_run_state [of "[mem_ok_reading 1 300, mem_ok_reading 2 350]" "4 * second" "10 * second"]
    by auto
  show ?thesis
    using mem_peak_window [OF b]
    by (auto simp: mem_sample_of_def mem_ok_reading_def vm_of_def usedWithoutReclaimable_def Let_def)
qed

text \<open>
  When the newest sample of the window reports a failed collection, the peak carries that
  error together with the used-without-cache maximum of the older samples and a total of zero, so
  an error does not imply zero numeric fields, nor is the figure bounded by the total.
\<close>

theorem mem_peak_of_failed_sample:
  assumes "mem_base m = Some b" "base_inv b" "collected e = (vm, sw, Some err)" "err \<noteq> ''''"
    and "now - d \<le> stamp_clock e" "mem_History now (mem_collectOnce e m) d = vs @ [mem_sample_of e]"
    and "s \<in> set vs" "0 < UsedNoCacheBytes s"
  shows "\<exists>p. mem_Peak now d (mem_collectOnce e m) = Ptr (Some p)
    \<and> Memory.Error p = err \<and> TotalBytes p = 0 \<and> UsedPercent p = Fin 0
    \<and> UsedNoCacheBytes s \<le> UsedNoCacheBytes p \<and> TotalBytes p < UsedNoCacheBytes p"
proof -
  let ?w = "mem_sample_of e"
  have base: "mem_base (mem_collectOnce e m) = Some (Publish (publish_clock e) ?w b)"
    using assms(1) by (simp add: mem_collectOnce_def)
  have w: "Memory.Error ?w = err" "TotalBytes ?w = 0" "UsedPercent ?w = Fin 0"
    using assms(3) by (simp_all add: mem_sample_of_def mem_zero_sample_def)
  have "UsedNoCacheBytes s \<le> Max (UsedNoCacheBytes ` set (vs @ [?w]))"
    using assms(7) by (intro Max_ge) auto
  with assms(8) show ?thesis
    by (auto simp: mem_Peak_eq [OF base] assms(6) w Let_def)
qed

theorem mem_peak_of_failed_sample_witness:
  "\<exists>p. mem_Peak (4 * second) (10 * second)
        (mem_collectOnce (mem_bad_reading 3) (mem_run [mem_ok_reading 1 300, mem_ok_reading 2 350])) = Ptr (Some p)
     \<and> Memory.Error p = ''denied'' \<and> TotalBytes p = 0 \<and> 400 \<le> UsedNoCacheBytes p"
proof -
  let ?es = "[mem_ok_reading 1 300, mem_ok_reading 2 350]"
  obtain b where b: "mem_base (mem_run ?es) = Some b" "base_inv b"
    using mem_run_state [of ?es 0 0] by auto
  have h3: "mem_History (4 * second) (mem_collectOnce (mem_bad_reading 3) (mem_run ?es)) (10 * second)
      = map mem_sample_of ?es @ [mem_sample_of (mem_bad_reading 3)]"
    using mem_run_state [of "?es @ [mem_bad_reading 3]" "4 * second" "10 * second"]
    by (auto simp: mem_run_def)
  show ?thesis
    using mem_peak_of_failed_sample [OF b _ _ _ h3, of zero_vm zero_sw "''denied''"
        "mem_sample_of (mem_ok_reading 1 300)"]
    by (auto simp: mem_bad_reading_def mem_sample_of_def mem_ok_reading_def vm_of_def
        usedWithoutReclaimable_def Let_def)
qed

text \<open>
  The percentage of a peak is recomputed from the used-without-cache figure, not the largest
  percentage of the window: on a host where 40 percent is in use by the collector's measure and
  35 percent without cache, the peak over a window with that one sample reports 35.
\<close>

theorem mem_peak_percent_not_max:
  "map UsedPercent (mem_History (2 * second) (mem_run [mem_ok_reading 1 350]) (10 * second)) = [Fin 40]
   \<and> (\<exists>p. mem_Peak (2 * second) (10 * second) (mem_run [mem_ok_reading 1 350]) = Ptr (Some p)
        \<and> UsedPercent p = Fin 35)"
proof -
  let ?s = "mem_sample_of (mem_ok_reading 1 350)"
  obtain b where b: "mem_base (mem_run [mem_ok_reading 1 350]) = Some b"
    "mem_History (2 * second) (mem_run [mem_ok_reading 1 350]) (10 * second) = [?s]"
    using mem_run_state [of "[mem_ok_reading 1 350]" "2 * second" "10 * second"]
    by auto
  have pct: "percent_of 350 1000 = Fin 35" by code_simp
  have s: "UsedNoCacheBytes ?s = 350" "TotalBytes ?s = 1000" "UsedPercent ?s = Fin 40"
    by (simp_all add: mem_sample_of_def mem_ok_reading_def vm_of_def usedWithoutReclaimable_def Let_def)
  show ?thesis
    unfolding mem_Peak_eq [OF b(1)] b(2) by (simp add: s pct)
qed

end
