(* ===== verification/Gpu.thy ===== *)
theory Gpu
  imports Module_Contract
begin

text \<open>
  The GPU module (\<^verbatim>\<open>internal/gpu\<close>): the stub collector of the default build, the NVML-backed
  collector, and the module around either. What the NVML library answers is an argument (a record
  of results per call); the collector keeps the handles and the indices it enumerated at start-up.
  The resource contract of a collector (initialise once, release at most once) is the locale
  \<open>gpu_collector\<close>, which both collectors interpret.
\<close>

section \<open>Samples and profiles\<close>

record device =
  Index :: int
  UUID :: string
  Name :: string
  UtilizationGPUPercent :: f64
  UtilizationMemPercent :: f64
  MemoryTotalBytes :: u64
  MemoryUsedBytes :: u64
  TemperatureC :: f64
  PowerDrawWatts :: f64
  PowerLimitWatts :: f64
  DeviceError :: string

record gpu_sample =
  Timestamp :: instant
  Devices :: "device list option"
  Error :: string

record profile_device =
  PIndex :: int
  PUUID :: string
  PName :: string
  PMemoryTotalBytes :: u64

record gpu_profile =
  ProfileDisabledReason :: string
  DeviceCount :: int
  ProfileDevices :: "profile_device list option"

definition devices_of :: "gpu_sample \<Rightarrow> device list" where
  \<comment> \<open>what \<open>range s.Devices\<close> runs over: a nil slice has no elements\<close>
  "devices_of s = (case Devices s of None \<Rightarrow> [] | Some ds \<Rightarrow> ds)"

definition gpu_zero_sample :: gpu_sample where
  "gpu_zero_sample = \<lparr>Timestamp = zero_time, Devices = None, Error = ''''\<rparr>"

definition json_of_device :: "device \<Rightarrow> json" where
  "json_of_device d =
     JObject ([(''index'', JInt (Index d)), (''uuid'', JString (UUID d)), (''name'', JString (Name d)),
       (''utilization_gpu_percent'', JFloat (UtilizationGPUPercent d)),
       (''utilization_memory_percent'', JFloat (UtilizationMemPercent d)),
       (''memory_total_bytes'', JInt (uint (MemoryTotalBytes d))),
       (''memory_used_bytes'', JInt (uint (MemoryUsedBytes d))),
       (''temperature_c'', JFloat (TemperatureC d)),
       (''power_draw_watts'', JFloat (PowerDrawWatts d))]
       @ omit_float ''power_limit_watts'' (PowerLimitWatts d)
       @ omit_string ''error'' (DeviceError d))"

definition json_of_gpu_sample :: "gpu_sample \<Rightarrow> json" where
  "json_of_gpu_sample s =
     JObject ([(''timestamp'', JTime (Timestamp s)), (''devices'', jslice json_of_device (Devices s))]
       @ omit_string ''error'' (Error s))"

definition json_of_profile_device :: "profile_device \<Rightarrow> json" where
  "json_of_profile_device d =
     JObject [(''index'', JInt (PIndex d)), (''uuid'', JString (PUUID d)),
       (''name'', JString (PName d)), (''memory_total_bytes'', JInt (uint (PMemoryTotalBytes d)))]"

definition json_of_gpu_profile :: "gpu_profile \<Rightarrow> json" where
  "json_of_gpu_profile p =
     JObject (omit_string ''disabled_reason'' (ProfileDisabledReason p)
       @ [(''device_count'', JInt (DeviceCount p)),
          (''devices'', jslice json_of_profile_device (ProfileDevices p))])"

section \<open>The stub collector\<close>

definition stub_reason :: string where
  "stub_reason = ''nvml support not compiled in (rebuild with -tags nvml)''"

record nop_collector =
  reason :: string

definition NewStubCollector :: nop_collector where
  "NewStubCollector = \<lparr>reason = stub_reason\<rparr>"

definition nop_Init :: "nop_collector \<Rightarrow> bool \<times> string" where
  "nop_Init n = (False, reason n)"

definition nop_Shutdown :: "nop_collector \<Rightarrow> nop_collector" where
  "nop_Shutdown n = n"

definition nop_Profile :: "nop_collector \<Rightarrow> gpu_profile" where
  "nop_Profile n = \<lparr>ProfileDisabledReason = reason n, DeviceCount = 0, ProfileDevices = None\<rparr>"

definition nop_Collect :: "instant \<Rightarrow> nop_collector \<Rightarrow> gpu_sample" where
  "nop_Collect now n = \<lparr>Timestamp = now, Devices = Some [], Error = reason n\<rparr>"

section \<open>The NVML collector\<close>

text \<open>
  What the library answers at initialisation; \<open>Inl\<close> is a return code other than \<open>SUCCESS\<close>, as the
  text \<open>nvml.ErrorString\<close> gives it. The code ignores the return codes of the three metadata calls.
\<close>

record 'd nvml_init =
  init_result :: "string option"
  device_count :: "string + nat"
  handle_by_index :: "nat \<Rightarrow> 'd option"
  get_uuid :: "'d \<Rightarrow> string"
  get_name :: "'d \<Rightarrow> string"
  get_memory_total :: "'d \<Rightarrow> u64"

text \<open>What the library answers for one device at one tick.\<close>

record nvml_reading =
  utilization :: "string + int \<times> int"
  memory_info :: "(u64 \<times> u64) option"
  temperature :: "int option"
  power_usage :: "int option"
  power_limit :: "int option"

datatype nvml_call = CallInit | CallShutdown

record 'd nvml_collector =
  inited :: bool
  devices :: "'d list"
  profiles :: "profile_device list"

definition NewNVMLCollector :: "'d nvml_collector" where
  "NewNVMLCollector = \<lparr>inited = False, devices = [], profiles = []\<rparr>"

definition nvml_enumerate :: "'d nvml_init \<Rightarrow> nat \<Rightarrow> ('d \<times> profile_device) list" where
  \<comment> \<open>the loop of \<open>Init\<close>: a device whose handle cannot be obtained is skipped, its index is not reused\<close>
  "nvml_enumerate a count =
     List.map_filter (\<lambda>i. case handle_by_index a i of
         None \<Rightarrow> None
       | Some dev \<Rightarrow> Some (dev, \<lparr>PIndex = int i, PUUID = get_uuid a dev, PName = get_name a dev,
                                PMemoryTotalBytes = get_memory_total a dev\<rparr>)) [0..<count]"

definition nvml_Init ::
  "'d nvml_init \<Rightarrow> 'd nvml_collector \<Rightarrow> (bool \<times> string) \<times> 'd nvml_collector \<times> nvml_call list" where
  \<comment> \<open>the list is the \<open>nvml.Init\<close> (when it succeeds) and \<open>nvml.Shutdown\<close> calls made\<close>
  "nvml_Init a c =
     (case init_result a of
        Some err \<Rightarrow> ((False, ''nvml init failed: '' @ err), c, [])
      | None \<Rightarrow>
        let c1 = c\<lparr>inited := True\<rparr>
        in case device_count a of
             Inl err \<Rightarrow> ((False, ''nvml device count failed: '' @ err), c1\<lparr>inited := False\<rparr>,
                        [CallInit, CallShutdown])
           | Inr count \<Rightarrow>
             let found = nvml_enumerate a count
             in ((True, ''''), c1\<lparr>devices := map fst found, profiles := map snd found\<rparr>, [CallInit]))"

definition nvml_Shutdown :: "'d nvml_collector \<Rightarrow> 'd nvml_collector \<times> nvml_call list" where
  "nvml_Shutdown c = (if inited c then (c\<lparr>inited := False\<rparr>, [CallShutdown]) else (c, []))"

definition nvml_Profile :: "'d nvml_collector \<Rightarrow> gpu_profile" where
  "nvml_Profile c = \<lparr>ProfileDisabledReason = '''', DeviceCount = int (length (profiles c)),
     ProfileDevices = Some (profiles c)\<rparr>"

definition milliwatts :: "int \<Rightarrow> f64" where
  \<comment> \<open>\<open>float64(power) / 1000.0\<close>\<close>
  "milliwatts p = f64_div (f64_of_int p) (Fin 1000)"

definition nvml_device :: "profile_device \<Rightarrow> nvml_reading \<Rightarrow> device" where
  \<comment> \<open>one iteration of the loop of \<open>Collect\<close>\<close>
  "nvml_device p r =
     (let d0 = \<lparr>Index = PIndex p, UUID = PUUID p, Name = PName p, UtilizationGPUPercent = Fin 0,
                UtilizationMemPercent = Fin 0, MemoryTotalBytes = 0, MemoryUsedBytes = 0,
                TemperatureC = Fin 0, PowerDrawWatts = Fin 0, PowerLimitWatts = Fin 0, DeviceError = ''''\<rparr>;
          d1 = (case utilization r of
                  Inr (g, me) \<Rightarrow> d0\<lparr>UtilizationGPUPercent := f64_of_int g, UtilizationMemPercent := f64_of_int me\<rparr>
                | Inl err \<Rightarrow> d0\<lparr>DeviceError := ''util: '' @ err\<rparr>);
          d2 = (case memory_info r of
                  Some (tot, used) \<Rightarrow> d1\<lparr>MemoryTotalBytes := tot, MemoryUsedBytes := used\<rparr>
                | None \<Rightarrow> d1);
          d3 = (case temperature r of Some t \<Rightarrow> d2\<lparr>TemperatureC := f64_of_int t\<rparr> | None \<Rightarrow> d2);
          d4 = (case power_usage r of Some w \<Rightarrow> d3\<lparr>PowerDrawWatts := milliwatts w\<rparr> | None \<Rightarrow> d3)
      in case power_limit r of Some w \<Rightarrow> d4\<lparr>PowerLimitWatts := milliwatts w\<rparr> | None \<Rightarrow> d4)"

definition nvml_Collect :: "instant \<Rightarrow> ('d \<Rightarrow> nvml_reading) \<Rightarrow> 'd nvml_collector \<Rightarrow> gpu_sample" where
  "nvml_Collect now read c =
     \<lparr>Timestamp = now,
      Devices = Some (map (\<lambda>i. nvml_device (profiles c ! i) (read (devices c ! i))) [0..<length (devices c)]),
      Error = ''''\<rparr>"

section \<open>The module\<close>

record gpu_reading =
  collected :: gpu_sample
  publish_clock :: instant

record gpu_module =
  gpu_base :: "gpu_sample base option"
  enabled :: bool
  gpu_profile_info :: gpu_profile
  shutdown_done :: bool

definition gpu_collectOnce :: "gpu_reading \<Rightarrow> gpu_module \<Rightarrow> gpu_module" where
  "gpu_collectOnce e m = m\<lparr>gpu_base := map_option (Publish (publish_clock e) (collected e)) (gpu_base m)\<rparr>"

definition gpu_NewWithCollector ::
  "bool \<times> string \<Rightarrow> gpu_profile \<Rightarrow> gpu_reading \<Rightarrow> duration \<Rightarrow> int
     \<Rightarrow> go_panic + (gpu_module \<times> log_entry list)" where
  \<comment> \<open>the collector's answers to \<open>Init\<close>, \<open>Profile\<close> and the first \<open>Collect\<close>\<close>
  "gpu_NewWithCollector init prof e intv historyCapacity =
     (case NewBase gpu_zero_sample intv historyCapacity of
        Inl p \<Rightarrow> Inl p
      | Inr b \<Rightarrow>
        let (ok, why) = init
        in if \<not> ok
           then Inr (gpu_collectOnce e \<lparr>gpu_base = Some b, enabled = False,
                  gpu_profile_info = \<lparr>ProfileDisabledReason = why, DeviceCount = 0, ProfileDevices = None\<rparr>,
                  shutdown_done = False\<rparr>, [Warn ''gpu module disabled'' why])
           else Inr (gpu_collectOnce e \<lparr>gpu_base = Some b, enabled = True, gpu_profile_info = prof,
                  shutdown_done = False\<rparr>, []))"

definition gpu_Shutdown :: "gpu_module \<Rightarrow> gpu_module \<times> nat" where
  \<comment> \<open>the number of calls of the collector's \<open>Shutdown\<close>: \<open>sync.Once\<close> lets the first through\<close>
  "gpu_Shutdown m = (if shutdown_done m then (m, 0) else (m\<lparr>shutdown_done := True\<rparr>, 1))"

definition gpu_DisabledReason :: "gpu_module \<Rightarrow> string" where
  "gpu_DisabledReason m = (if enabled m then '''' else ProfileDisabledReason (gpu_profile_info m))"

definition gpu_Start :: "gpu_module \<Rightarrow> bool" where
  \<comment> \<open>whether the sampling goroutine is launched\<close>
  "gpu_Start m = enabled m"

definition gpu_Latest :: "gpu_module \<Rightarrow> gpu_sample any_ptr" where
  "gpu_Latest m = (case gpu_base m of None \<Rightarrow> NilAny | Some b \<Rightarrow> Ptr (Base_Latest b))"

definition gpu_History :: "instant \<Rightarrow> gpu_module \<Rightarrow> duration \<Rightarrow> gpu_sample list" where
  "gpu_History now m d = (case gpu_base m of None \<Rightarrow> []
     | Some b \<Rightarrow> HistoryAny now (buf b) d (\<lambda>s cutoff. \<not> before (Timestamp s) cutoff) id)"

definition gpu_LastSampleAge :: "instant \<Rightarrow> gpu_module \<Rightarrow> duration" where
  "gpu_LastSampleAge now m = (case gpu_base m of None \<Rightarrow> max_int64 | Some b \<Rightarrow> LastSampleAge now b)"

definition gpu_merge :: "device \<Rightarrow> device \<Rightarrow> device" where
  \<comment> \<open>the newer device \<open>src\<close> with the larger of each stress field\<close>
  "gpu_merge src dst =
     (let b0 = src;
          b1 = (if f64_gt (UtilizationGPUPercent src) (UtilizationGPUPercent dst)
                then b0\<lparr>UtilizationGPUPercent := UtilizationGPUPercent src\<rparr>
                else b0\<lparr>UtilizationGPUPercent := UtilizationGPUPercent dst\<rparr>);
          b2 = (if f64_gt (UtilizationMemPercent src) (UtilizationMemPercent dst)
                then b1\<lparr>UtilizationMemPercent := UtilizationMemPercent src\<rparr>
                else b1\<lparr>UtilizationMemPercent := UtilizationMemPercent dst\<rparr>);
          b3 = (if MemoryUsedBytes dst < MemoryUsedBytes src
                then b2\<lparr>MemoryUsedBytes := MemoryUsedBytes src\<rparr>
                else b2\<lparr>MemoryUsedBytes := MemoryUsedBytes dst\<rparr>);
          b4 = (if f64_gt (TemperatureC src) (TemperatureC dst)
                then b3\<lparr>TemperatureC := TemperatureC src\<rparr>
                else b3\<lparr>TemperatureC := TemperatureC dst\<rparr>)
      in if f64_gt (PowerDrawWatts src) (PowerDrawWatts dst)
         then b4\<lparr>PowerDrawWatts := PowerDrawWatts src\<rparr>
         else b4\<lparr>PowerDrawWatts := PowerDrawWatts dst\<rparr>)"

type_synonym peak_acc = "device list \<times> (int \<rightharpoonup> nat)"
  \<comment> \<open>\<open>latest.Devices\<close> and \<open>byIdx\<close>\<close>

definition gpu_peak_device :: "device \<Rightarrow> peak_acc \<Rightarrow> peak_acc" where
  "gpu_peak_device src acc =
     (let (ds, byIdx) = acc
      in case byIdx (Index src) of
           None \<Rightarrow> (ds @ [src], byIdx(Index src \<mapsto> length ds))
         | Some pos \<Rightarrow> (ds[pos := gpu_merge src (ds ! pos)], byIdx))"

definition gpu_peak_step ::
  "instant \<Rightarrow> gpu_sample \<Rightarrow> (instant \<times> peak_acc) option \<Rightarrow> (instant \<times> peak_acc) option" where
  \<comment> \<open>\<open>None\<close> is \<open>seen == false\<close>\<close>
  "gpu_peak_step cutoff s st =
     (if before (Timestamp s) cutoff then st
      else let acc = (case st of None \<Rightarrow> ([], Map.empty) | Some (_, acc) \<Rightarrow> acc)
           in Some (Timestamp s, fold gpu_peak_device (devices_of s) acc))"

definition gpu_Peak :: "instant \<Rightarrow> duration \<Rightarrow> gpu_module \<Rightarrow> gpu_sample any_ptr" where
  "gpu_Peak now d m =
     (case gpu_base m of
        None \<Rightarrow> NilAny
      | Some b \<Rightarrow>
        let cutoff = time_add now (- d);
            snap = Snapshot (buf b)
        in if snap = [] then NilAny
           else case fold (gpu_peak_step cutoff) snap None of
                  None \<Rightarrow> NilAny
                | Some (t, ds, _) \<Rightarrow>
                  Ptr (Some \<lparr>Timestamp = t, Devices = (if ds = [] then None else Some ds), Error = ''''\<rparr>))"

definition gpu_disabled_body :: string where
  "gpu_disabled_body = ''{\"error\":\"gpu_disabled\"}''"

definition gpu_disabled :: "gpu_module \<Rightarrow> int \<times> string" where
  "gpu_disabled m = (if \<not> enabled m then (404, gpu_disabled_body) else (0, ''''))"

definition gpu_serve_latest :: "gpu_module \<Rightarrow> writer \<Rightarrow> writer" where
  \<comment> \<open>\<open>GET /metrics/gpu\<close>\<close>
  "gpu_serve_latest m w =
     serve_latest (gpu_base m) (case gpu_base m of None \<Rightarrow> None | Some b \<Rightarrow> Base_Latest b)
       json_of_gpu_sample (Some (gpu_disabled m)) w"

definition gpu_serve_history :: "instant \<Rightarrow> gpu_module \<Rightarrow> request \<Rightarrow> writer \<Rightarrow> writer" where
  \<comment> \<open>\<open>GET /metrics/gpu/history\<close>\<close>
  "gpu_serve_history now m r w =
     serve_history (gpu_base m) (gpu_History now m) json_of_gpu_sample (Some (gpu_disabled m)) r w"

section \<open>The module contract\<close>

interpretation gpu: sampled_module gpu_base Timestamp gpu_collectOnce "\<lambda>e m. collected e"
  publish_clock gpu_Latest gpu_History gpu_LastSampleAge
  by unfold_locales
    (simp_all add: gpu_collectOnce_def gpu_Latest_def gpu_History_def gpu_LastSampleAge_def)

section \<open>The peak of a window\<close>

definition peak_of :: "device list \<Rightarrow> device" where
  \<comment> \<open>the readings of one device, oldest first, merged\<close>
  "peak_of ds = fold gpu_merge (tl ds) (hd ds)"

definition same_index :: "int \<Rightarrow> device list \<Rightarrow> device list" where
  "same_index i ds = filter (\<lambda>d. Index d = i) ds"

lemma gpu_merge_fields [simp]:
  "Index (gpu_merge s d) = Index s" "UUID (gpu_merge s d) = UUID s" "Name (gpu_merge s d) = Name s"
  "MemoryTotalBytes (gpu_merge s d) = MemoryTotalBytes s"
  "PowerLimitWatts (gpu_merge s d) = PowerLimitWatts s" "DeviceError (gpu_merge s d) = DeviceError s"
  "UtilizationGPUPercent (gpu_merge s d) = f64_max (UtilizationGPUPercent d) (UtilizationGPUPercent s)"
  "UtilizationMemPercent (gpu_merge s d) = f64_max (UtilizationMemPercent d) (UtilizationMemPercent s)"
  "MemoryUsedBytes (gpu_merge s d) = max (MemoryUsedBytes d) (MemoryUsedBytes s)"
  "TemperatureC (gpu_merge s d) = f64_max (TemperatureC d) (TemperatureC s)"
  "PowerDrawWatts (gpu_merge s d) = f64_max (PowerDrawWatts d) (PowerDrawWatts s)"
  by (auto simp: gpu_merge_def Let_def f64_max_def max_def)

lemma fold_merge_stress:
  "UtilizationGPUPercent (fold gpu_merge ds d) = fold (\<lambda>s acc. f64_max acc (UtilizationGPUPercent s)) ds (UtilizationGPUPercent d)"
  "UtilizationMemPercent (fold gpu_merge ds d) = fold (\<lambda>s acc. f64_max acc (UtilizationMemPercent s)) ds (UtilizationMemPercent d)"
  "MemoryUsedBytes (fold gpu_merge ds d) = fold (\<lambda>s acc. max acc (MemoryUsedBytes s)) ds (MemoryUsedBytes d)"
  "TemperatureC (fold gpu_merge ds d) = fold (\<lambda>s acc. f64_max acc (TemperatureC s)) ds (TemperatureC d)"
  "PowerDrawWatts (fold gpu_merge ds d) = fold (\<lambda>s acc. f64_max acc (PowerDrawWatts s)) ds (PowerDrawWatts d)"
  by (induction ds arbitrary: d) simp_all

lemma fold_merge_newest:
  assumes "\<And>s d. f (gpu_merge s d) = f s"
  shows "f (fold gpu_merge ds d) = f (last (d # ds))"
  using assms by (induction ds arbitrary: d) simp_all

lemma peak_of_newest:
  assumes "ds \<noteq> []"
  shows "Index (peak_of ds) = Index (last ds)" "UUID (peak_of ds) = UUID (last ds)"
    "Name (peak_of ds) = Name (last ds)" "MemoryTotalBytes (peak_of ds) = MemoryTotalBytes (last ds)"
    "PowerLimitWatts (peak_of ds) = PowerLimitWatts (last ds)"
    "DeviceError (peak_of ds) = DeviceError (last ds)"
  using assms by (cases ds; simp add: peak_of_def fold_merge_newest)+

lemma peak_of_MemoryUsed:
  "ds \<noteq> [] \<Longrightarrow> MemoryUsedBytes (peak_of ds) = Max (MemoryUsedBytes ` set ds)"
  by (cases ds) (simp_all add: peak_of_def fold_merge_stress fold_max_image)

definition float_max_of :: "(device \<Rightarrow> f64) \<Rightarrow> device list \<Rightarrow> f64 \<Rightarrow> bool" where
  \<comment> \<open>\<open>v\<close> is a value of the field, and no value of the field is larger\<close>
  "float_max_of f ds v \<longleftrightarrow> v \<in> f ` set ds \<and> (\<forall>d \<in> set ds. \<not> f64_gt (f d) v)"

lemma peak_of_floats:
  assumes "ds \<noteq> []"
  shows "float_max_of UtilizationGPUPercent ds (UtilizationGPUPercent (peak_of ds))"
    "float_max_of UtilizationMemPercent ds (UtilizationMemPercent (peak_of ds))"
    "float_max_of TemperatureC ds (TemperatureC (peak_of ds))"
    "float_max_of PowerDrawWatts ds (PowerDrawWatts (peak_of ds))"
proof -
  obtain d es where ds: "ds = d # es" using assms by (cases ds) auto
  have m: "float_max_of f ds (fold (\<lambda>s acc. f64_max acc (f s)) es (f d))" for f
    unfolding float_max_of_def ds using fold_max_over [where f = f and w = d and vs = es] by blast
  show "float_max_of UtilizationGPUPercent ds (UtilizationGPUPercent (peak_of ds))"
    "float_max_of UtilizationMemPercent ds (UtilizationMemPercent (peak_of ds))"
    "float_max_of TemperatureC ds (TemperatureC (peak_of ds))"
    "float_max_of PowerDrawWatts ds (PowerDrawWatts (peak_of ds))"
    using m by (simp_all add: peak_of_def ds fold_merge_stress)
qed

definition peak_acc_ok :: "device list \<Rightarrow> peak_acc \<Rightarrow> bool" where
  \<comment> \<open>what the accumulator holds after the devices \<open>ds\<close>\<close>
  "peak_acc_ok ds acc \<longleftrightarrow>
     (case acc of (qs, byIdx) \<Rightarrow>
        distinct (map Index qs)
        \<and> (\<forall>i pos. byIdx i = Some pos \<longleftrightarrow> pos < length qs \<and> Index (qs ! pos) = i)
        \<and> Index ` set qs = Index ` set ds
        \<and> (\<forall>q \<in> set qs. q = peak_of (same_index (Index q) ds)))"

lemma peak_of_snoc:
  "ds \<noteq> [] \<Longrightarrow> peak_of (ds @ [d]) = gpu_merge d (peak_of ds)"
  by (cases ds) (simp_all add: peak_of_def)

lemma same_index_snoc:
  "same_index i (ds @ [d]) = (if Index d = i then same_index i ds @ [d] else same_index i ds)"
  by (simp add: same_index_def)

lemma same_index_Nil: "same_index i ds = [] \<longleftrightarrow> i \<notin> Index ` set ds"
  by (auto simp: same_index_def filter_empty_conv)

lemma peak_acc_step:
  assumes "peak_acc_ok ds acc"
  shows "peak_acc_ok (ds @ [d]) (gpu_peak_device d acc)"
proof -
  obtain qs byIdx where acc: "acc = (qs, byIdx)" by (cases acc)
  have dist: "distinct (map Index qs)"
    and idx: "\<And>i pos. byIdx i = Some pos \<longleftrightarrow> pos < length qs \<and> Index (qs ! pos) = i"
    and ran: "Index ` set qs = Index ` set ds"
    and val: "\<And>q. q \<in> set qs \<Longrightarrow> q = peak_of (same_index (Index q) ds)"
    using assms unfolding peak_acc_ok_def acc by auto
  show ?thesis
  proof (cases "byIdx (Index d)")
    case None
    then have new: "Index d \<notin> Index ` set qs"
      using idx [of "Index d"] by (auto simp: in_set_conv_nth image_iff) metis
    have "same_index (Index d) ds = []" using new ran by (simp add: same_index_Nil)
    then have "d = peak_of (same_index (Index d) (ds @ [d]))"
      by (simp add: same_index_snoc peak_of_def)
    moreover have "q = peak_of (same_index (Index q) (ds @ [d]))" if "q \<in> set qs" for q
      using val [OF that] new that by (auto simp: same_index_snoc)
    moreover have "(byIdx(Index d \<mapsto> length qs)) i = Some pos \<longleftrightarrow>
        pos < length (qs @ [d]) \<and> Index ((qs @ [d]) ! pos) = i" for i pos
    proof (cases "i = Index d")
      case True
      moreover have "Index (qs ! k) \<noteq> Index d" if "k < length qs" for k
        using new that by (metis image_eqI nth_mem)
      ultimately show ?thesis by (auto simp: nth_append less_Suc_eq)
    next
      case False
      then show ?thesis using idx [of i pos] by (auto simp: nth_append less_Suc_eq)
    qed
    ultimately show ?thesis
      using None dist new ran by (auto simp: peak_acc_ok_def acc gpu_peak_device_def)
  next
    case (Some pos)
    then have pos: "pos < length qs" "Index (qs ! pos) = Index d" using idx by blast+
    let ?q = "gpu_merge d (qs ! pos)"
    have ix: "map Index (qs[pos := ?q]) = map Index qs"
      using pos by (simp add: map_update list_update_same_conv)
    have old: "qs ! pos = peak_of (same_index (Index d) ds)"
      using val [of "qs ! pos"] pos by simp
    have mem: "Index d \<in> Index ` set ds"
      using ran pos by (metis image_eqI nth_mem)
    have merged: "?q = peak_of (same_index (Index d) (ds @ [d]))"
      using mem old same_index_Nil [of "Index d" ds]
      by (simp add: same_index_snoc peak_of_snoc)
    have "q = peak_of (same_index (Index q) (ds @ [d]))" if q: "q \<in> set (qs[pos := ?q])" for q
    proof -
      obtain k where k: "k < length qs" "q = qs[pos := ?q] ! k" using q by (auto simp: in_set_conv_nth)
      show ?thesis
      proof (cases "k = pos")
        case True
        then have "q = ?q" using k pos by simp
        then show ?thesis using merged by (metis gpu_merge_fields(1))
      next
        case False
        then have "Index q \<noteq> Index d"
          using dist pos k nth_eq_iff_index_eq [of "map Index qs" k pos] by auto
        moreover have "q = peak_of (same_index (Index q) ds)" using False k val by simp
        ultimately show ?thesis by (simp add: same_index_snoc)
      qed
    qed
    moreover have "byIdx i = Some p \<longleftrightarrow> p < length (qs[pos := ?q]) \<and> Index (qs[pos := ?q] ! p) = i" for i p
      using idx [of i p] pos by (cases "p = pos") auto
    moreover have "Index ` set (qs[pos := ?q]) = Index ` set (ds @ [d])"
      using arg_cong [OF ix, of set] ran mem by auto
    moreover have step: "gpu_peak_device d acc = (qs[pos := ?q], byIdx)"
      using Some by (simp add: acc gpu_peak_device_def)
    ultimately show ?thesis
      unfolding peak_acc_ok_def step prod.case ix using dist by blast
  qed
qed

lemma peak_acc_fold: "peak_acc_ok ds (fold gpu_peak_device ds ([], Map.empty))"
proof (induction ds rule: rev_induct)
  case Nil
  then show ?case by (simp add: peak_acc_ok_def)
next
  case (snoc d ds)
  then show ?case by (simp add: peak_acc_step)
qed

lemma fold_peak_step_some:
  assumes "\<forall>s \<in> set W. \<not> before (Timestamp s) c"
  shows "fold (gpu_peak_step c) W (Some (t, acc)) =
    Some (last (t # map Timestamp W), fold gpu_peak_device (concat (map devices_of W)) acc)"
  using assms by (induction W arbitrary: t acc) (simp_all add: gpu_peak_step_def)

lemma gpu_peak_skip:
  "fold (gpu_peak_step c) xs p = fold (gpu_peak_step c) (filter (\<lambda>s. \<not> before (Timestamp s) c) xs) p"
  by (induction xs arbitrary: p) (auto simp: gpu_peak_step_def)

lemma gpu_History_filter:
  "gpu_base m = Some b \<Longrightarrow>
     gpu_History now m d = filter (\<lambda>s. \<not> before (Timestamp s) (now - d)) (Snapshot (buf b))"
  by (simp add: gpu_History_def HistoryAny_def HistoryWithin_def time_add_def)

lemma gpu_Peak_eq:
  assumes "gpu_base m = Some b"
  shows "gpu_Peak now d m =
    (let W = gpu_History now m d; ds = fst (fold gpu_peak_device (concat (map devices_of W)) ([], Map.empty))
     in if W = [] then NilAny
        else Ptr (Some \<lparr>Timestamp = Timestamp (last W), Devices = (if ds = [] then None else Some ds), Error = ''''\<rparr>))"
proof -
  let ?c = "now - d"
  define W where "W = gpu_History now m d"
  have W: "W = filter (\<lambda>s. \<not> before (Timestamp s) ?c) (Snapshot (buf b))"
    using assms by (simp add: W_def gpu_History_filter)
  then have win: "\<forall>s \<in> set W. \<not> before (Timestamp s) ?c" by simp
  have f: "fold (gpu_peak_step ?c) (Snapshot (buf b)) None = fold (gpu_peak_step ?c) W None"
    by (subst gpu_peak_skip) (simp add: W)
  show ?thesis
  proof (cases W)
    case Nil
    then show ?thesis using assms f
      by (simp add: gpu_Peak_def time_add_def Let_def flip: W_def)
  next
    case (Cons s ws)
    have "fold (gpu_peak_step ?c) W None =
        fold (gpu_peak_step ?c) ws (Some (Timestamp s, fold gpu_peak_device (devices_of s) ([], Map.empty)))"
      using win by (simp add: Cons gpu_peak_step_def)
    also have "\<dots> = Some (Timestamp (last W), fold gpu_peak_device (concat (map devices_of W)) ([], Map.empty))"
      using win by (subst fold_peak_step_some) (simp_all add: Cons last_map)
    finally show ?thesis using assms f Cons W
      by (auto simp: gpu_Peak_def time_add_def Let_def simp flip: W_def split: prod.splits)
  qed
qed

interpretation gpu_peakable: peakable_module gpu_base Timestamp gpu_collectOnce "\<lambda>e m. collected e"
  publish_clock gpu_Latest gpu_History gpu_LastSampleAge gpu_Peak
  by unfold_locales (auto simp: gpu_Peak_eq Let_def)

section \<open>The resource contract of a collector\<close>

text \<open>
  What \<^verbatim>\<open>collector.go\<close> asks of an implementation: \<open>Init\<close> may acquire the library, \<open>Shutdown\<close>
  releases what is held and is safe to repeat.
\<close>

locale gpu_collector =
  fixes init :: "'c \<Rightarrow> (bool \<times> string) \<times> 'c \<times> nvml_call list"
    and shutdown :: "'c \<Rightarrow> 'c \<times> nvml_call list"
    and held :: "'c \<Rightarrow> bool"
  assumes init_balanced:
      "\<not> held c \<Longrightarrow> init c = ((ok, why), c1, calls) \<Longrightarrow>
         ok = held c1 \<and> (if held c1 then calls = [CallInit] else calls \<in> {[], [CallInit, CallShutdown]})"
    and shutdown_releases: "shutdown c = (c1, calls) \<Longrightarrow>
         \<not> held c1 \<and> calls = (if held c then [CallShutdown] else [])"
begin

primrec shutdowns :: "nat \<Rightarrow> 'c \<Rightarrow> 'c \<times> nvml_call list" where
  "shutdowns 0 c = (c, [])"
| "shutdowns (Suc n) c = (let (c1, k) = shutdown c; (c2, ks) = shutdowns n c1 in (c2, k @ ks))"

lemma shutdowns_released: "\<not> held c \<Longrightarrow> snd (shutdowns n c) = []"
proof (induction n arbitrary: c)
  case (Suc n)
  obtain c1 k where c1: "shutdown c = (c1, k)" by (cases "shutdown c")
  show ?case using Suc.IH [of c1] shutdown_releases [OF c1] Suc.prems by (simp add: c1 case_prod_unfold)
qed simp

lemma shutdowns_calls:
  "snd (shutdowns (Suc n) c) = (if held c then [CallShutdown] else [])"
proof -
  obtain c1 k where c1: "shutdown c = (c1, k)" by (cases "shutdown c")
  have "\<not> held c1" "k = (if held c then [CallShutdown] else [])"
    using shutdown_releases [OF c1] by simp_all
  then show ?thesis using shutdowns_released [of c1 n] by (simp add: c1 case_prod_unfold)
qed

lemma life_cycle:
  assumes "\<not> held c" "init c = ((ok, why), c1, calls)"
  shows "calls @ snd (shutdowns (Suc n) c1) \<in> {[], [CallInit, CallShutdown]}"
  using init_balanced [OF assms] shutdowns_calls [of n c1] by (auto split: if_splits)

end

interpretation nop: gpu_collector "\<lambda>n. (nop_Init n, n, [])" "\<lambda>n. (nop_Shutdown n, [])" "\<lambda>_. False"
  by unfold_locales (auto simp: nop_Init_def nop_Shutdown_def)

interpretation nvml: gpu_collector "nvml_Init a" nvml_Shutdown inited for a
  by unfold_locales
    (auto simp: nvml_Init_def nvml_Shutdown_def Let_def split: option.splits sum.splits if_splits)

lemma nvml_enumerate_sorted: "sorted_wrt (<) (map (PIndex \<circ> snd) (nvml_enumerate a n))"
proof -
  have ix: "map (PIndex \<circ> snd) (nvml_enumerate a n) = map int (filter (\<lambda>i. handle_by_index a i \<noteq> None) [0..<n])"
    by (auto simp: nvml_enumerate_def List.map_filter_def comp_def split: option.splits
        intro!: map_cong filter_cong)
  have "sorted_wrt (<) (filter (\<lambda>i. handle_by_index a i \<noteq> None) [0..<n])"
    by (intro sorted_wrt_filter) (simp add: strict_sorted_iff)
  then show ?thesis unfolding ix by (simp add: sorted_wrt_map)
qed

lemma nvml_enumerate_entries:
  "x \<in> set (nvml_enumerate a n) \<Longrightarrow>
     0 \<le> PIndex (snd x) \<and> nat (PIndex (snd x)) < n
     \<and> handle_by_index a (nat (PIndex (snd x))) = Some (fst x)
     \<and> PUUID (snd x) = get_uuid a (fst x) \<and> PName (snd x) = get_name a (fst x)"
  by (auto simp: nvml_enumerate_def List.map_filter_def split: option.splits)

lemma nvml_device_fields [simp]:
  "Index (nvml_device p r) = PIndex p" "UUID (nvml_device p r) = PUUID p" "Name (nvml_device p r) = PName p"
  by (simp_all add: nvml_device_def Let_def split: option.splits sum.splits)

lemma nvml_Collect_zip:
  assumes "length (profiles c) = length (devices c)"
  shows "devices_of (nvml_Collect now read c) = map (\<lambda>(dev, p). nvml_device p (read dev)) (zip (devices c) (profiles c))"
  using assms by (intro nth_equalityI) (simp_all add: nvml_Collect_def devices_of_def)

section \<open>Properties\<close>

text \<open>
  C4. The GPU peak of a non-empty window has the newest sample's timestamp and one entry for each
  device index that occurs in the window. Of the readings of that index, the entry has the newest
  one's identity, total, limit and error, and the largest value of each of the five stress fields.
\<close>

theorem gpu_peak_window:
  assumes "gpu_base m = Some b" "gpu_History now m d = W" "W \<noteq> []"
  shows "\<exists>p. gpu_Peak now d m = Ptr (Some p) \<and> Timestamp p = Timestamp (last W)
    \<and> distinct (map Index (devices_of p))
    \<and> Index ` set (devices_of p) = Index ` set (concat (map devices_of W))
    \<and> (\<forall>q \<in> set (devices_of p).
         let R = same_index (Index q) (concat (map devices_of W))
         in UUID q = UUID (last R) \<and> Name q = Name (last R)
            \<and> MemoryTotalBytes q = MemoryTotalBytes (last R)
            \<and> PowerLimitWatts q = PowerLimitWatts (last R) \<and> DeviceError q = DeviceError (last R)
            \<and> MemoryUsedBytes q = Max (MemoryUsedBytes ` set R)
            \<and> float_max_of UtilizationGPUPercent R (UtilizationGPUPercent q)
            \<and> float_max_of UtilizationMemPercent R (UtilizationMemPercent q)
            \<and> float_max_of TemperatureC R (TemperatureC q)
            \<and> float_max_of PowerDrawWatts R (PowerDrawWatts q))"
proof -
  let ?ds = "concat (map devices_of W)"
  define qs where "qs = fst (fold gpu_peak_device ?ds ([], Map.empty))"
  let ?p = "\<lparr>Timestamp = Timestamp (last W), Devices = (if qs = [] then None else Some qs), Error = ''''\<rparr>"
  have p: "gpu_Peak now d m = Ptr (Some ?p)"
    using assms by (simp add: gpu_Peak_eq Let_def qs_def)
  have dev: "devices_of ?p = qs" by (simp add: devices_of_def)
  have ok: "distinct (map Index qs)" "Index ` set qs = Index ` set ?ds"
    "\<forall>q \<in> set qs. q = peak_of (same_index (Index q) ?ds)"
    using peak_acc_fold [of ?ds] unfolding peak_acc_ok_def qs_def by (auto split: prod.splits)
  have entry: "let R = same_index (Index q) ?ds
      in UUID q = UUID (last R) \<and> Name q = Name (last R)
            \<and> MemoryTotalBytes q = MemoryTotalBytes (last R)
            \<and> PowerLimitWatts q = PowerLimitWatts (last R) \<and> DeviceError q = DeviceError (last R)
            \<and> MemoryUsedBytes q = Max (MemoryUsedBytes ` set R)
            \<and> float_max_of UtilizationGPUPercent R (UtilizationGPUPercent q)
            \<and> float_max_of UtilizationMemPercent R (UtilizationMemPercent q)
            \<and> float_max_of TemperatureC R (TemperatureC q)
            \<and> float_max_of PowerDrawWatts R (PowerDrawWatts q)" if q: "q \<in> set qs" for q
  proof -
    have ne: "same_index (Index q) ?ds \<noteq> []" using ok(2) q by (auto simp: same_index_Nil)
    have e: "q = peak_of (same_index (Index q) ?ds)" using ok(3) q by blast
    show ?thesis
      using peak_of_newest [OF ne] peak_of_MemoryUsed [OF ne] peak_of_floats [OF ne]
      unfolding e [symmetric] Let_def by simp
  qed
  show ?thesis
    by (rule exI [of _ ?p], unfold p dev, intro conjI ballI)
      (simp_all only: gpu_sample.simps ok(1,2) entry)
qed

text \<open>A module sampled at seconds 1 and 2 on a host with one card, for the witnesses.\<close>

definition card :: "int \<Rightarrow> u64 \<Rightarrow> string \<Rightarrow> device" where
  "card util used err = \<lparr>Index = 3, UUID = ''GPU-3'', Name = ''A'', UtilizationGPUPercent = f64_of_int util,
     UtilizationMemPercent = Fin 0, MemoryTotalBytes = 1000, MemoryUsedBytes = used,
     TemperatureC = Fin 40, PowerDrawWatts = Fin 0, PowerLimitWatts = Fin 0, DeviceError = err\<rparr>"

definition gpu_tick :: "int \<Rightarrow> device \<Rightarrow> gpu_reading" where
  "gpu_tick t dev = \<lparr>collected = \<lparr>Timestamp = t * second, Devices = Some [dev], Error = ''''\<rparr>,
     publish_clock = t * second\<rparr>"

definition gpu_run :: "bool \<Rightarrow> gpu_module" where
  "gpu_run ok = gpu_collectOnce (gpu_tick 2 (card 20 700 ''late''))
     (fst (projr (gpu_NewWithCollector (ok, ''no driver'') \<lparr>ProfileDisabledReason = '''', DeviceCount = 0,
        ProfileDevices = Some []\<rparr> (gpu_tick 1 (card 90 300 '''')) second 3)))"

lemma gpu_run_state:
  "\<exists>b. gpu_base (gpu_run ok) = Some b \<and> enabled (gpu_run ok) = ok
    \<and> gpu_History (3 * second) (gpu_run ok) (10 * second)
        = [collected (gpu_tick 1 (card 90 300 '''')), collected (gpu_tick 2 (card 20 700 ''late''))]"
  by (auto simp: gpu_run_def gpu_NewWithCollector_def NewBase_def NewRingBuffer_def gpu_collectOnce_def
      gpu_History_filter Push_def Snapshot_def Let_def before_def gpu_tick_def numeral_2_eq_2 numeral_3_eq_3)

theorem gpu_peak_window_witness:
  "\<exists>p. gpu_Peak (3 * second) (10 * second) (gpu_run True) = Ptr (Some p)
     \<and> (\<forall>q \<in> set (devices_of p). MemoryUsedBytes q = 700 \<and> DeviceError q = ''late'')
     \<and> Index ` set (devices_of p) = {3}"
proof -
  obtain b where b: "gpu_base (gpu_run True) = Some b"
    and W: "gpu_History (3 * second) (gpu_run True) (10 * second)
        = [collected (gpu_tick 1 (card 90 300 '''')), collected (gpu_tick 2 (card 20 700 ''late''))]"
    using gpu_run_state by blast
  have flat: "concat (map devices_of [collected (gpu_tick 1 (card 90 300 '''')), collected (gpu_tick 2 (card 20 700 ''late''))])
      = [card 90 300 '''', card 20 700 ''late'']"
    by (simp add: gpu_tick_def devices_of_def)
  have ix: "Index (card u k e) = 3" for u k e by (simp add: card_def)
  obtain p where p: "gpu_Peak (3 * second) (10 * second) (gpu_run True) = Ptr (Some p)"
    and img: "Index ` set (devices_of p) = {3}"
    and q: "\<forall>q \<in> set (devices_of p). let R = same_index (Index q) [card 90 300 '''', card 20 700 ''late'']
        in DeviceError q = DeviceError (last R) \<and> MemoryUsedBytes q = Max (MemoryUsedBytes ` set R)"
    using gpu_peak_window [OF b W] unfolding flat by (auto simp: Let_def ix)
  have "MemoryUsedBytes x = 700 \<and> DeviceError x = ''late''" if "x \<in> set (devices_of p)" for x
    using q that img by (auto simp: Let_def same_index_def ix card_def image_iff split: if_splits)
  then show ?thesis using p img by blast
qed

text \<open>
  When the NVML collector initialises, its samples report exactly the devices whose handle was
  obtained, in increasing order of the library's own index, and the same index, identifier and name
  appear in the sample and in the profile: a lower-numbered device that failed to enumerate shifts
  no index. Every other number of an entry is read from the handle of that index.
\<close>

theorem nvml_sample_matches_profile:
  assumes "nvml_Init a NewNVMLCollector = ((True, why), c, calls)" "device_count a = Inr n"
  shows "map Index (devices_of (nvml_Collect now read c)) = map PIndex (profiles c)
    \<and> map UUID (devices_of (nvml_Collect now read c)) = map PUUID (profiles c)
    \<and> map Name (devices_of (nvml_Collect now read c)) = map PName (profiles c)
    \<and> sorted_wrt (<) (map Index (devices_of (nvml_Collect now read c)))
    \<and> (\<forall>d \<in> set (devices_of (nvml_Collect now read c)). 0 \<le> Index d \<and> nat (Index d) < n
         \<and> (\<exists>dev p. handle_by_index a (nat (Index d)) = Some dev \<and> UUID d = get_uuid a dev
              \<and> d = nvml_device p (read dev)))
    \<and> DeviceCount (nvml_Profile c) = int (length (devices_of (nvml_Collect now read c)))"
proof -
  let ?f = "nvml_enumerate a n"
  have c: "devices c = map fst ?f" "profiles c = map snd ?f"
    using assms by (auto simp: nvml_Init_def Let_def split: option.splits)
  then have ds: "devices_of (nvml_Collect now read c) = map (\<lambda>(dev, p). nvml_device p (read dev)) ?f"
    by (simp add: nvml_Collect_zip zip_map_fst_snd)
  show ?thesis
    using nvml_enumerate_sorted [of a n] nvml_enumerate_entries [of _ a n]
    by (auto simp: ds c nvml_Profile_def comp_def case_prod_unfold)
qed

definition two_cards :: "nat nvml_init" where
  "two_cards = \<lparr>init_result = None, device_count = Inr 3,
     handle_by_index = (\<lambda>i. if i = 0 then None else Some i), get_uuid = (\<lambda>_. ''GPU''),
     get_name = (\<lambda>_. ''A''), get_memory_total = (\<lambda>_. 1000)\<rparr>"

theorem nvml_sample_matches_profile_witness:
  "map Index (devices_of (nvml_Collect 0 (\<lambda>_. \<lparr>utilization = Inr (5, 6), memory_info = None,
      temperature = None, power_usage = None, power_limit = None\<rparr>) (fst (snd (nvml_Init two_cards NewNVMLCollector))))) = [1, 2]"
proof -
  obtain c where c: "nvml_Init two_cards NewNVMLCollector = ((True, ''''), c, [CallInit])"
    and p: "map PIndex (profiles c) = [1, 2]"
    by (simp add: nvml_Init_def two_cards_def nvml_enumerate_def List.map_filter_def
        NewNVMLCollector_def Let_def upt_rec)
  show ?thesis
    using nvml_sample_matches_profile [OF c, of 3] p by (simp add: c) (simp add: two_cards_def)
qed

text \<open>
  The NVML library is released exactly once when it was acquired and never otherwise: from the
  constructor on, initialisation (failing or not) followed by any number of shutdowns makes the
  calls init, shutdown or none at all. The module itself lets at most one shutdown through.
\<close>

theorem nvml_released_once:
  "(case nvml_Init a NewNVMLCollector of
      (_, c, calls) \<Rightarrow> calls @ snd (nvml.shutdowns (Suc n) c) \<in> {[], [CallInit, CallShutdown]})
   \<and> (case gpu_Shutdown m of (m1, k) \<Rightarrow> k \<le> 1 \<and> gpu_Shutdown m1 = (m1, 0))"
proof -
  obtain ok why c calls where i: "nvml_Init a NewNVMLCollector = ((ok, why), c, calls)"
    by (metis prod.exhaust)
  have "\<not> inited NewNVMLCollector" by (simp add: NewNVMLCollector_def)
  from nvml.life_cycle [OF this i, of n] show ?thesis
    by (simp add: i gpu_Shutdown_def del: nvml.shutdowns.simps)
qed

text \<open>
  On a host where the collector is unavailable the module is disabled with the collector's
  reason, starts no sampling, and both of its routes answer 404 with the disabled document
  whatever has been sampled.
\<close>

theorem gpu_disabled_routes:
  assumes "gpu_NewWithCollector (False, why) prof e intv cap = Inr (m, logs)" "unsent w"
  shows "gpu_DisabledReason m = why \<and> \<not> gpu_Start m \<and> logs = [Warn ''gpu module disabled'' why]
    \<and> wire_status (gpu_serve_latest (fold gpu_collectOnce es m) w) = Some 404
    \<and> written (gpu_serve_latest (fold gpu_collectOnce es m) w) = [Text (gpu_disabled_body @ [CHR 0x0A])]
    \<and> wire_status (gpu_serve_history now (fold gpu_collectOnce es m) r w) = Some 404
    \<and> written (gpu_serve_history now (fold gpu_collectOnce es m) r w) = [Text (gpu_disabled_body @ [CHR 0x0A])]"
proof -
  have m: "\<not> enabled m" "gpu_DisabledReason m = why" "logs = [Warn ''gpu module disabled'' why]"
    using assms(1) by (auto simp: gpu_NewWithCollector_def gpu_DisabledReason_def gpu_collectOnce_def split: sum.splits)
  have "enabled (fold gpu_collectOnce es m) = enabled m" for es
    by (induction es arbitrary: m) (simp_all add: gpu_collectOnce_def)
  then show ?thesis
    using m assms(2)
    by (simp add: gpu_Start_def gpu_serve_latest_def gpu_serve_history_def serve_latest_def serve_history_def
        callDisabled_def gpu_disabled_def http_Error_wire)
qed

theorem gpu_disabled_routes_witness:
  "\<exists>m logs. gpu_NewWithCollector (False, stub_reason) (nop_Profile NewStubCollector)
      \<lparr>collected = nop_Collect 0 NewStubCollector, publish_clock = 0\<rparr> second 5 = Inr (m, logs)
    \<and> wire_status (gpu_serve_latest m fresh_writer) = Some 404"
proof -
  obtain m logs where m: "gpu_NewWithCollector (False, stub_reason) (nop_Profile NewStubCollector)
      \<lparr>collected = nop_Collect 0 NewStubCollector, publish_clock = 0\<rparr> second 5 = Inr (m, logs)"
    by (simp add: gpu_NewWithCollector_def NewBase_def NewRingBuffer_def)
  then show ?thesis using gpu_disabled_routes [OF m unsent_fresh(1), of "[]"] by auto
qed

end
