(* ===== verification/Disk_Collector.thy ===== *)
theory Disk_Collector
  imports Module_Contract
begin

text \<open>
  The disk-usage collector of \<^verbatim>\<open>internal/storage/collector.go\<close>. A blocking \<open>disk.Usage\<close> call runs in
  a worker goroutine; callers wait for the worker or for their own deadline. The step relation
  \<open>disk_step\<close> interleaves the critical sections of callers and workers (each is one step: it holds
  the mutex or is a single channel operation), for any number of callers and paths. What the
  system call answers is an argument of the worker's step.
\<close>

section \<open>State\<close>

record usage =
  uTotalBytes :: u64
  uUsedBytes :: u64
  uFreeBytes :: u64
  uUsedPercent :: f64
  uFSType :: string

definition zero_usage :: usage where
  "zero_usage = \<lparr>uTotalBytes = 0, uUsedBytes = 0, uFreeBytes = 0, uUsedPercent = Fin 0, uFSType = ''''\<rparr>"

record disk_call =
  call_path :: string
  call_usage :: usage
  call_err :: "string option"
  call_done :: bool
  worker_gone :: bool
  \<comment> \<open>\<open>call_done\<close>: the channel is closed; \<open>worker_gone\<close>: the worker goroutine has returned\<close>

record disk_state =
  inFlight :: "string \<rightharpoonup> nat"
  calls :: "disk_call list"
  \<comment> \<open>a \<open>*diskUsageCall\<close> is an index into \<open>calls\<close>, every call ever allocated\<close>

definition NewGopsutilDiskCollector :: disk_state where
  "NewGopsutilDiskCollector = \<lparr>inFlight = Map.empty, calls = []\<rparr>"

section \<open>Steps\<close>

definition new_call :: "string \<Rightarrow> disk_call" where
  "new_call path = \<lparr>call_path = path, call_usage = zero_usage, call_err = None, call_done = False,
     worker_gone = False\<rparr>"

definition callFor :: "string \<Rightarrow> disk_state \<Rightarrow> nat \<times> disk_state" where
  \<comment> \<open>the caller's critical section; a new call comes with its worker\<close>
  "callFor path st =
     (case inFlight st path of
        Some call \<Rightarrow> (call, st)
      | None \<Rightarrow>
        let call = length (calls st)
        in (call, \<lparr>inFlight = (inFlight st)(path \<mapsto> call), calls = calls st @ [new_call path]\<rparr>))"

definition finish :: "string + usage \<Rightarrow> disk_call \<Rightarrow> disk_call" where
  \<comment> \<open>the worker stores what \<open>diskUsage(path)\<close> returned and closes \<open>done\<close>\<close>
  "finish r c =
     (let c1 = (case r of Inl err \<Rightarrow> c\<lparr>call_err := Some err\<rparr> | Inr u \<Rightarrow> c\<lparr>call_usage := u\<rparr>)
      in c1\<lparr>call_done := True\<rparr>)"

definition worker_remove :: "nat \<Rightarrow> disk_state \<Rightarrow> disk_state" where
  \<comment> \<open>the worker's critical section after the close\<close>
  "worker_remove call st =
     (let path = call_path (calls st ! call);
          fl = (if inFlight st path = Some call then (inFlight st)(path := None) else inFlight st)
      in \<lparr>inFlight = fl, calls = (calls st)[call := (calls st ! call)\<lparr>worker_gone := True\<rparr>]\<rparr>)"

datatype usage_outcome = Expired | Answered usage "string option"

definition Usage_outcomes :: "disk_state \<Rightarrow> nat \<Rightarrow> bool \<Rightarrow> usage_outcome set" where
  \<comment> \<open>what the \<open>select\<close> of a caller holding \<open>call\<close> can pick now; \<open>deadline\<close> says whether its context
     is done. With neither ready it waits.\<close>
  "Usage_outcomes st call deadline =
     (if deadline then {Expired} else {})
     \<union> (if call_done (calls st ! call)
        then {Answered (call_usage (calls st ! call)) (call_err (calls st ! call))} else {})"

datatype disk_event =
    Request string nat
  | Answer nat "string + usage"
  | Remove nat

inductive disk_step :: "disk_state \<Rightarrow> disk_event \<Rightarrow> disk_state \<Rightarrow> bool" where
  request: "callFor path st = (call, st1) \<Longrightarrow> disk_step st (Request path call) st1"
| answer: "call < length (calls st) \<Longrightarrow> \<not> call_done (calls st ! call) \<Longrightarrow>
     disk_step st (Answer call r) (st\<lparr>calls := (calls st)[call := finish r (calls st ! call)]\<rparr>)"
| remove: "call < length (calls st) \<Longrightarrow> call_done (calls st ! call) \<Longrightarrow>
     \<not> worker_gone (calls st ! call) \<Longrightarrow> disk_step st (Remove call) (worker_remove call st)"

inductive_cases disk_step_cases [elim!]:
  "disk_step st (Request path call) st1"
  "disk_step st (Answer call r) st1"
  "disk_step st (Remove call) st1"

inductive disk_run :: "disk_state \<Rightarrow> disk_event list \<Rightarrow> disk_state \<Rightarrow> bool" where
  refl: "disk_run st [] st"
| step: "disk_run st es st1 \<Longrightarrow> disk_step st1 e st2 \<Longrightarrow> disk_run st (es @ [e]) st2"

section \<open>Invariant\<close>

text \<open>
  The table of calls in flight holds exactly the calls whose worker has not returned, and a worker
  returns only after it has closed its channel.
\<close>

definition flight_inv :: "disk_state \<Rightarrow> bool" where
  "flight_inv st \<longleftrightarrow>
     (\<forall>path call. inFlight st path = Some call \<longleftrightarrow>
        call < length (calls st) \<and> call_path (calls st ! call) = path \<and> \<not> worker_gone (calls st ! call))
     \<and> (\<forall>c \<in> set (calls st). worker_gone c \<longrightarrow> call_done c)"

lemma finish_fields [simp]:
  "call_path (finish r c) = call_path c" "worker_gone (finish r c) = worker_gone c" "call_done (finish r c)"
  by (simp_all add: finish_def Let_def split: sum.splits)

lemma flight_inv_init: "flight_inv NewGopsutilDiskCollector"
  by (simp add: flight_inv_def NewGopsutilDiskCollector_def)

lemma new_call_fields [simp]:
  "call_path (new_call p) = p" "\<not> worker_gone (new_call p)" "\<not> call_done (new_call p)"
  by (simp_all add: new_call_def)

lemma callFor_inv [inv_intros]:
  assumes "flight_inv st" "callFor path st = (call, st1)"
  shows "flight_inv st1"
proof (cases "inFlight st path")
  case (Some c)
  then show ?thesis using assms by (simp add: callFor_def)
next
  case None
  have old: "inFlight st p = Some c \<longleftrightarrow>
      c < length (calls st) \<and> call_path (calls st ! c) = p \<and> \<not> worker_gone (calls st ! c)" for p c
    using assms(1) by (simp add: flight_inv_def)
  have st1: "st1 = \<lparr>inFlight = (inFlight st)(path \<mapsto> length (calls st)), calls = calls st @ [new_call path]\<rparr>"
    using assms(2) None by (auto simp: callFor_def Let_def)
  have free: "\<not> (c < length (calls st) \<and> call_path (calls st ! c) = path \<and> \<not> worker_gone (calls st ! c))" for c
    using None old [of path c] by simp
  have "inFlight st1 p = Some c \<longleftrightarrow>
      c < length (calls st1) \<and> call_path (calls st1 ! c) = p \<and> \<not> worker_gone (calls st1 ! c)" for p c
    using old [of p c] free [of c] by (auto simp: st1 nth_append less_Suc_eq)
  then show ?thesis using assms(1) by (auto simp: flight_inv_def st1)
qed

lemma disk_step_inv [inv_intros]:
  assumes "flight_inv st" "disk_step st e st1"
  shows "flight_inv st1"
proof -
  have old: "inFlight st p = Some c \<longleftrightarrow>
      c < length (calls st) \<and> call_path (calls st ! c) = p \<and> \<not> worker_gone (calls st ! c)" for p c
    using assms(1) by (simp add: flight_inv_def)
  have gone: "worker_gone c \<Longrightarrow> call_done c" if "c \<in> set (calls st)" for c
    using assms(1) that by (simp add: flight_inv_def)
  show ?thesis
    using assms(2)
  proof cases
    case (request path call)
    then show ?thesis using assms(1) by (blast intro: callFor_inv)
  next
    case (answer call r)
    have "inFlight st p = Some c \<longleftrightarrow> c < length (calls st1)
        \<and> call_path (calls st1 ! c) = p \<and> \<not> worker_gone (calls st1 ! c)" for p c
      using old [of p c] answer by (cases "c = call") auto
    moreover have "\<forall>c \<in> set (calls st1). worker_gone c \<longrightarrow> call_done c"
      using gone answer by (auto dest!: set_update_subset_insert [THEN subsetD])
    ultimately show ?thesis using answer by (simp add: flight_inv_def)
  next
    case (remove call)
    let ?c = "calls st ! call"
    have mine: "inFlight st (call_path ?c) = Some call" using old remove by simp
    have st1: "st1 = \<lparr>inFlight = (inFlight st)(call_path ?c := None),
        calls = (calls st)[call := ?c\<lparr>worker_gone := True\<rparr>]\<rparr>"
      using remove mine by (simp add: worker_remove_def Let_def)
    have "inFlight st1 p = Some c \<longleftrightarrow> c < length (calls st1)
        \<and> call_path (calls st1 ! c) = p \<and> \<not> worker_gone (calls st1 ! c)" for p c
      using old [of p c] mine remove(3-5) by (cases "c = call") (auto simp: st1)
    moreover have "\<forall>c \<in> set (calls st1). worker_gone c \<longrightarrow> call_done c"
      using gone remove(3-5) by (auto simp: st1 dest!: set_update_subset_insert [THEN subsetD])
    ultimately show ?thesis by (simp add: flight_inv_def)
  qed
qed

lemma disk_run_two: "disk_step a e b \<Longrightarrow> disk_step b f c \<Longrightarrow> disk_run a [e, f] c"
  using disk_run.step [OF disk_run.step [OF disk_run.refl]] by fastforce

lemma disk_run_inv:
  "disk_run st es st1 \<Longrightarrow> flight_inv st \<Longrightarrow> flight_inv st1"
  by (induction rule: disk_run.induct) (auto intro: inv_intros)

section \<open>Runs\<close>

definition requested :: "disk_event list \<Rightarrow> string set" where
  "requested es = {path. \<exists>call. Request path call \<in> set es}"

definition live_workers :: "disk_state \<Rightarrow> nat set" where
  "live_workers st = {call. call < length (calls st) \<and> \<not> worker_gone (calls st ! call)}"

definition outcome_of :: "string + usage \<Rightarrow> usage_outcome" where
  \<comment> \<open>what a caller is told of the answer \<open>r\<close>\<close>
  "outcome_of r = (case r of Inl err \<Rightarrow> Answered zero_usage (Some err) | Inr u \<Rightarrow> Answered u None)"

text \<open>How the calls of a state come from the events of the run that led to it.\<close>

definition calls_explained :: "disk_event list \<Rightarrow> disk_state \<Rightarrow> bool" where
  "calls_explained es st \<longleftrightarrow>
     (\<forall>path call. Request path call \<in> set es \<longrightarrow> call < length (calls st) \<and> call_path (calls st ! call) = path)
     \<and> (\<forall>call < length (calls st). call_path (calls st ! call) \<in> requested es)
     \<and> (\<forall>call r. Answer call r \<in> set es \<longrightarrow> call < length (calls st) \<and> call_done (calls st ! call))
     \<and> (\<forall>call < length (calls st). call_done (calls st ! call) \<longrightarrow>
          (\<exists>r. Answer call r \<in> set es
             \<and> Answered (call_usage (calls st ! call)) (call_err (calls st ! call)) = outcome_of r))
     \<and> (\<forall>call < length (calls st). \<not> call_done (calls st ! call) \<longrightarrow>
          call_usage (calls st ! call) = zero_usage \<and> call_err (calls st ! call) = None)"

lemma requested_snoc [simp]:
  "requested (es @ [Request path call]) = insert path (requested es)"
  "requested (es @ [Answer call r]) = requested es"
  "requested (es @ [Remove call]) = requested es"
  by (auto simp: requested_def)

lemma new_call_result [simp]: "call_usage (new_call p) = zero_usage" "call_err (new_call p) = None"
  by (simp_all add: new_call_def)

lemma finish_result:
  "call_usage c = zero_usage \<Longrightarrow> call_err c = None \<Longrightarrow>
     Answered (call_usage (finish r c)) (call_err (finish r c)) = outcome_of r"
  by (simp add: finish_def outcome_of_def Let_def split: sum.splits)

lemma worker_remove_calls:
  "calls (worker_remove call st) = (calls st)[call := (calls st ! call)\<lparr>worker_gone := True\<rparr>]"
  by (simp add: worker_remove_def Let_def)

lemma explained_request:
  assumes "flight_inv st" "calls_explained es st" "callFor path st = (call, st1)"
  shows "calls_explained (es @ [Request path call]) st1"
proof (cases "inFlight st path")
  case (Some c)
  then have "call = c" "st1 = st" using assms(3) by (simp_all add: callFor_def)
  moreover have "c < length (calls st) \<and> call_path (calls st ! c) = path"
    using Some assms(1) by (simp add: flight_inv_def)
  ultimately show ?thesis using assms(2) by (auto simp: calls_explained_def)
next
  case None
  then have c: "call = length (calls st)" "calls st1 = calls st @ [new_call path]"
    using assms(3) by (auto simp: callFor_def Let_def)
  show ?thesis using assms(2) unfolding calls_explained_def c
    by (auto simp: nth_append less_Suc_eq)
qed

lemma explained_answer:
  assumes "calls_explained es st" "call < length (calls st)" "\<not> call_done (calls st ! call)"
  shows "calls_explained (es @ [Answer call r]) (st\<lparr>calls := (calls st)[call := finish r (calls st ! call)]\<rparr>)"
proof -
  have "call_usage (calls st ! call) = zero_usage" "call_err (calls st ! call) = None"
    using assms by (auto simp: calls_explained_def)
  then have "Answered (call_usage (finish r (calls st ! call))) (call_err (finish r (calls st ! call))) = outcome_of r"
    by (rule finish_result)
  then show ?thesis
    using assms by (auto simp: calls_explained_def nth_list_update)
qed

lemma explained_remove:
  assumes "calls_explained es st" "call < length (calls st)"
  shows "calls_explained (es @ [Remove call]) (worker_remove call st)"
  using assms by (auto simp: calls_explained_def worker_remove_calls nth_list_update)

lemma disk_run_explained:
  assumes "disk_run NewGopsutilDiskCollector es st"
  shows "flight_inv st \<and> calls_explained es st"
proof -
  have "disk_run s es st \<Longrightarrow> s = NewGopsutilDiskCollector \<Longrightarrow> flight_inv st \<and> calls_explained es st" for s
  proof (induction rule: disk_run.induct)
    case (refl st)
    then show ?case
      using flight_inv_init by (simp add: calls_explained_def NewGopsutilDiskCollector_def)
  next
    case (step s es st1 e st2)
    then have i: "flight_inv st1" "calls_explained es st1" by blast+
    have "calls_explained (es @ [e]) st2"
      using step.hyps(2)
    proof cases
      case (request path call)
      then show ?thesis using i explained_request by blast
    next
      case (answer call r)
      then show ?thesis using i explained_answer by blast
    next
      case (remove call)
      then show ?thesis using i explained_remove by blast
    qed
    then show ?case using i step.hyps(2) by (blast intro: inv_intros)
  qed
  then show ?thesis using assms by blast
qed

lemma live_workers_bounded:
  assumes "disk_run NewGopsutilDiskCollector es st"
  shows "inj_on (\<lambda>call. call_path (calls st ! call)) (live_workers st)
    \<and> card (live_workers st) \<le> card (requested es)"
proof -
  have inv: "flight_inv st" and ex: "calls_explained es st" using disk_run_explained [OF assms] by auto
  have live: "inFlight st (call_path (calls st ! c)) = Some c" if "c \<in> live_workers st" for c
    using inv that by (simp add: flight_inv_def live_workers_def)
  have inj: "inj_on (\<lambda>call. call_path (calls st ! call)) (live_workers st)"
    using live by (intro inj_onI) (metis option.inject)
  have sub: "(\<lambda>call. call_path (calls st ! call)) ` live_workers st \<subseteq> requested es"
    using ex by (auto simp: calls_explained_def live_workers_def)
  have "requested es = (\<lambda>e. case e of Request p _ \<Rightarrow> p | _ \<Rightarrow> undefined) ` {e \<in> set es. \<exists>p c. e = Request p c}"
    by (force simp: requested_def image_iff)
  then have fin: "finite (requested es)" by simp
  show ?thesis using inj card_inj_on_le [OF inj sub fin] by blast
qed

section \<open>Properties\<close>

text \<open>
  However callers and workers interleave, a path never has two live workers, so a mount that
  hangs holds one goroutine however often it is polled: the live workers are at most as many as
  the different paths ever requested.
\<close>

theorem disk_one_worker_per_path:
  assumes "disk_run NewGopsutilDiskCollector es st"
  shows "inj_on (\<lambda>call. call_path (calls st ! call)) (live_workers st)
    \<and> card (live_workers st) \<le> card (requested es)"
  using live_workers_bounded [OF assms] .

definition hung_polls :: "disk_event list" where
  "hung_polls = [Request ''/mnt/nfs'' 0, Request ''/mnt/nfs'' 0, Request ''/'' 1, Request ''/mnt/nfs'' 0]"

definition hung_state :: disk_state where
  "hung_state = \<lparr>inFlight = [''/mnt/nfs'' \<mapsto> 0, ''/'' \<mapsto> 1], calls = [new_call ''/mnt/nfs'', new_call ''/'']\<rparr>"

lemma hung_run: "disk_run NewGopsutilDiskCollector hung_polls hung_state"
proof -
  let ?a = "\<lparr>inFlight = [''/mnt/nfs'' \<mapsto> 0], calls = [new_call ''/mnt/nfs'']\<rparr>"
  have s: "disk_step NewGopsutilDiskCollector (Request ''/mnt/nfs'' 0) ?a"
    "disk_step ?a (Request ''/mnt/nfs'' 0) ?a" "disk_step ?a (Request ''/'' 1) hung_state"
    "disk_step hung_state (Request ''/mnt/nfs'' 0) hung_state"
    by (auto intro!: request simp: callFor_def NewGopsutilDiskCollector_def hung_state_def)
  show ?thesis
    unfolding hung_polls_def
    using disk_run.step [OF disk_run.step [OF disk_run.step [OF disk_run.step [OF refl s(1)] s(2)] s(3)] s(4)]
    by simp
qed

theorem disk_one_worker_per_path_witness:
  "card (live_workers hung_state) \<le> card {''/mnt/nfs'', ''/''}"
proof -
  have "requested hung_polls = {''/mnt/nfs'', ''/''}" by (auto simp: requested_def hung_polls_def)
  then show ?thesis using disk_one_worker_per_path [OF hung_run] by simp
qed

text \<open>
  A caller is told either that its own deadline passed or what the system call answered for the
  path it asked for, completely stored before it is announced; an answer is given once per call and
  is what every caller that shares the call receives.
\<close>

theorem disk_caller_outcome:
  assumes "disk_run NewGopsutilDiskCollector es st" "Request path call \<in> set es"
  shows "call_path (calls st ! call) = path
    \<and> (\<forall>x \<in> Usage_outcomes st call deadline.
         x = Expired \<and> deadline \<or> (\<exists>r. Answer call r \<in> set es \<and> x = outcome_of r))
    \<and> (call_done (calls st ! call) \<longrightarrow> (\<nexists>r st1. disk_step st (Answer call r) st1))"
proof -
  have ex: "calls_explained es st" using disk_run_explained [OF assms(1)] by blast
  have c: "call < length (calls st)" "call_path (calls st ! call) = path"
    using ex assms(2) by (simp_all add: calls_explained_def)
  have "\<exists>r. Answer call r \<in> set es
      \<and> Answered (call_usage (calls st ! call)) (call_err (calls st ! call)) = outcome_of r"
    if "call_done (calls st ! call)"
    using ex c(1) that unfolding calls_explained_def by blast
  then show ?thesis
    using c(2) by (intro conjI) (simp, auto simp: Usage_outcomes_def)
qed

theorem disk_caller_outcome_witness:
  "Usage_outcomes (hung_state\<lparr>calls := (calls hung_state)[1 := finish (Inl ''io'') (new_call ''/'')]\<rparr>) 1 False
     = {Answered zero_usage (Some ''io'')}"
proof -
  let ?st = "hung_state\<lparr>calls := (calls hung_state)[1 := finish (Inl ''io'') (new_call ''/'')]\<rparr>"
  have "disk_step hung_state (Answer 1 (Inl ''io'')) ?st"
    using answer [of 1 hung_state "Inl ''io''"] by (simp add: hung_state_def)
  from disk_run.step [OF hung_run this]
  have run: "disk_run NewGopsutilDiskCollector (hung_polls @ [Answer 1 (Inl ''io'')]) ?st" .
  have "x = Answered zero_usage (Some ''io'')" if "x \<in> Usage_outcomes ?st 1 False" for x
    using disk_caller_outcome [OF run, of "''/''" 1 False] that
    by (auto simp: hung_polls_def outcome_of_def)
  moreover have "Usage_outcomes ?st 1 False \<noteq> {}"
    by (simp add: Usage_outcomes_def hung_state_def)
  ultimately show ?thesis by blast
qed

text \<open>
  C38. While a call is unanswered every further request for its path joins it and changes nothing;
  once its worker has answered and left, the next request starts a fresh call, so a mount that
  recovers is polled again.
\<close>

theorem disk_join_and_recover:
  assumes "flight_inv st" "inFlight st path = Some call"
  shows "callFor path st = (call, st)
    \<and> (\<not> call_done (calls st ! call) \<longrightarrow>
        (\<exists>st1. disk_run st [Answer call r, Remove call] st1
           \<and> fst (callFor path st1) = length (calls st)
           \<and> calls (snd (callFor path st1)) = calls st1 @ [new_call path]))"
proof -
  have c: "call < length (calls st)" "call_path (calls st ! call) = path" "\<not> worker_gone (calls st ! call)"
    using assms by (auto simp: flight_inv_def)
  let ?s = "st\<lparr>calls := (calls st)[call := finish r (calls st ! call)]\<rparr>"
  have "\<exists>st1. disk_run st [Answer call r, Remove call] st1 \<and> inFlight st1 path = None
      \<and> length (calls st1) = length (calls st)" if nd: "\<not> call_done (calls st ! call)"
  proof (intro exI conjI)
    have "disk_step st (Answer call r) ?s" using c nd by (intro answer)
    moreover have "disk_step ?s (Remove call) (worker_remove call ?s)" using c by (intro remove) simp_all
    ultimately show "disk_run st [Answer call r, Remove call] (worker_remove call ?s)"
      by (rule disk_run_two)
    show "inFlight (worker_remove call ?s) path = None"
      using c assms(2) by (simp add: worker_remove_def Let_def)
    show "length (calls (worker_remove call ?s)) = length (calls st)"
      by (simp add: worker_remove_calls)
  qed
  then obtain st1 where "disk_run st [Answer call r, Remove call] st1" "inFlight st1 path = None"
      "length (calls st1) = length (calls st)" if "\<not> call_done (calls st ! call)"
    by blast
  then show ?thesis using assms(2) by (auto simp: callFor_def Let_def intro!: exI [of _ st1])
qed

theorem disk_join_and_recover_witness:
  "callFor ''/mnt/nfs'' hung_state = (0, hung_state)
   \<and> (\<exists>st1. disk_run hung_state [Answer 0 (Inl ''stale handle''), Remove 0] st1
        \<and> fst (callFor ''/mnt/nfs'' st1) = 2)"
proof -
  have "flight_inv hung_state" using hung_run disk_run_explained by blast
  moreover have "inFlight hung_state ''/mnt/nfs'' = Some 0" by (simp add: hung_state_def)
  ultimately show ?thesis
    using disk_join_and_recover [of hung_state "''/mnt/nfs''" 0 "Inl ''stale handle''"]
    by (auto simp: hung_state_def)
qed

end
