(* ===== verification/Storage.thy ===== *)
theory Storage
  imports Disk_Collector
begin

text \<open>
  The storage module (\<^verbatim>\<open>internal/storage\<close>): the check of the configured mount points against the
  system mount table, the constructor with its fatal errors, and the sampling step that polls every
  configured mount. The mount table and the collector's answers are arguments.
\<close>

section \<open>Data\<close>

record mount_entry =
  eDevice :: string
  ePath :: string
  eFSType :: string
  eOptions :: string

record mount_config =
  cPath :: string
  cAlias :: string

record mount_point =
  mpPath :: string
  mpAlias :: string
  mpDevice :: string
  mpFSType :: string

record disk =
  dPath :: string
  dAlias :: string
  dTotalBytes :: u64
  dUsedBytes :: u64
  dFreeBytes :: u64
  dUsedPercent :: f64
  dFSType :: string
  dError :: string

record storage_sample =
  Timestamp :: instant
  Disks :: "disk list option"
  Error :: string

definition storage_zero_sample :: storage_sample where
  "storage_zero_sample = \<lparr>Timestamp = zero_time, Disks = None, Error = ''''\<rparr>"

definition json_of_disk :: "disk \<Rightarrow> json" where
  "json_of_disk d =
     JObject ([(''path'', JString (dPath d)), (''alias'', JString (dAlias d)),
       (''total_bytes'', JInt (uint (dTotalBytes d))), (''used_bytes'', JInt (uint (dUsedBytes d))),
       (''free_bytes'', JInt (uint (dFreeBytes d))), (''used_percent'', JFloat (dUsedPercent d)),
       (''fs_type'', JString (dFSType d))] @ omit_string ''error'' (dError d))"

definition json_of_storage_sample :: "storage_sample \<Rightarrow> json" where
  "json_of_storage_sample s =
     JObject ([(''timestamp'', JTime (Timestamp s)), (''disks'', jslice json_of_disk (Disks s))]
       @ omit_string ''error'' (Error s))"

definition json_of_mount_point :: "mount_point \<Rightarrow> json" where
  "json_of_mount_point p =
     JObject [(''path'', JString (mpPath p)), (''alias'', JString (mpAlias p)),
       (''device'', JString (mpDevice p)), (''fstype'', JString (mpFSType p))]"

text \<open>The errors of the constructor, with the data their messages are formatted from.\<close>

datatype storage_error =
    NoMountPoints
  | ReadMountTable string
  | NotMounted string

section \<open>The mount table\<close>

record partition_stat =
  pDevice :: string
  pMountpoint :: string
  pFstype :: string
  pOpts :: "string list"

definition readMountTable :: "string + partition_stat list \<Rightarrow> string + mount_entry list" where
  \<comment> \<open>the argument is the result of \<open>disk.Partitions(true)\<close>\<close>
  "readMountTable parts =
     (case parts of
        Inl err \<Rightarrow> Inl (''list partitions: '' @ err)
      | Inr ps \<Rightarrow> Inr (map (\<lambda>p. \<lparr>eDevice = pDevice p, ePath = pMountpoint p, eFSType = pFstype p,
                                  eOptions = join '','' (pOpts p)\<rparr>) ps))"

primrec resolve_mounts ::
  "mount_config list \<Rightarrow> (string \<rightharpoonup> mount_entry) \<Rightarrow> mount_point list \<Rightarrow> storage_error + mount_point list" where
  "resolve_mounts [] byPath acc = Inr acc"
| "resolve_mounts (mp # cfg) byPath acc =
     (case byPath (cPath mp) of
        None \<Rightarrow> Inl (NotMounted (cPath mp))
      | Some entry \<Rightarrow>
        resolve_mounts cfg byPath (acc @ [\<lparr>mpPath = cPath mp, mpAlias = cAlias mp,
          mpDevice = eDevice entry, mpFSType = eFSType entry\<rparr>]))"

definition validateMountPoints ::
  "mount_config list \<Rightarrow> mount_entry list \<Rightarrow> storage_error + mount_point list" where
  "validateMountPoints cfg table =
     (let byPath = fold (\<lambda>m f. f(ePath m \<mapsto> m)) table Map.empty
      in resolve_mounts cfg byPath [])"

section \<open>The module\<close>

record storage_module =
  mounts :: "mount_point list"
  storage_base :: "storage_sample base option"

record storage_reading =
  answers :: "nat \<Rightarrow> usage \<times> string option"
  stamp_clock :: instant
  publish_clock :: instant
  \<comment> \<open>\<open>answers i\<close> is what the collector returns for the \<open>i\<close>-th mount of this tick\<close>

definition disk_of :: "mount_point \<Rightarrow> usage \<times> string option \<Rightarrow> disk" where
  \<comment> \<open>one iteration of the loop of \<open>collectOnce\<close>\<close>
  "disk_of mp = (\<lambda>(usage, err).
     let d = \<lparr>dPath = mpPath mp, dAlias = mpAlias mp, dTotalBytes = 0, dUsedBytes = 0, dFreeBytes = 0,
              dUsedPercent = Fin 0, dFSType = uFSType usage, dError = ''''\<rparr>
     in case err of
          Some e \<Rightarrow> d\<lparr>dError := e\<rparr>
        | None \<Rightarrow>
          let d1 = (if uFSType usage \<noteq> '''' then d\<lparr>dFSType := uFSType usage\<rparr> else d\<lparr>dFSType := mpFSType mp\<rparr>)
          in d1\<lparr>dTotalBytes := uTotalBytes usage, dUsedBytes := uUsedBytes usage,
                dFreeBytes := uFreeBytes usage, dUsedPercent := uUsedPercent usage\<rparr>)"

definition storage_sample_of :: "storage_reading \<Rightarrow> storage_module \<Rightarrow> storage_sample" where
  "storage_sample_of e m =
     (let ms = mounts m;
          disks = map (\<lambda>i. disk_of (ms ! i) (answers e i)) [0..<length ms];
          topLevelErr =
            (if 0 < length disks
             then if list_all (\<lambda>d. dError d \<noteq> '''') disks then ''all mount points failed'' else ''''
             else '''')
      in \<lparr>Timestamp = stamp_clock e, Disks = Some disks, Error = topLevelErr\<rparr>)"

definition storage_collectOnce :: "storage_reading \<Rightarrow> storage_module \<Rightarrow> storage_module" where
  "storage_collectOnce e m =
     m\<lparr>storage_base := map_option (Publish (publish_clock e) (storage_sample_of e m)) (storage_base m)\<rparr>"

datatype 'a constructed = Panicked go_panic | Failed storage_error | Built 'a

definition storage_NewWithDeps ::
  "mount_config list \<Rightarrow> duration \<Rightarrow> int \<Rightarrow> string + mount_entry list \<Rightarrow> storage_reading
     \<Rightarrow> storage_module constructed" where
  \<comment> \<open>\<open>table\<close> is what \<open>deps.Table()\<close> returns\<close>
  "storage_NewWithDeps ms intv historyCapacity table e =
     (if length ms = 0 then Failed NoMountPoints
      else case table of
             Inl err \<Rightarrow> Failed (ReadMountTable err)
           | Inr rawTable \<Rightarrow>
             (case validateMountPoints ms rawTable of
                Inl err \<Rightarrow> Failed err
              | Inr resolved \<Rightarrow>
                (case NewBase storage_zero_sample intv historyCapacity of
                   Inl p \<Rightarrow> Panicked p
                 | Inr b \<Rightarrow> Built (storage_collectOnce e \<lparr>mounts = resolved, storage_base = Some b\<rparr>))))"

definition storage_New ::
  "mount_config list \<Rightarrow> duration \<Rightarrow> int \<Rightarrow> string + partition_stat list \<Rightarrow> storage_reading
     \<Rightarrow> storage_module constructed" where
  "storage_New ms intv historyCapacity parts e =
     storage_NewWithDeps ms intv historyCapacity (readMountTable parts) e"

definition storage_profile :: "storage_module \<Rightarrow> mount_point list" where
  \<comment> \<open>a fresh copy of the resolved mounts\<close>
  "storage_profile m = mounts m"

definition storage_Latest :: "storage_module \<Rightarrow> storage_sample any_ptr" where
  "storage_Latest m = (case storage_base m of None \<Rightarrow> NilAny | Some b \<Rightarrow> Ptr (Base_Latest b))"

definition storage_History :: "instant \<Rightarrow> storage_module \<Rightarrow> duration \<Rightarrow> storage_sample list" where
  "storage_History now m d = (case storage_base m of None \<Rightarrow> []
     | Some b \<Rightarrow> HistoryAny now (buf b) d (\<lambda>s cutoff. \<not> before (Timestamp s) cutoff) id)"

definition storage_LastSampleAge :: "instant \<Rightarrow> storage_module \<Rightarrow> duration" where
  "storage_LastSampleAge now m =
     (case storage_base m of None \<Rightarrow> max_int64 | Some b \<Rightarrow> LastSampleAge now b)"

definition storage_serve_latest :: "storage_module \<Rightarrow> writer \<Rightarrow> writer" where
  "storage_serve_latest m w =
     serve_latest (storage_base m) (case storage_base m of None \<Rightarrow> None | Some b \<Rightarrow> Base_Latest b)
       json_of_storage_sample None w"

definition storage_serve_history :: "instant \<Rightarrow> storage_module \<Rightarrow> request \<Rightarrow> writer \<Rightarrow> writer" where
  "storage_serve_history now m r w =
     serve_history (storage_base m) (storage_History now m) json_of_storage_sample None r w"

interpretation storage: sampled_module storage_base Timestamp storage_collectOnce storage_sample_of
  publish_clock storage_Latest storage_History storage_LastSampleAge
  by unfold_locales
    (simp_all add: storage_collectOnce_def storage_Latest_def storage_History_def storage_LastSampleAge_def)

section \<open>Lemmas\<close>

definition last_entry :: "string \<Rightarrow> mount_entry list \<Rightarrow> mount_entry option" where
  \<comment> \<open>the last line of the table for a path: a later mount covers an earlier one\<close>
  "last_entry path table = find (\<lambda>m. ePath m = path) (rev table)"

lemma fold_byPath:
  "fold (\<lambda>m f. f(ePath m \<mapsto> m)) table f path =
     (case last_entry path table of Some m \<Rightarrow> Some m | None \<Rightarrow> f path)"
  by (induction table arbitrary: f rule: rev_induct) (auto simp: last_entry_def)

lemma last_entry_path: "last_entry path table = Some m \<Longrightarrow> ePath m = path \<and> m \<in> set table"
  by (auto simp: last_entry_def find_Some_iff) (metis length_rev nth_mem set_rev)

lemma last_entry_None: "last_entry path table = None \<longleftrightarrow> path \<notin> ePath ` set table"
  by (auto simp: last_entry_def find_None_iff)

definition resolved_as :: "mount_entry list \<Rightarrow> mount_config \<Rightarrow> mount_point \<Rightarrow> bool" where
  "resolved_as table c p \<longleftrightarrow>
     (\<exists>m. last_entry (cPath c) table = Some m
        \<and> p = \<lparr>mpPath = cPath c, mpAlias = cAlias c, mpDevice = eDevice m, mpFSType = eFSType m\<rparr>)"

lemma resolve_mounts_ok:
  "resolve_mounts cfg (\<lambda>p. last_entry p table) acc = Inr res \<longleftrightarrow>
     (\<exists>ps. res = acc @ ps \<and> list_all2 (resolved_as table) cfg ps)"
proof (induction cfg arbitrary: acc)
  case (Cons c cfg)
  show ?case
    by (cases "last_entry (cPath c) table")
      (auto simp: Cons.IH list_all2_Cons1 resolved_as_def)
qed auto

lemma resolve_mounts_error:
  "resolve_mounts cfg (\<lambda>p. last_entry p table) acc = Inl err \<longleftrightarrow>
     (\<exists>c. find (\<lambda>c. cPath c \<notin> ePath ` set table) cfg = Some c \<and> err = NotMounted (cPath c))"
proof (induction cfg arbitrary: acc)
  case (Cons c cfg)
  show ?case
    using last_entry_None [of "cPath c" table]
    by (cases "last_entry (cPath c) table") (auto simp: Cons.IH)
qed simp

definition resolved_mount :: "mount_entry list \<Rightarrow> mount_config \<Rightarrow> mount_point" where
  \<comment> \<open>the mount a configured path stands for\<close>
  "resolved_mount table c =
     (let m = the (last_entry (cPath c) table)
      in \<lparr>mpPath = cPath c, mpAlias = cAlias c, mpDevice = eDevice m, mpFSType = eFSType m\<rparr>)"

lemma resolved_mounts_map:
  assumes "list_all2 (resolved_as table) cfg ps"
  shows "ps = map (resolved_mount table) cfg" "cPath ` set cfg \<subseteq> ePath ` set table"
proof -
  have one: "resolved_as table c p \<longleftrightarrow> p = resolved_mount table c \<and> cPath c \<in> ePath ` set table" for c p
    using last_entry_None [of "cPath c" table] by (auto simp: resolved_as_def resolved_mount_def)
  have "ps = map (resolved_mount table) cfg \<and> cPath ` set cfg \<subseteq> ePath ` set table"
    using assms by induction (simp_all add: one)
  then show "ps = map (resolved_mount table) cfg" "cPath ` set cfg \<subseteq> ePath ` set table" by simp_all
qed

lemma resolved_mount_fields [simp]:
  "mpPath (resolved_mount table c) = cPath c" "mpAlias (resolved_mount table c) = cAlias c"
  by (simp_all add: resolved_mount_def Let_def)

lemma validateMountPoints_resolve:
  "validateMountPoints cfg table = resolve_mounts cfg (\<lambda>p. last_entry p table) []"
proof -
  have "fold (\<lambda>m f. f(ePath m \<mapsto> m)) table Map.empty = (\<lambda>p. last_entry p table)"
    by (rule ext) (simp add: fold_byPath split: option.splits)
  then show ?thesis by (simp add: validateMountPoints_def)
qed

lemma length_validated: "validateMountPoints cfg table = Inr ps \<Longrightarrow> length ps = length cfg"
  by (auto simp: validateMountPoints_resolve resolve_mounts_ok dest: list_all2_lengthD)

definition disk_entry :: "mount_point \<Rightarrow> usage \<times> string option \<Rightarrow> disk \<Rightarrow> bool" where
  \<comment> \<open>what a disk entry reports of its mount and of the collector's answer\<close>
  "disk_entry p a d \<longleftrightarrow>
     dPath d = mpPath p \<and> dAlias d = mpAlias p
     \<and> (case a of
          (u, Some err) \<Rightarrow> dError d = err \<and> dTotalBytes d = 0 \<and> dUsedBytes d = 0 \<and> dFreeBytes d = 0
            \<and> dUsedPercent d = Fin 0
        | (u, None) \<Rightarrow> dError d = '''' \<and> dTotalBytes d = uTotalBytes u \<and> dUsedBytes d = uUsedBytes u
            \<and> dFreeBytes d = uFreeBytes u \<and> dUsedPercent d = uUsedPercent u
            \<and> dFSType d = (if uFSType u = '''' then mpFSType p else uFSType u))"

lemma disk_of_entry: "disk_entry p a (disk_of p a)"
  by (simp add: disk_entry_def disk_of_def Let_def split: prod.splits option.splits)

section \<open>Properties\<close>

text \<open>
  Every configured path must be mounted: validation succeeds exactly when each is in the mount
  table, and then resolves the paths in order, keeping path and alias and taking device and type
  from the last table line of that path; otherwise it names the first path that is not mounted.
\<close>

theorem validateMountPoints_spec:
  "validateMountPoints cfg table =
     (case find (\<lambda>c. cPath c \<notin> ePath ` set table) cfg of
        Some c \<Rightarrow> Inl (NotMounted (cPath c))
      | None \<Rightarrow> Inr (map (resolved_mount table) cfg))"
proof (cases "validateMountPoints cfg table")
  case (Inl err)
  then show ?thesis by (auto simp: validateMountPoints_resolve resolve_mounts_error)
next
  case (Inr ps)
  then have all2: "list_all2 (resolved_as table) cfg ps"
    by (simp add: validateMountPoints_resolve resolve_mounts_ok)
  then have "ps = map (resolved_mount table) cfg" by (rule resolved_mounts_map)
  moreover have "find (\<lambda>c. cPath c \<notin> ePath ` set table) cfg = None"
    using Inr by (metis not_Some_eq resolve_mounts_error sum.distinct(1) validateMountPoints_resolve)
  ultimately show ?thesis using Inr by simp
qed

text \<open>
  A tick publishes one disk entry per configured mount, in the configured order, whatever the
  collector answers. An entry whose call failed carries the error and zero numbers, another one the
  measured numbers and a file system type, the mount table's when the measurement has none. The
  sample's own error is set exactly when there is a mount and every mount failed.
\<close>

theorem storage_tick:
  assumes "storage_base m = Some b" "\<forall>i < length (mounts m). snd (answers e i) \<noteq> Some ''''"
  shows "\<exists>s ds. storage_Latest (storage_collectOnce e m) = Ptr (Some s) \<and> Disks s = Some ds
    \<and> length ds = length (mounts m)
    \<and> (\<forall>i < length ds. disk_entry (mounts m ! i) (answers e i) (ds ! i))
    \<and> (Error s = ''all mount points failed'' \<longleftrightarrow>
         mounts m \<noteq> [] \<and> (\<forall>i < length (mounts m). snd (answers e i) \<noteq> None))
    \<and> (Error s = '''' \<or> Error s = ''all mount points failed'')"
proof -
  let ?ds = "map (\<lambda>i. disk_of (mounts m ! i) (answers e i)) [0..<length (mounts m)]"
  have err: "dError (disk_of p a) = (case snd a of None \<Rightarrow> '''' | Some err \<Rightarrow> err)" for p a
    by (simp add: disk_of_def Let_def split: prod.splits option.splits)
  have all: "list_all (\<lambda>d. dError d \<noteq> '''') ?ds \<longleftrightarrow> (\<forall>i < length (mounts m). snd (answers e i) \<noteq> None)"
    using assms(2) by (auto simp: list_all_iff err split: option.splits)
  have latest: "storage_Latest (storage_collectOnce e m) = Ptr (Some (storage_sample_of e m))"
    using assms(1) by (simp add: storage_collectOnce_def storage_Latest_def Base_Latest_def)
  show ?thesis
    using all
    by (intro exI [of _ "storage_sample_of e m"] exI [of _ ?ds])
      (simp add: latest disk_of_entry, auto simp: disk_of_entry storage_sample_of_def Let_def)
qed

definition demo_storage :: storage_module where
  "demo_storage = \<lparr>mounts = [\<lparr>mpPath = ''/'', mpAlias = ''root'', mpDevice = ''sda1'', mpFSType = ''ext4''\<rparr>],
     storage_base = Some (projr (NewBase storage_zero_sample second 2))\<rparr>"

theorem storage_tick_witness:
  "\<exists>s. storage_Latest (storage_collectOnce \<lparr>answers = (\<lambda>_. (zero_usage, Some ''timeout'')), stamp_clock = 5,
      publish_clock = 6\<rparr> demo_storage) = Ptr (Some s) \<and> Error s = ''all mount points failed''"
  using storage_tick [of demo_storage "projr (NewBase storage_zero_sample second 2)"
      "\<lparr>answers = (\<lambda>_. (zero_usage, Some ''timeout'')), stamp_clock = 5, publish_clock = 6\<rparr>"]
  by (auto simp: demo_storage_def)

text \<open>
  The constructor fails, without touching a disk, exactly when no mount is configured, the mount
  table cannot be read, or a configured path is not mounted; with a positive capacity it otherwise
  builds a module that has published its first sample and whose profile lists every configured mount.
\<close>

theorem storage_constructed:
  assumes "0 < cap"
  shows "case storage_NewWithDeps ms intv cap table e of
      Failed NoMountPoints \<Rightarrow> ms = []
    | Failed (ReadMountTable err) \<Rightarrow> ms \<noteq> [] \<and> table = Inl err
    | Failed (NotMounted p) \<Rightarrow> (\<exists>t. table = Inr t \<and> p \<in> cPath ` set ms \<and> p \<notin> ePath ` set t)
    | Panicked _ \<Rightarrow> False
    | Built m \<Rightarrow> ms \<noteq> [] \<and> (\<exists>t. table = Inr t \<and> cPath ` set ms \<subseteq> ePath ` set t)
        \<and> map mpPath (storage_profile m) = map cPath ms \<and> map mpAlias (storage_profile m) = map cAlias ms
        \<and> (\<exists>s ds. storage_Latest m = Ptr (Some s) \<and> Disks s = Some ds \<and> map dPath ds = map cPath ms)"
proof (cases "ms = []")
  case True
  then show ?thesis by (simp add: storage_NewWithDeps_def)
next
  case False
  show ?thesis
  proof (cases table)
    case (Inl err)
    then show ?thesis using False by (simp add: storage_NewWithDeps_def)
  next
    case (Inr t)
    show ?thesis
    proof (cases "validateMountPoints ms t")
      case (Inl err)
      then obtain c where "find (\<lambda>c. cPath c \<notin> ePath ` set t) ms = Some c" "err = NotMounted (cPath c)"
        by (auto simp: validateMountPoints_resolve resolve_mounts_error)
      then show ?thesis using False Inr Inl
        by (auto simp: storage_NewWithDeps_def find_Some_iff)
    next
      case ok: (Inr ps)
      obtain b where b: "NewBase storage_zero_sample intv cap = Inr b" using NewBase_ok [OF assms, of storage_zero_sample intv] by blast
      have all2: "list_all2 (resolved_as t) ms ps"
        using ok by (simp add: validateMountPoints_resolve resolve_mounts_ok)
      then have names: "map mpPath ps = map cPath ms" "map mpAlias ps = map cAlias ms"
        "cPath ` set ms \<subseteq> ePath ` set t"
        using resolved_mounts_map [OF all2] by simp_all
      let ?m = "\<lparr>mounts = ps, storage_base = Some b\<rparr>"
      have new: "storage_NewWithDeps ms intv cap table e = Built (storage_collectOnce e ?m)"
        using False Inr ok b by (simp add: storage_NewWithDeps_def)
      have "dPath (disk_of p a) = mpPath p" for p a
        by (simp add: disk_of_def Let_def split: prod.splits option.splits)
      then have "map dPath (map (\<lambda>i. disk_of (ps ! i) (answers e i)) [0..<length ps]) = map mpPath ps"
        by (intro nth_equalityI) simp_all
      then show ?thesis unfolding new using names False Inr
        by (simp add: storage_profile_def storage_collectOnce_def storage_Latest_def Base_Latest_def
            storage_sample_of_def Let_def)
    qed
  qed
qed

theorem storage_constructed_witness:
  "\<exists>m. storage_NewWithDeps [\<lparr>cPath = ''/'', cAlias = ''root''\<rparr>] second 2
      (Inr [\<lparr>eDevice = ''sda1'', ePath = ''/'', eFSType = ''ext4'', eOptions = ''rw''\<rparr>])
      \<lparr>answers = (\<lambda>_. (zero_usage, None)), stamp_clock = 5, publish_clock = 6\<rparr> = Built m
    \<and> map mpPath (storage_profile m) = [''/'']"
proof -
  let ?new = "storage_NewWithDeps [\<lparr>cPath = ''/'', cAlias = ''root''\<rparr>] second 2
      (Inr [\<lparr>eDevice = ''sda1'', ePath = ''/'', eFSType = ''ext4'', eOptions = ''rw''\<rparr>])
      \<lparr>answers = (\<lambda>_. (zero_usage, None)), stamp_clock = 5, publish_clock = 6\<rparr>"
  obtain m where m: "?new = Built m"
    by (simp add: storage_NewWithDeps_def validateMountPoints_def NewBase_def NewRingBuffer_def)
  then show ?thesis
    using storage_constructed [where cap = 2 and ms = "[\<lparr>cPath = ''/'', cAlias = ''root''\<rparr>]" and intv = second
        and table = "Inr [\<lparr>eDevice = ''sda1'', ePath = ''/'', eFSType = ''ext4'', eOptions = ''rw''\<rparr>]"
        and e = "\<lparr>answers = (\<lambda>_. (zero_usage, None)), stamp_clock = 5, publish_clock = 6\<rparr>"]
    by simp
qed

end
