(* ===== verification/Cors.thy ===== *)
theory Cors
  imports Http
begin

text \<open>
  Cross-origin access (\<^verbatim>\<open>internal/cors\<close>): the grammar of an allowed origin (\<open>Parse\<close>), the match of
  a request's \<open>Origin\<close> header against it (\<open>Match\<close>), and the middleware. The lemmas characterise
  \<open>Parse\<close> by the grammar its documentation gives and \<open>Match\<close> by the set of origins a parsed
  pattern allows.
\<close>

section \<open>Patterns\<close>

record pattern =
  raw :: string
  scheme :: string
  host :: string
  wildcard :: bool

datatype origin_error =
    EmptyOrigin | BareWildcard | MissingScheme | BadScheme string | NotSchemeHost | MissingHost
  | UserInfo | WildcardHostEmpty | WildcardHostNoDot | OneLeadingWildcard | WildcardNotLeading | EmptyHost

definition Parse :: "string \<Rightarrow> origin_error + pattern" where
  "Parse s =
     (if s = '''' then Inl EmptyOrigin
      else if s = ''*'' then Inl BareWildcard
      else let colon = index_byte (CHR '':'') s
      in if colon \<le> 0 then Inl MissingScheme
      else let sch = take (nat colon) s
      in if sch \<noteq> ''http'' \<and> sch \<noteq> ''https'' then Inl (BadScheme sch)
      else let rest = drop (nat (colon + 1)) s
      in if length rest < 3 \<or> rest ! 0 \<noteq> CHR ''/'' \<or> rest ! 1 \<noteq> CHR ''/'' then Inl NotSchemeHost
      else let rest = drop 2 rest
      in if rest = '''' then Inl MissingHost
      else if CHR ''@'' \<in> set rest then Inl UserInfo
      else let h = rest
      in if 2 \<le> length h \<and> h ! 0 = CHR ''*'' \<and> h ! 1 = CHR ''.'' then
           let h = drop 2 h
           in if h = '''' then Inl WildcardHostEmpty
              else if CHR ''.'' \<notin> set h then Inl WildcardHostNoDot
              else if CHR ''*'' \<in> set h then Inl OneLeadingWildcard
              else Inr \<lparr>raw = s, scheme = sch, host = h, wildcard = True\<rparr>
         else if CHR ''*'' \<in> set h then Inl WildcardNotLeading
         else if h = '''' then Inl EmptyHost
         else Inr \<lparr>raw = s, scheme = sch, host = h, wildcard = False\<rparr>)"

definition Match :: "pattern \<Rightarrow> string \<Rightarrow> bool" where
  "Match p origin =
     (if origin = '''' then False
      else let colon = index_byte (CHR '':'') origin
      in if colon \<le> 0 then False
      else if take (nat colon) origin \<noteq> scheme p then False
      else let rest = drop (nat (colon + 1)) origin
      in if length rest < 2 \<or> rest ! 0 \<noteq> CHR ''/'' \<or> rest ! 1 \<noteq> CHR ''/'' then False
      else let h = drop 2 rest
      in if CHR ''@'' \<in> set h then False
      else if wildcard p then
             let idx = index_byte (CHR ''.'') h
             in if idx < 0 then False
                else let sub = take (nat idx) h; rest = drop (nat (idx + 1)) h
                     in if sub = '''' \<or> CHR ''*'' \<in> set sub \<or> rest \<noteq> host p then False else True
           else h = host p)"

section \<open>The middleware\<close>

record cors_config =
  Enabled :: bool
  AllowedOrigins :: "string list"
  AllowMethods :: "string list"
  AllowHeaders :: "string list"
  MaxAgeSeconds :: int

definition parse_origins :: "string list \<Rightarrow> pattern list" where
  \<comment> \<open>the loop that skips entries that do not parse\<close>
  "parse_origins os = List.map_filter (\<lambda>o'. case Parse o' of Inl _ \<Rightarrow> None | Inr p \<Rightarrow> Some p) os"

definition cors_denied :: string where
  "cors_denied = ''{\"error\":\"cors_origin_not_allowed\"}''"

definition cors_headers :: "cors_config \<Rightarrow> string \<Rightarrow> writer \<Rightarrow> writer" where
  "cors_headers cfg origin w =
     (let w1 = header_set ''Access-Control-Allow-Origin'' origin w;
          w2 = header_add ''Vary'' ''Origin'' w1;
          w3 = header_set ''Access-Control-Allow-Methods'' (join '', '' (AllowMethods cfg)) w2;
          w4 = header_set ''Access-Control-Allow-Headers'' (join '', '' (AllowHeaders cfg)) w3;
          w5 = header_add ''Vary'' ''Access-Control-Request-Headers'' w4
      in header_set ''Access-Control-Max-Age'' (Itoa (MaxAgeSeconds cfg)) w5)"

definition cors_Middleware :: "cors_config \<Rightarrow> 's handler \<Rightarrow> 's handler" where
  "cors_Middleware cfg next' =
     (if \<not> Enabled cfg \<or> AllowedOrigins cfg = [] then next'
      else let patterns = parse_origins (AllowedOrigins cfg)
      in if patterns = [] then next'
      else (\<lambda>r c.
        let origin = rheader r ''Origin''
        in if origin = '''' then next' r c
           else let matched = list_ex (\<lambda>p. Match p origin) patterns
           in if \<not> matched then
                if rmethod r = ''OPTIONS'' then respond (http_Error cors_denied 403) c
                else next' r c
              else let c1 = on_resp (cors_headers cfg origin) c
              in if rmethod r = ''OPTIONS'' then respond (WriteHeader 204) c1
                 else next' r c1))"

section \<open>What the grammar accepts\<close>

definition origin_text :: "string \<Rightarrow> string \<Rightarrow> string" where
  "origin_text sch h = sch @ ''://'' @ h"

lemma split_at_colon:
  assumes "0 < index_byte (CHR '':'') s"
  shows "s = take (nat (index_byte (CHR '':'') s)) s @ CHR '':'' # drop (nat (index_byte (CHR '':'') s + 1)) s"
    "CHR '':'' \<notin> set (take (nat (index_byte (CHR '':'') s)) s)"
proof -
  have "0 \<le> index_byte (CHR '':'') s" using assms by simp
  then obtain xs ys where s: "s = xs @ CHR '':'' # ys" "CHR '':'' \<notin> set xs" "index_byte (CHR '':'') s = int (length xs)"
    by (rule index_byte_split)
  have "nat (int (length xs) + 1) = Suc (length xs)" by simp
  then show "s = take (nat (index_byte (CHR '':'') s)) s @ CHR '':'' # drop (nat (index_byte (CHR '':'') s + 1)) s"
    "CHR '':'' \<notin> set (take (nat (index_byte (CHR '':'') s)) s)"
    unfolding s(3) using s(1,2) by simp_all
qed

lemma slashes:
  "2 \<le> length r \<Longrightarrow> r ! 0 = CHR ''/'' \<Longrightarrow> r ! 1 = CHR ''/'' \<Longrightarrow> r = ''//'' @ drop 2 r"
  by (cases r; cases "tl r") auto

lemma star_dot:
  "2 \<le> length h \<Longrightarrow> h ! 0 = CHR ''*'' \<Longrightarrow> h ! 1 = CHR ''.'' \<Longrightarrow> h = ''*.'' @ drop 2 h"
  by (cases h; cases "tl h") auto

lemma index_origin_text:
  "CHR '':'' \<notin> set sch \<Longrightarrow> index_byte (CHR '':'') (origin_text sch h) = int (length sch)"
  unfolding origin_text_def using index_byte_append [of "CHR '':''" sch "''//'' @ h"] by simp

lemma web_scheme: "sch = ''http'' \<or> sch = ''https'' \<Longrightarrow> CHR '':'' \<notin> set sch \<and> sch \<noteq> ''''"
  by auto

lemma Parse_sound:
  assumes "Parse s = Inr p"
  shows "raw p = s \<and> (scheme p = ''http'' \<or> scheme p = ''https'') \<and> CHR ''@'' \<notin> set (host p)
    \<and> CHR ''*'' \<notin> set (host p) \<and> host p \<noteq> ''''
    \<and> (if wildcard p then s = origin_text (scheme p) (''*.'' @ host p) \<and> CHR ''.'' \<in> set (host p)
       else s = origin_text (scheme p) (host p))"
proof -
  let ?c = "index_byte (CHR '':'') s"
  let ?sch = "take (nat ?c) s" and ?rest = "drop (nat (?c + 1)) s"
  have c: "0 < ?c" and sch: "?sch = ''http'' \<or> ?sch = ''https''"
    and r: "3 \<le> length ?rest" "?rest ! 0 = CHR ''/''" "?rest ! 1 = CHR ''/''"
    using assms by (auto simp: Parse_def Let_def split: if_splits)
  have s: "s = origin_text ?sch (drop 2 ?rest)"
    using split_at_colon(1) [OF c] slashes [of ?rest] r by (simp add: origin_text_def)
  have h: "CHR ''@'' \<notin> set (drop 2 ?rest)" "drop 2 ?rest \<noteq> ''''"
    using assms c sch r by (auto simp: Parse_def Let_def split: if_splits)
  show ?thesis
  proof (cases "2 \<le> length (drop 2 ?rest) \<and> drop 2 ?rest ! 0 = CHR ''*'' \<and> drop 2 ?rest ! 1 = CHR ''.''")
    case True
    then have sd: "drop 2 ?rest = ''*.'' @ drop 2 (drop 2 ?rest)" by (intro star_dot) simp_all
    have p: "p = \<lparr>raw = s, scheme = ?sch, host = drop 2 (drop 2 ?rest), wildcard = True\<rparr>"
      "drop 2 (drop 2 ?rest) \<noteq> ''''" "CHR ''.'' \<in> set (drop 2 (drop 2 ?rest))"
      "CHR ''*'' \<notin> set (drop 2 (drop 2 ?rest))"
      using assms True unfolding Parse_def Let_def by (auto split: if_splits simp del: drop_drop)
    then show ?thesis using sch s h sd by (auto dest: in_set_dropD simp del: drop_drop)
  next
    case False
    have "p = \<lparr>raw = s, scheme = ?sch, host = drop 2 ?rest, wildcard = False\<rparr>"
      "CHR ''*'' \<notin> set (drop 2 ?rest)"
      using assms False unfolding Parse_def Let_def by (auto split: if_splits simp del: drop_drop)
    then show ?thesis using sch s h by simp
  qed
qed

lemma origin_text_parts:
  assumes "sch = ''http'' \<or> sch = ''https''"
  shows "index_byte (CHR '':'') (origin_text sch h) = int (length sch)"
    "take (length sch) (origin_text sch h) = sch"
    "drop (Suc (length sch)) (origin_text sch h) = ''//'' @ h"
    "origin_text sch h \<noteq> ''''" "origin_text sch h \<noteq> ''*''"
  using assms index_origin_text [of sch h] web_scheme [of sch] by (auto simp: origin_text_def)

lemma Parse_origin_text:
  assumes "sch = ''http'' \<or> sch = ''https''" "h \<noteq> ''''" "CHR ''@'' \<notin> set h"
  shows "Parse (origin_text sch h) =
    (if 2 \<le> length h \<and> h ! 0 = CHR ''*'' \<and> h ! 1 = CHR ''.'' then
       let h = drop 2 h
       in if h = '''' then Inl WildcardHostEmpty
          else if CHR ''.'' \<notin> set h then Inl WildcardHostNoDot
          else if CHR ''*'' \<in> set h then Inl OneLeadingWildcard
          else Inr \<lparr>raw = origin_text sch (''*.'' @ h), scheme = sch, host = h, wildcard = True\<rparr>
     else if CHR ''*'' \<in> set h then Inl WildcardNotLeading
     else Inr \<lparr>raw = origin_text sch h, scheme = sch, host = h, wildcard = False\<rparr>)"
proof -
  note parts = origin_text_parts [OF assms(1), of h]
  have n: "nat (int (length sch)) = length sch" "nat (int (length sch) + 1) = Suc (length sch)"
    "\<not> int (length sch) \<le> 0" using assms(1) by auto
  have l: "\<not> length (''//'' @ h) < 3" using assms(2) by (cases h) simp_all
  have sd: "2 \<le> length h \<and> h ! 0 = CHR ''*'' \<and> h ! 1 = CHR ''.'' \<Longrightarrow> ''*.'' @ drop 2 h = h"
    using star_dot [of h] by auto
  show ?thesis
    unfolding Parse_def parts(1) Let_def n parts(2,3) if_not_P [OF parts(4)] if_not_P [OF parts(5)]
      if_not_P [OF n(3)]
    using assms l sd by (auto simp: Let_def)
qed

lemma Match_origin_text:
  assumes "scheme p = ''http'' \<or> scheme p = ''https''"
  shows "Match p origin \<longleftrightarrow>
    (\<exists>h. origin = origin_text (scheme p) h \<and> CHR ''@'' \<notin> set h
      \<and> (if wildcard p then \<exists>sub. h = sub @ ''.'' @ host p \<and> sub \<noteq> '''' \<and> CHR ''.'' \<notin> set sub \<and> CHR ''*'' \<notin> set sub
         else h = host p))"
    (is "?l \<longleftrightarrow> ?r")
proof
  assume m: ?l
  let ?c = "index_byte (CHR '':'') origin"
  let ?rest = "drop (nat (?c + 1)) origin"
  let ?h = "drop 2 ?rest"
  have c: "0 < ?c" and sch: "take (nat ?c) origin = scheme p"
    and r: "2 \<le> length ?rest" "?rest ! 0 = CHR ''/''" "?rest ! 1 = CHR ''/''" and at: "CHR ''@'' \<notin> set ?h"
    using m by (auto simp: Match_def Let_def split: if_splits)
  have o: "origin = origin_text (scheme p) ?h"
    using split_at_colon(1) [OF c] slashes [OF r] sch by (simp add: origin_text_def)
  show ?r
  proof (cases "wildcard p")
    case True
    let ?i = "index_byte (CHR ''.'') ?h"
    have i: "0 \<le> ?i" "take (nat ?i) ?h \<noteq> ''''" "CHR ''*'' \<notin> set (take (nat ?i) ?h)"
      "drop (nat (?i + 1)) ?h = host p"
      using m c sch r at True unfolding Match_def Let_def by (auto split: if_splits simp del: drop_drop)
    from i(1) obtain xs ys where x: "?h = xs @ CHR ''.'' # ys" "CHR ''.'' \<notin> set xs" "?i = int (length xs)"
      by (rule index_byte_split)
    have td: "take (nat ?i) ?h = xs" "drop (nat (?i + 1)) ?h = ys"
      unfolding x(3) using x(1) by (simp_all add: nat_add_distrib)
    have "ys = host p" "xs \<noteq> ''''" "CHR ''*'' \<notin> set xs"
      using i(2-4) unfolding td by blast+
    then have "?h = xs @ ''.'' @ host p" "xs \<noteq> ''''" "CHR ''*'' \<notin> set xs" using x(1) by simp_all
    then show ?thesis using o at x(2) True by auto
  next
    case False
    have "?h = host p"
      using m c sch r at False unfolding Match_def Let_def by (auto split: if_splits simp del: drop_drop)
    then show ?thesis using o at False by auto
  qed
next
  assume ?r
  then obtain h where o: "origin = origin_text (scheme p) h" and at: "CHR ''@'' \<notin> set h"
    and h: "if wildcard p then \<exists>sub. h = sub @ ''.'' @ host p \<and> sub \<noteq> '''' \<and> CHR ''.'' \<notin> set sub \<and> CHR ''*'' \<notin> set sub
      else h = host p" by blast
  note parts = origin_text_parts [OF assms, of h]
  have n: "nat (int (length (scheme p))) = length (scheme p)"
    "nat (int (length (scheme p)) + 1) = Suc (length (scheme p))"
    "\<not> int (length (scheme p)) \<le> 0" using assms by auto
  have base: "Match p origin \<longleftrightarrow>
      (if wildcard p then
         let idx = index_byte (CHR ''.'') h
         in if idx < 0 then False
            else let sub = take (nat idx) h; rest = drop (nat (idx + 1)) h
                 in if sub = '''' \<or> CHR ''*'' \<in> set sub \<or> rest \<noteq> host p then False else True
       else h = host p)"
    unfolding Match_def o parts(1) Let_def n parts(2,3) if_not_P [OF parts(4)] if_not_P [OF n(3)]
    using at by simp
  show ?l
  proof (cases "wildcard p")
    case True
    then obtain sub where sub: "h = sub @ CHR ''.'' # host p" "sub \<noteq> ''''" "CHR ''.'' \<notin> set sub" "CHR ''*'' \<notin> set sub"
      using h by auto
    have "index_byte (CHR ''.'') h = int (length sub)" unfolding sub(1) by (rule index_byte_append [OF sub(3)])
    then show ?thesis unfolding base using True sub by (simp add: nat_add_distrib)
  next
    case False
    then show ?thesis unfolding base using h by simp
  qed
qed

section \<open>Properties\<close>

definition origin_grammar :: "pattern \<Rightarrow> bool" where
  "origin_grammar p \<longleftrightarrow>
     (scheme p = ''http'' \<or> scheme p = ''https'') \<and> host p \<noteq> '''' \<and> CHR ''@'' \<notin> set (host p)
     \<and> CHR ''*'' \<notin> set (host p) \<and> (wildcard p \<longrightarrow> CHR ''.'' \<in> set (host p))
     \<and> raw p = origin_text (scheme p) ((if wildcard p then ''*.'' else '''') @ host p)"

text \<open>
  C33. An allowed-origin entry parses exactly when it is scheme, "://" and a host, the scheme is
  http or https, the host has no user information, and either carries no star or is "*." followed by
  a non-empty host that contains a dot and no further star. The parsed parts are those of the text.
\<close>

theorem Parse_grammar:
  "Parse s = Inr p \<longleftrightarrow> origin_grammar p \<and> raw p = s"
proof
  assume "Parse s = Inr p"
  then show "origin_grammar p \<and> raw p = s"
    using Parse_sound [of s p] by (auto simp: origin_grammar_def split: if_splits)
next
  assume g: "origin_grammar p \<and> raw p = s"
  show "Parse s = Inr p"
  proof (cases "wildcard p")
    case True
    then have "s = origin_text (scheme p) (''*.'' @ host p)" using g by (auto simp: origin_grammar_def)
    then show ?thesis
      using g True Parse_origin_text [of "scheme p" "''*.'' @ host p"] by (simp add: origin_grammar_def Let_def)
  next
    case False
    have "\<not> (2 \<le> length (host p) \<and> host p ! 0 = CHR ''*'')"
      using g by (cases "host p") (auto simp: origin_grammar_def)
    then show ?thesis
      using g False Parse_origin_text [of "scheme p" "host p"] by (auto simp: origin_grammar_def)
  qed
qed

text \<open>
  C32. A configured origin without a star allows exactly the requests whose Origin header is that
  text; one with a star allows exactly the origins of its scheme whose host is one non-empty label
  without dot, star or "@" in front of the configured host.
\<close>

theorem Match_allows:
  assumes "Parse s = Inr p"
  shows "Match p origin \<longleftrightarrow>
    (if wildcard p
     then \<exists>sub. origin = origin_text (scheme p) (sub @ ''.'' @ host p) \<and> sub \<noteq> ''''
            \<and> CHR ''.'' \<notin> set sub \<and> CHR ''*'' \<notin> set sub \<and> CHR ''@'' \<notin> set sub
     else origin = s)"
proof -
  have p: "scheme p = ''http'' \<or> scheme p = ''https''" "CHR ''@'' \<notin> set (host p)"
    "\<not> wildcard p \<Longrightarrow> s = origin_text (scheme p) (host p)"
    using Parse_sound [OF assms] by auto
  show ?thesis unfolding Match_origin_text [OF p(1)] using p(2,3) by auto
qed

theorem Match_allows_witness:
  "\<exists>p. Parse ''https://*.example.com'' = Inr p \<and> Match p ''https://app.example.com''
     \<and> \<not> Match p ''http://app.example.com''"
proof -
  let ?p = "\<lparr>raw = ''https://*.example.com'', scheme = ''https'', host = ''example.com'', wildcard = True\<rparr>"
  have p: "Parse ''https://*.example.com'' = Inr ?p"
    by (simp add: Parse_def Let_def)
  have "Match ?p ''https://app.example.com''"
    using Match_allows [OF p, of "''https://app.example.com''"]
    by (auto simp: origin_text_def intro: exI [of _ "''app''"])
  moreover have "\<not> Match ?p ''http://app.example.com''"
    using Match_allows [OF p, of "''http://app.example.com''"] by (simp add: origin_text_def)
  ultimately show ?thesis using p by blast
qed

text \<open>
  The documented rejection of top-level-domain wildcards is a test for a dot anywhere in the
  host, so a wildcard over a top-level domain written with its trailing dot parses, and allows
  every host directly below that domain.
\<close>

theorem Parse_top_level_wildcard:
  "Parse ''https://*.com'' = Inl WildcardHostNoDot
   \<and> (\<exists>p. Parse ''https://*.com.'' = Inr p \<and> Match p ''https://evil.com.'')"
  by (simp add: Parse_def Match_def Let_def)

definition allowed_by :: "cors_config \<Rightarrow> string \<Rightarrow> bool" where
  \<comment> \<open>some configured entry that parses matches the origin\<close>
  "allowed_by cfg origin \<longleftrightarrow> (\<exists>o' \<in> set (AllowedOrigins cfg). \<exists>p. Parse o' = Inr p \<and> Match p origin)"

definition active :: "cors_config \<Rightarrow> bool" where
  "active cfg \<longleftrightarrow> Enabled cfg \<and> parse_origins (AllowedOrigins cfg) \<noteq> []"

lemma parse_origins_simps [simp]:
  "parse_origins [] = []"
  "parse_origins (o' # os) = (case Parse o' of Inl _ \<Rightarrow> parse_origins os | Inr p \<Rightarrow> p # parse_origins os)"
  by (simp_all add: parse_origins_def List.map_filter_def split: sum.splits)

lemma set_parse_origins: "set (parse_origins os) = {p. \<exists>o' \<in> set os. Parse o' = Inr p}"
  by (induction os) (auto split: sum.splits)

lemma matched_allowed:
  "list_ex (\<lambda>p. Match p origin) (parse_origins (AllowedOrigins cfg)) \<longleftrightarrow> allowed_by cfg origin"
  by (auto simp: list_ex_iff set_parse_origins allowed_by_def)

lemma cors_eq:
  "cors_Middleware cfg next' r c =
     (if \<not> active cfg \<or> rheader r ''Origin'' = '''' then next' r c
      else if allowed_by cfg (rheader r ''Origin'') then
        let c1 = on_resp (cors_headers cfg (rheader r ''Origin'')) c
        in if rmethod r = ''OPTIONS'' then respond (WriteHeader 204) c1 else next' r c1
      else if rmethod r = ''OPTIONS'' then respond (http_Error cors_denied 403) c else next' r c)"
proof -
  have "AllowedOrigins cfg = [] \<Longrightarrow> parse_origins (AllowedOrigins cfg) = []" by simp
  then show ?thesis
    by (cases "active cfg") (auto simp: cors_Middleware_def active_def matched_allowed Let_def)
qed

lemma unsent_cors_headers [simp]: "unsent (cors_headers cfg origin w) = unsent w"
  by (simp add: cors_headers_def Let_def)

lemma live_cors_headers:
  "live (wire (cors_headers cfg origin w)) k =
     (if k = ''Access-Control-Allow-Origin'' then [origin]
      else if k = ''Access-Control-Allow-Methods'' then [join '', '' (AllowMethods cfg)]
      else if k = ''Access-Control-Allow-Headers'' then [join '', '' (AllowHeaders cfg)]
      else if k = ''Access-Control-Max-Age'' then [Itoa (MaxAgeSeconds cfg)]
      else if k = ''Vary'' then live (wire w) k @ [''Origin'', ''Access-Control-Request-Headers'']
      else live (wire w) k)"
  by (simp add: cors_headers_def Let_def)

definition keeps_header :: "string \<Rightarrow> 's handler \<Rightarrow> bool" where
  \<comment> \<open>the handler sends the header it was handed, or sends no header\<close>
  "keeps_header k h \<longleftrightarrow>
     (\<forall>r c. unsent (resp c) \<longrightarrow> wire_header (resp (snd (h r c))) k \<in> {[], live (wire (resp c)) k})"

lemma wire_header_WriteHeader: "unsent w \<Longrightarrow> wire_header (WriteHeader code w) k = live (wire w) k"
  by (simp add: wire_header_def wire_WriteHeader_unsent)

text \<open>
  C11. Around any handler that does not itself set it, the Access-Control-Allow-Origin header
  reaches the client only for a request whose Origin some configured entry allows, and then it is
  that very origin; for every other request the header is absent.
\<close>

theorem cors_grants_only_allowed:
  assumes "keeps_header ''Access-Control-Allow-Origin'' next'" "unsent (resp c)"
    and "live (wire (resp c)) ''Access-Control-Allow-Origin'' = []"
  shows "wire_header (resp (snd (cors_Middleware cfg next' r c))) ''Access-Control-Allow-Origin''
    \<in> (if Enabled cfg \<and> rheader r ''Origin'' \<noteq> '''' \<and> allowed_by cfg (rheader r ''Origin'')
        then {[], [rheader r ''Origin'']} else {[]})"
proof -
  have nx: "wire_header (resp (snd (next' r d))) ''Access-Control-Allow-Origin''
      \<in> {[], live (wire (resp d)) ''Access-Control-Allow-Origin''}" if "unsent (resp d)" for d
    using assms(1) that by (simp add: keeps_header_def)
  have act: "allowed_by cfg x \<Longrightarrow> Enabled cfg \<Longrightarrow> active cfg" for x
    unfolding matched_allowed [symmetric] active_def by auto
  have denied: "wire_header (http_Error cors_denied 403 (resp c)) ''Access-Control-Allow-Origin'' = []"
    using assms(2,3) by (simp add: http_Error_def Let_def wire_header_def wire_Write wire_WriteHeader_unsent)
  show ?thesis
    using nx [OF assms(2)] nx [of "on_resp (cors_headers cfg (rheader r ''Origin'')) c"] assms(2,3) act denied
    by (auto simp: cors_eq Let_def live_cors_headers wire_header_WriteHeader active_def)
qed

definition demo_cors :: cors_config where
  "demo_cors = \<lparr>Enabled = True, AllowedOrigins = [''*'', ''https://*.example.com''], AllowMethods = [''GET'', ''OPTIONS''],
     AllowHeaders = [''Content-Type''], MaxAgeSeconds = 300\<rparr>"

definition demo_request :: "string \<Rightarrow> string \<Rightarrow> request" where
  "demo_request meth origin = \<lparr>rmethod = meth, rpath = ''/metrics'', rquery = (\<lambda>_. ''''),
     rheader = (\<lambda>k. if k = ''Origin'' then origin else ''''), remote_addr = ''10.0.0.9:4711'', ctx_request_id = None\<rparr>"

definition fresh_conn :: "'s \<Rightarrow> 's conn" where
  "fresh_conn s = \<lparr>server_state = s, resp = fresh_writer, log_out = [],
     env = \<lparr>entropy = None, clock_now = 0, elapsed = 0\<rparr>\<rparr>"

lemma fresh_conn_fields [simp]:
  "resp (fresh_conn s) = fresh_writer" "log_out (fresh_conn s) = []" "server_state (fresh_conn s) = s"
  "env (fresh_conn s) = \<lparr>entropy = None, clock_now = 0, elapsed = 0\<rparr>"
  by (simp_all add: fresh_conn_def)

lemma demo_origins: "parse_origins (AllowedOrigins demo_cors) =
    [\<lparr>raw = ''https://*.example.com'', scheme = ''https'', host = ''example.com'', wildcard = True\<rparr>]"
  by (simp add: demo_cors_def Parse_def Let_def)

lemma demo_allowed:
  "allowed_by demo_cors ''https://app.example.com''" "\<not> allowed_by demo_cors ''https://example.org''"
  unfolding matched_allowed [symmetric] demo_origins by (simp_all add: Match_def Let_def)

theorem cors_grants_only_allowed_witness:
  "wire_header (resp (snd (cors_Middleware demo_cors (\<lambda>_. respond (WriteHeader 200))
       (demo_request ''GET'' ''https://example.org'') (fresh_conn ())))) ''Access-Control-Allow-Origin'' = []"
proof -
  have "keeps_header ''Access-Control-Allow-Origin'' (\<lambda>_. respond (WriteHeader 200) :: unit conn \<Rightarrow> _)"
    by (simp add: keeps_header_def wire_header_WriteHeader)
  then show ?thesis
    using cors_grants_only_allowed [of "\<lambda>_. respond (WriteHeader 200)" "fresh_conn ()" demo_cors
        "demo_request ''GET'' ''https://example.org''"] demo_allowed(2)
    by (simp add: demo_request_def)
qed

text \<open>
  Preflight requests never reach the handler behind an active configuration: from an allowed
  origin the answer is 204 with an empty body and the configured methods, headers and age, from any
  other origin it is 403 with the denial document.
\<close>

theorem cors_preflight:
  assumes "active cfg" "rmethod r = ''OPTIONS''" "rheader r ''Origin'' \<noteq> ''''" "unsent (resp c)"
  shows "if allowed_by cfg (rheader r ''Origin'')
    then fst (cors_Middleware cfg next' r c) = Returned
      \<and> wire_status (resp (snd (cors_Middleware cfg next' r c))) = Some 204
      \<and> written (resp (snd (cors_Middleware cfg next' r c))) = []
      \<and> wire_header (resp (snd (cors_Middleware cfg next' r c))) ''Access-Control-Allow-Origin'' = [rheader r ''Origin'']
      \<and> wire_header (resp (snd (cors_Middleware cfg next' r c))) ''Access-Control-Allow-Methods'' = [join '', '' (AllowMethods cfg)]
      \<and> wire_header (resp (snd (cors_Middleware cfg next' r c))) ''Access-Control-Max-Age'' = [Itoa (MaxAgeSeconds cfg)]
      \<and> ''Origin'' \<in> set (wire_header (resp (snd (cors_Middleware cfg next' r c))) ''Vary'')
    else cors_Middleware cfg next' r c = respond (http_Error cors_denied 403) c
      \<and> wire_status (resp (snd (cors_Middleware cfg next' r c))) = Some 403
      \<and> written (resp (snd (cors_Middleware cfg next' r c))) = [Text (cors_denied @ [CHR 0x0A])]"
proof (cases "allowed_by cfg (rheader r ''Origin'')")
  case True
  let ?w = "cors_headers cfg (rheader r ''Origin'') (resp c)"
  have e: "cors_Middleware cfg next' r c = respond (WriteHeader 204) (on_resp (cors_headers cfg (rheader r ''Origin'')) c)"
    using assms True by (simp add: cors_eq)
  have u: "unsent ?w" using assms(4) by simp
  have "out (wire ?w) = []" using unsent_wire [OF u] by simp
  then show ?thesis
    using True u by (simp add: e wire_header_WriteHeader live_cors_headers wire_status_def written_def
        wire_WriteHeader_unsent)
next
  case False
  then show ?thesis using assms by (simp add: cors_eq http_Error_wire)
qed

theorem cors_preflight_witness:
  "wire_status (resp (snd (cors_Middleware demo_cors (\<lambda>_ c. (Panicking ''x'', c))
      (demo_request ''OPTIONS'' ''https://app.example.com'') (fresh_conn ())))) = Some 204"
proof -
  have "active demo_cors" by (simp add: active_def demo_origins) (simp add: demo_cors_def)
  then show ?thesis
    using cors_preflight [of demo_cors "demo_request ''OPTIONS'' ''https://app.example.com''" "fresh_conn ()"
        "\<lambda>_ c. (Panicking ''x'', c)"] demo_allowed(1)
    by (simp add: demo_request_def)
qed

end
