(* ===== verification/Middleware.thy ===== *)
theory Middleware
  imports Cors
begin

text \<open>
  The middlewares of \<^verbatim>\<open>internal/middleware/chain.go\<close>: \<open>Recovery\<close>, \<open>RequestID\<close> and \<open>AccessLog\<close>, as
  functions on handlers. A panic is a value of the handler's result; the random bytes, the clock
  and the measured latency come from the connection's environment.
\<close>

section \<open>Request identifiers\<close>

definition maxRequestIDLen :: nat where
  "maxRequestIDLen = 128"

definition id_char :: "char \<Rightarrow> bool" where
  \<comment> \<open>the cases of the \<open>switch\<close>; a byte above 127 is part of a rune that matches none of them\<close>
  "id_char c =
     (let b = (of_char c :: int)
      in (97 \<le> b \<and> b \<le> 122) \<or> (65 \<le> b \<and> b \<le> 90) \<or> (48 \<le> b \<and> b \<le> 57)
         \<or> c = CHR ''-'' \<or> c = CHR ''_'' \<or> c = CHR ''.'' \<or> c = CHR '':'')"

definition validRequestID :: "string \<Rightarrow> bool" where
  "validRequestID id' = (if id' = '''' \<or> maxRequestIDLen < length id' then False else list_all id_char id')"

definition hex_digit :: "int \<Rightarrow> char" where
  "hex_digit d = (if d < 10 then char_of (48 + d) else char_of (87 + d))"

definition hex_EncodeToString :: "int list \<Rightarrow> string" where
  "hex_EncodeToString bs = concat (map (\<lambda>b. [hex_digit (b div 16), hex_digit (b mod 16)]) bs)"

definition newRequestID :: "env_reading \<Rightarrow> string" where
  \<comment> \<open>eight random bytes, or the bytes of the clock when the random source fails\<close>
  "newRequestID e =
     (let b = (case entropy e of
                 Some bs \<Rightarrow> bs
               | None \<Rightarrow> let now = wrap64 (clock_now e)
                        in map (\<lambda>i. (now div 2 ^ (i mod 8 * 8)) mod 256) [0..<8])
      in hex_EncodeToString b)"

definition RequestIDFromContext :: "request \<Rightarrow> string" where
  "RequestIDFromContext r = (case ctx_request_id r of Some v \<Rightarrow> v | None \<Rightarrow> '''')"

definition RequestID :: "'s handler \<Rightarrow> 's handler" where
  "RequestID next' r c =
     (let rid = rheader r ''X-Request-Id'';
          rid = (if \<not> validRequestID rid then newRequestID (env c) else rid);
          c1 = on_resp (header_set ''X-Request-Id'' rid) c
      in next' (r\<lparr>ctx_request_id := Some rid\<rparr>) c1)"

section \<open>Access log and recovery\<close>

definition maxLogPathLen :: nat where
  "maxLogPathLen = 512"

definition logPath :: "string \<Rightarrow> string" where
  "logPath path =
     (if length path \<le> maxLogPathLen then path else take maxLogPathLen path @ ''...(truncated)'')"

definition clientIP :: "request \<Rightarrow> string" where
  "clientIP r = (case SplitHostPort (remote_addr r) of None \<Rightarrow> remote_addr r | Some (h, _) \<Rightarrow> h)"

definition new_observer :: observer where
  "new_observer = \<lparr>status = 200, counted = [], wroteHeader = False\<rparr>"

primrec inner_writer :: "writer \<Rightarrow> writer" where
  "inner_writer (Net n) = Net n"
| "inner_writer (Observed ob w) = w"

primrec observer_of :: "writer \<Rightarrow> observer" where
  "observer_of (Net n) = new_observer"
| "observer_of (Observed ob w) = ob"

definition AccessLog :: "'s handler \<Rightarrow> 's handler" where
  \<comment> \<open>the log line is not deferred: a panic of the inner handler passes it by\<close>
  "AccessLog next' r c =
     (case next' r (c\<lparr>resp := Observed new_observer (resp c)\<rparr>) of
        (Panicking v, c1) \<Rightarrow> (Panicking v, c1\<lparr>resp := inner_writer (resp c1)\<rparr>)
      | (Returned, c1) \<Rightarrow>
        let rw = observer_of (resp c1)
        in (Returned, c1\<lparr>resp := inner_writer (resp c1),
             log_out := log_out c1 @ [AccessLine (rmethod r) (logPath (rpath r)) (status rw) (counted rw)
               (Milliseconds (elapsed (env c1))) (RequestIDFromContext r) (clientIP r)]\<rparr>))"

definition internal_error :: string where
  "internal_error = ''{\"error\":\"internal\"}''"

definition Recovery :: "'s handler \<Rightarrow> 's handler" where
  "Recovery next' r c =
     (case next' r c of
        (Returned, c1) \<Rightarrow> (Returned, c1)
      | (Panicking v, c1) \<Rightarrow>
        let c2 = c1\<lparr>log_out := log_out c1 @ [PanicLine v (logPath (rpath r)) (rmethod r)]\<rparr>
        in respond (\<lambda>w. Write (Text internal_error) (WriteHeader 500
             (header_set ''Content-Type'' ''application/json'' w))) c2)"

section \<open>The middlewares only write\<close>

lemma polite_RequestID [inv_intros]:
  assumes "polite h"
  shows "polite (RequestID h)"
proof (rule politeI)
  fix r :: request and c :: "'a conn"
  define rid where "rid = (if \<not> validRequestID (rheader r ''X-Request-Id'') then newRequestID (env c)
    else rheader r ''X-Request-Id'')"
  have e: "RequestID h r c = h (r\<lparr>ctx_request_id := Some rid\<rparr>) (on_resp (header_set ''X-Request-Id'' rid) c)"
    by (simp add: RequestID_def rid_def Let_def)
  show "writes (resp c) (resp (snd (RequestID h r c))) \<and> (\<exists>ls. log_out (snd (RequestID h r c)) = log_out c @ ls)
      \<and> env (snd (RequestID h r c)) = env c"
    unfolding e by (rule polite_at [OF assms]) (simp_all add: writes_ops)
qed

lemma polite_Recovery [inv_intros]:
  assumes "polite h"
  shows "polite (Recovery h)"
proof (rule politeI)
  fix r :: request and c :: "'a conn"
  obtain o' c1 where h: "h r c = (o', c1)" by (cases "h r c")
  then have w: "writes (resp c) (resp c1)" "\<exists>ls. log_out c1 = log_out c @ ls" "env c1 = env c"
    using assms by (metis polite_def snd_conv)+
  show "writes (resp c) (resp (snd (Recovery h r c))) \<and> (\<exists>ls. log_out (snd (Recovery h r c)) = log_out c @ ls)
      \<and> env (snd (Recovery h r c)) = env c"
    using w h by (cases o')
      (auto simp: Recovery_def Let_def header_set_def intro!: writes_body writes_status writes_header)
qed

lemma polite_AccessLog [inv_intros]:
  assumes "polite h"
  shows "polite (AccessLog h)"
proof (rule politeI)
  fix r :: request and c :: "'a conn"
  let ?c0 = "c\<lparr>resp := Observed new_observer (resp c)\<rparr>"
  obtain o' c1 where h: "h r ?c0 = (o', c1)" by (cases "h r ?c0")
  then have p: "writes (resp ?c0) (resp c1)" "\<exists>ls. log_out c1 = log_out ?c0 @ ls" "env c1 = env ?c0"
    using assms by (metis polite_def snd_conv)+
  from p(1) obtain ob w1 where "resp c1 = Observed ob w1" "writes (resp c) w1"
    using writes_Observed by force
  then show "writes (resp c) (resp (snd (AccessLog h r c))) \<and> (\<exists>ls. log_out (snd (AccessLog h r c)) = log_out c @ ls)
      \<and> env (snd (AccessLog h r c)) = env c"
    using p(2,3) h by (cases o') (auto simp: AccessLog_def Let_def)
qed

lemma polite_cors [inv_intros]:
  assumes "polite h"
  shows "polite (cors_Middleware cfg h)"
proof -
  have hd: "writes w (cors_headers cfg origin w)" for origin w
    unfolding cors_headers_def Let_def header_ops by (intro writes_header writes_refl)
  have h: "writes (resp c) (resp (snd (h r c))) \<and> (\<exists>ls. log_out (snd (h r c)) = log_out c @ ls)
      \<and> env (snd (h r c)) = env c" for r c
    using assms by (simp add: polite_def)
  have h1: "writes (resp c) (resp (snd (h r (on_resp (cors_headers cfg origin) c))))
      \<and> (\<exists>ls. log_out (snd (h r (on_resp (cors_headers cfg origin) c))) = log_out c @ ls)
      \<and> env (snd (h r (on_resp (cors_headers cfg origin) c))) = env c" for r c origin
    using h [of "on_resp (cors_headers cfg origin) c" r] hd by (auto intro: writes_trans)
  show ?thesis
    unfolding polite_def cors_eq Let_def
    using h h1 hd by (auto intro!: writes_http_Error intro: writes_status)
qed

section \<open>Generated identifiers\<close>

definition env_ok :: "env_reading \<Rightarrow> bool" where
  \<comment> \<open>\<open>rand.Read\<close> fills the eight bytes when it succeeds\<close>
  "env_ok e \<longleftrightarrow> (\<forall>bs. entropy e = Some bs \<longrightarrow> length bs = 8 \<and> (\<forall>b \<in> set bs. 0 \<le> b \<and> b < 256))"

lemma id_char_hex_digit:
  assumes "0 \<le> d" "d < 16"
  shows "id_char (hex_digit d)"
proof -
  have "of_char (hex_digit d) = (if d < 10 then 48 + d else 87 + d)"
    using assms by (simp add: hex_digit_def)
  then show ?thesis using assms by (simp add: id_char_def Let_def)
qed

lemma length_hex [simp]: "length (hex_EncodeToString bs) = 2 * length bs"
  by (induction bs) (simp_all add: hex_EncodeToString_def)

lemma hex_id_chars:
  "\<forall>b \<in> set bs. 0 \<le> b \<and> b < 256 \<Longrightarrow> list_all id_char (hex_EncodeToString bs)"
proof (induction bs)
  case (Cons b bs)
  then have "0 \<le> b div 16" "b div 16 < 16" by auto
  then show ?case using Cons by (simp add: hex_EncodeToString_def id_char_hex_digit)
qed (simp add: hex_EncodeToString_def)

lemma newRequestID_ok:
  assumes "env_ok e"
  shows "validRequestID (newRequestID e) \<and> length (newRequestID e) = 16"
proof -
  obtain bs where bs: "newRequestID e = hex_EncodeToString bs" "length bs = 8" "\<forall>b \<in> set bs. 0 \<le> b \<and> b < 256"
    using assms by (cases "entropy e") (auto simp: newRequestID_def env_ok_def Let_def)
  then have "length (newRequestID e) = 16" "newRequestID e \<noteq> ''''" by (simp, metis bs(1,2) length_hex list.size(3) mult_is_0 zero_neq_numeral)
  then show ?thesis using hex_id_chars [OF bs(3)] bs(1) by (simp add: validRequestID_def maxRequestIDLen_def)
qed

section \<open>Properties\<close>

text \<open>
  C34. Every request is served under a request identifier that is between 1 and 128 bytes of
  letters, digits and "-_.:", so it can be neither oversized nor break a log line or a header: the
  client's own one when it has that form, else a generated one of 16 hexadecimal digits. The
  handler sees it in the context and the client in the response header.
\<close>

theorem request_id_safe:
  assumes "env_ok (env c)"
  shows "\<exists>rid. RequestID next' r c =
      next' (r\<lparr>ctx_request_id := Some rid\<rparr>) (on_resp (header_set ''X-Request-Id'' rid) c)
    \<and> rid \<noteq> '''' \<and> length rid \<le> 128 \<and> list_all id_char rid
    \<and> (if validRequestID (rheader r ''X-Request-Id'') then rid = rheader r ''X-Request-Id'' else length rid = 16)
    \<and> RequestIDFromContext (r\<lparr>ctx_request_id := Some rid\<rparr>) = rid"
  using newRequestID_ok [OF assms]
  by (auto simp: RequestID_def Let_def validRequestID_def RequestIDFromContext_def maxRequestIDLen_def
      split: if_splits)

theorem request_id_safe_witness:
  "\<exists>rid. RequestID (\<lambda>_. respond id) (demo_request ''GET'' '''') (fresh_conn ())
      = respond id (on_resp (header_set ''X-Request-Id'' rid) (fresh_conn ())) \<and> length rid = 16"
  using request_id_safe [of "fresh_conn ()" "\<lambda>_. respond id" "demo_request ''GET'' ''''"]
  by (auto simp: env_ok_def demo_request_def validRequestID_def)

text \<open>
  C35. A request whose handler returns is logged in exactly one access line: the log is what the handler
  left of it and that line, and nothing else. The line is true to the response: the status that was
  committed (200 when the handler sent nothing) and exactly the body chunks the handler wrote; the
  client gets that status and, unless the request was a HEAD, that body. A request whose handler
  panics leaves no access line.
\<close>

theorem access_log_faithful:
  assumes "polite h" "observer_ok (resp c)" "sent (wire (resp c)) = None"
  shows "case h r (c\<lparr>resp := Observed new_observer (resp c)\<rparr>) of
      (Returned, d) \<Rightarrow> \<exists>c1 st body. AccessLog h r c = (Returned, c1)
        \<and> log_out c1 = log_out d @ [AccessLine (rmethod r) (logPath (rpath r)) st body (Milliseconds (elapsed (env c)))
              (RequestIDFromContext r) (clientIP r)]
        \<and> st = (case wire_status (resp c1) of Some code \<Rightarrow> code | None \<Rightarrow> 200)
        \<and> written (resp c1) = body
        \<and> wire_body (resp c1) = (if head_only (wire (resp c)) then [] else body)
        \<and> wire (resp c1) = wire (resp d) \<and> server_state c1 = server_state d
    | (Panicking v, d) \<Rightarrow> \<exists>c1. AccessLog h r c = (Panicking v, c1) \<and> log_out c1 = log_out d"
proof -
  let ?c0 = "c\<lparr>resp := Observed new_observer (resp c)\<rparr>"
  obtain o' c1 where h: "h r ?c0 = (o', c1)" by (cases "h r ?c0")
  have p: "writes (Observed new_observer (resp c)) (resp c1)" "env c1 = env c"
    using polite_at [OF assms(1) writes_refl, of ?c0 "log_out c" "env c" r] h by simp_all
  obtain ob w1 where w1: "resp c1 = Observed ob w1" "\<not> wroteHeader ob \<longrightarrow> status ob = 200"
    using writes_Observed [OF p(1) HOL.refl] by (auto simp: new_observer_def)
  have out0: "out (wire (resp c)) = []" using assms(2,3) by (cases "resp c") (auto simp: observer_ok_no_body)
  then have "observer_ok (Observed new_observer (resp c))"
    using assms(2,3) by (simp add: new_observer_def)
  then have ok: "observer_ok (Observed ob w1)" using writes_observer_ok [OF p(1)] w1(1) by simp
  then have "counted ob = written w1" "status ob = (case wire_status w1 of Some code \<Rightarrow> code | None \<Rightarrow> 200)"
    using w1(2) by (auto simp: written_def wire_status_def split: option.splits)
  moreover have "head_only (wire w1) = head_only (wire (resp c))" using writes_head_only [OF p(1)] w1(1) by simp
  ultimately show ?thesis
    using p(2) h w1(1) by (cases o') (simp_all add: AccessLog_def Let_def wire_body_def)
qed

theorem access_log_faithful_witness:
  "\<exists>c1. AccessLog (\<lambda>_. respond (http_Error cors_denied 403)) (demo_request ''GET'' '''') (fresh_conn ()) = (Returned, c1)
    \<and> log_out c1 = [AccessLine ''GET'' ''/metrics'' 403 [Text (cors_denied @ [CHR 0x0A])] (Milliseconds 0) '''' ''10.0.0.9'']"
proof -
  let ?h = "\<lambda>_. respond (http_Error cors_denied 403) :: unit conn \<Rightarrow> _"
  let ?r = "demo_request ''GET'' ''''"
  have pol: "polite ?h" by (rule polite_respond) (rule writes_http_Error)
  have ok: "observer_ok (resp (fresh_conn ()))" "sent (wire (resp (fresh_conn ()))) = None"
    by (simp_all add: fresh_writer_def)
  obtain c1 where c1: "AccessLog ?h ?r (fresh_conn ()) = (Returned, c1)"
    and w: "resp c1 = http_Error cors_denied 403 fresh_writer"
    by (simp add: AccessLog_def respond_def Let_def http_Error_def header_ops new_observer_def)
  have ip: "clientIP ?r = ''10.0.0.9''" by (simp add: clientIP_def demo_request_def) code_simp
  have "logPath (rpath ?r) = ''/metrics''" "rmethod ?r = ''GET''" "RequestIDFromContext ?r = ''''"
    by (simp_all add: demo_request_def logPath_def maxLogPathLen_def RequestIDFromContext_def)
  then show ?thesis
    using access_log_faithful [OF pol ok, of ?r] c1 ip
    by (auto simp: respond_def w http_Error_wire)
qed

text \<open>
  C36. \<open>Recovery\<close> turns a panic into a served request and logs it. If nothing was sent before the
  panic, the client gets status 500 with the JSON error document; if the response had been started,
  its status stays what it was and the error document is appended to the body already written.
\<close>

theorem recovery_answers:
  assumes "polite h" "observer_ok (resp c)" "h r c = (Panicking v, c1)"
  shows "fst (Recovery h r c) = Returned
    \<and> log_out (snd (Recovery h r c)) = log_out c1 @ [PanicLine v (logPath (rpath r)) (rmethod r)]
    \<and> written (resp (snd (Recovery h r c))) = written (resp c1) @ [Text internal_error]
    \<and> (case wire_status (resp c1) of
         None \<Rightarrow> wire_status (resp (snd (Recovery h r c))) = Some 500
           \<and> wire_header (resp (snd (Recovery h r c))) ''Content-Type'' = [''application/json'']
           \<and> written (resp c1) = []
       | Some code \<Rightarrow> wire_status (resp (snd (Recovery h r c))) = Some code)"
proof -
  have "writes (resp c) (resp c1)"
    using polite_at [OF assms(1) writes_refl HOL.refl HOL.refl, of c r] assms(3) by simp
  then have ok: "observer_ok (resp c1)" using assms(2) by (rule writes_observer_ok)
  then have ok1: "observer_ok (header_set k x (resp c1))" for k x by (simp add: header_set_def)
  have e: "Recovery h r c = respond (\<lambda>w. Write (Text internal_error) (WriteHeader 500
      (header_set ''Content-Type'' ''application/json'' w)))
      (c1\<lparr>log_out := log_out c1 @ [PanicLine v (logPath (rpath r)) (rmethod r)]\<rparr>)"
    by (simp add: Recovery_def assms(3) Let_def)
  show ?thesis
    using ok observer_ok_no_body [OF ok]
    by (auto simp: e wire_Write wire_WriteHeader [OF ok1] wire_status_def written_def wire_header_def
        split: option.splits)
qed

theorem recovery_answers_witness:
  "wire_status (resp (snd (Recovery (\<lambda>_ c. (Panicking ''boom'', c)) (demo_request ''GET'' '''') (fresh_conn ())))) = Some 500
   \<and> written (resp (snd (Recovery (\<lambda>_ c. (Panicking ''boom'', on_resp (Write (Text ''half'')) c))
       (demo_request ''GET'' '''') (fresh_conn ())))) = [Text ''half'', Text internal_error]"
proof -
  have a: "polite (\<lambda>_ c. (Panicking ''boom'', c) :: served \<times> unit conn)" by (simp add: polite_def)
  have b: "polite (\<lambda>_ c. (Panicking ''boom'', on_resp (Write (Text ''half'')) c) :: served \<times> unit conn)"
    by (simp add: polite_def writes_ops)
  have ok: "observer_ok (resp (fresh_conn ()))" by (simp add: fresh_writer_def)
  have st: "wire_status fresh_writer = None" "written (Write (Text ''half'') fresh_writer) = [Text ''half'']"
    by (simp_all add: wire_status_def written_def wire_Write_unsent) (simp add: fresh_writer_def)
  show ?thesis
    using recovery_answers [OF a ok HOL.refl, of "demo_request ''GET'' ''''"]
      recovery_answers [OF b ok HOL.refl, of "demo_request ''GET'' ''''"] st
    by simp
qed

end
