(* ===== verification/Rate_Limit.thy ===== *)
theory Rate_Limit
  imports Middleware
begin

text \<open>
  The per-client rate limiter of \<^verbatim>\<open>internal/middleware/ratelimit.go\<close>. The token bucket is the
  third-party type \<open>rate.Limiter\<close>: its three operations are a record of functions the model takes
  as an argument, and its values are kept in a store, since the table and the requests share them
  by pointer. The table of clients, its clean-up and the middleware are modelled in full.
\<close>

section \<open>The limiter type of golang.org/x/time/rate, as an argument\<close>

record reservation =
  rsv_OK :: bool
  rsv_Delay :: duration
  rsv_Act :: instant
  \<comment> \<open>\<open>rsv_Delay\<close> is what \<open>Delay()\<close> returns right after \<open>Reserve()\<close>; \<open>rsv_Act\<close>, the moment the reserved event
     may happen, is for \<open>Cancel\<close> to go by\<close>

record 'l limiter_api =
  NewLimiter :: "f64 \<Rightarrow> int \<Rightarrow> 'l"
  Reserve :: "instant \<Rightarrow> 'l \<Rightarrow> reservation \<times> 'l"
  Cancel :: "instant \<Rightarrow> reservation \<Rightarrow> 'l \<Rightarrow> 'l"

section \<open>The table of clients\<close>

record rate_config =
  Enabled :: bool
  RequestsPerSecond :: f64
  Burst :: int
  TrustProxyHeaders :: bool
  ExemptPaths :: "string list"
  IdleEvictAfter :: duration
  CleanupInterval :: duration

record ip_entry =
  lim_ptr :: nat
  lastSeen :: instant

record 'l rate_limiter =
  byIP :: "string \<rightharpoonup> ip_entry"
  limiters :: "'l list"
  \<comment> \<open>\<open>lim_ptr\<close> is an index into \<open>limiters\<close>, every limiter ever allocated\<close>

definition new_table :: "'l rate_limiter" where
  "new_table = \<lparr>byIP = Map.empty, limiters = []\<rparr>"

definition limiterFor ::
  "'l limiter_api \<Rightarrow> rate_config \<Rightarrow> instant \<Rightarrow> string
     \<Rightarrow> ('l, 'm) rate_limiter_scheme \<Rightarrow> nat \<times> ('l, 'm) rate_limiter_scheme" where
  "limiterFor api cfg now ip rl =
     (case byIP rl ip of
        Some e \<Rightarrow> (lim_ptr e, rl\<lparr>byIP := (byIP rl)(ip \<mapsto> e\<lparr>lastSeen := now\<rparr>)\<rparr>)
      | None \<Rightarrow>
        let l = length (limiters rl)
        in (l, rl\<lparr>byIP := (byIP rl)(ip \<mapsto> \<lparr>lim_ptr = l, lastSeen = now\<rparr>),
                  limiters := limiters rl @ [NewLimiter api (RequestsPerSecond cfg) (Burst cfg)]\<rparr>))"

definition cleanup ::
  "instant \<Rightarrow> duration \<Rightarrow> ('l, 'm) rate_limiter_scheme \<Rightarrow> ('l, 'm) rate_limiter_scheme" where
  \<comment> \<open>one tick of \<open>cleanupLoop\<close>\<close>
  "cleanup now idle rl =
     (let cutoff = time_add now (- idle)
      in rl\<lparr>byIP := (\<lambda>ip. case byIP rl ip of
            None \<Rightarrow> None
          | Some e \<Rightarrow> if before (lastSeen e) cutoff then None else Some e)\<rparr>)"

datatype cleanup_event = CleanupTick instant | CleanupDone
  \<comment> \<open>what \<open>select\<close> picks: the ticker, with the clock read then, or the cancelled context\<close>

primrec on_cleanup_tick ::
  "duration \<Rightarrow> cleanup_event \<Rightarrow> (('l, 'm) rate_limiter_scheme \<Rightarrow> ('l, 'm) rate_limiter_scheme) option" where
  "on_cleanup_tick idle (CleanupTick now) = Some (cleanup now idle)"
| "on_cleanup_tick idle CleanupDone = None"

definition cleanupLoop ::
  "duration \<Rightarrow> (nat \<Rightarrow> cleanup_event) \<Rightarrow> ('l, 'm) rate_limiter_scheme \<Rightarrow> ('l, 'm) rate_limiter_scheme option" where
  \<comment> \<open>\<open>ch k\<close> is what the \<open>k\<close>-th \<open>select\<close> picks; \<open>None\<close> when the goroutine does not end\<close>
  "cleanupLoop idle ch = until_done (\<lambda>k. on_cleanup_tick idle (ch k)) 0"

definition rate_clientIP :: "rate_config \<Rightarrow> request \<Rightarrow> string" where
  "rate_clientIP cfg r =
     (let fallback = (case SplitHostPort (remote_addr r) of None \<Rightarrow> remote_addr r | Some (h, _) \<Rightarrow> h)
      in if TrustProxyHeaders cfg then
           let xff = rheader r ''X-Forwarded-For''
           in if xff \<noteq> '''' then
                let comma = index_byte (CHR '','') xff;
                    xff = (if 0 \<le> comma then take (nat comma) xff else xff);
                    xff = TrimSpace xff
                in if xff \<noteq> '''' then xff else fallback
              else fallback
         else fallback)"

definition rate_deny :: "writer \<Rightarrow> writer" where
  "rate_deny w =
     (let w1 = header_set ''Content-Type'' ''application/json'' w;
          w2 = WriteHeader 429 w1
      in Encode (JObject [(''error'', JString ''rate_limited'')]) w2)"

definition with_defaults :: "rate_config \<Rightarrow> rate_config" where
  "with_defaults cfg =
     (let c1 = (if IdleEvictAfter cfg \<le> 0 then cfg\<lparr>IdleEvictAfter := 10 * minute\<rparr> else cfg)
      in if CleanupInterval c1 \<le> 0 then c1\<lparr>CleanupInterval := minute\<rparr> else c1)"

definition limits :: "rate_config \<Rightarrow> bool" where
  \<comment> \<open>the middleware is not the identity\<close>
  "limits cfg \<longleftrightarrow> \<not> (\<not> Enabled cfg \<or> f64_le (RequestsPerSecond cfg) (Fin 0) \<or> Burst cfg \<le> 0)"

definition RateLimit ::
  "'l limiter_api \<Rightarrow> rate_config \<Rightarrow> ('l, 'm) rate_limiter_scheme handler
     \<Rightarrow> ('l, 'm) rate_limiter_scheme handler" where
  \<comment> \<open>the server's state extends the table\<close>
  "RateLimit api cfg0 next' r c =
     (if \<not> limits cfg0 then next' r c
      else let cfg = with_defaults cfg0
      in if rpath r \<in> set (ExemptPaths cfg) then next' r c
      else let now = clock_now (env c);
               ip = rate_clientIP cfg r;
               (l, rl1) = limiterFor api cfg now ip (server_state c);
               (rsv, b) = Reserve api now (limiters rl1 ! l);
               c1 = c\<lparr>server_state := rl1\<lparr>limiters := (limiters rl1)[l := b]\<rparr>\<rparr>
      in if \<not> rsv_OK rsv then respond rate_deny c1
         else if 0 < rsv_Delay rsv then
           let c2 = c1\<lparr>server_state := rl1\<lparr>limiters := (limiters rl1)[l := Cancel api now rsv b]\<rparr>\<rparr>
           in respond (\<lambda>w. rate_deny (header_set ''Retry-After'' (Itoa (int_Seconds (rsv_Delay rsv) + 1)) w)) c2
         else next' r c1)"

section \<open>Invariant of the table\<close>

text \<open>Different clients own different, allocated limiters.\<close>

definition table_inv :: "('l, 'm) rate_limiter_scheme \<Rightarrow> bool" where
  "table_inv rl \<longleftrightarrow>
     (\<forall>ip e. byIP rl ip = Some e \<longrightarrow> lim_ptr e < length (limiters rl))
     \<and> (\<forall>ip1 ip2 e1 e2. byIP rl ip1 = Some e1 \<longrightarrow> byIP rl ip2 = Some e2 \<longrightarrow> lim_ptr e1 = lim_ptr e2 \<longrightarrow> ip1 = ip2)"

definition client_limiter :: "('l, 'm) rate_limiter_scheme \<Rightarrow> string \<Rightarrow> 'l option" where
  "client_limiter rl ip = map_option (\<lambda>e. limiters rl ! lim_ptr e) (byIP rl ip)"

lemma table_inv_new [inv_intros]: "table_inv new_table"
  by (simp add: table_inv_def new_table_def)

lemma table_inv_update [inv_intros]:
  "table_inv rl \<Longrightarrow> table_inv (rl\<lparr>limiters := (limiters rl)[l := b]\<rparr>)"
  by (auto simp: table_inv_def)

lemma cleanup_byIP:
  "byIP (cleanup now idle rl) ip = Some e \<longleftrightarrow> byIP rl ip = Some e \<and> now - idle \<le> lastSeen e"
  by (auto simp: cleanup_def Let_def time_add_def before_def split: option.splits if_splits)

lemma cleanup_limiters [simp]: "limiters (cleanup now idle rl) = limiters rl"
  by (simp add: cleanup_def Let_def)

lemma table_inv_cleanup [inv_intros]: "table_inv rl \<Longrightarrow> table_inv (cleanup now idle rl)"
  unfolding table_inv_def cleanup_byIP cleanup_limiters by blast

lemma on_cleanup_tick_None [simp]: "on_cleanup_tick idle e = None \<longleftrightarrow> e = CleanupDone"
  by (cases e) simp_all

lemma cleanups_work:
  assumes "\<forall>i < n. ch i = CleanupTick (ts i)"
  shows "work_of (\<lambda>k. on_cleanup_tick idle (ch k)) 0 n rl = fold (\<lambda>t. cleanup t idle) (map ts [0..<n]) rl"
  using assms by (induction n arbitrary: rl) (simp_all add: work_of_def)

lemma client_limiter_update:
  "(\<And>e. byIP rl ip = Some e \<Longrightarrow> lim_ptr e \<noteq> l) \<Longrightarrow>
     client_limiter (rl\<lparr>limiters := (limiters rl)[l := b]\<rparr>) ip = client_limiter rl ip"
  by (cases "byIP rl ip") (auto simp: client_limiter_def)

lemma limiterFor_props:
  assumes "table_inv rl" "limiterFor api cfg now ip rl = (l, rl1)"
  shows "table_inv rl1 \<and> byIP rl1 ip = Some \<lparr>lim_ptr = l, lastSeen = now\<rparr> \<and> l < length (limiters rl1)
    \<and> limiters rl1 ! l = (case client_limiter rl ip of Some b \<Rightarrow> b
        | None \<Rightarrow> NewLimiter api (RequestsPerSecond cfg) (Burst cfg))
    \<and> (\<forall>ip' \<noteq> ip. byIP rl1 ip' = byIP rl ip' \<and> client_limiter rl1 ip' = client_limiter rl ip'
         \<and> (\<forall>e. byIP rl ip' = Some e \<longrightarrow> lim_ptr e \<noteq> l))"
proof (cases "byIP rl ip")
  case None
  have old: "byIP rl i = Some e \<Longrightarrow> lim_ptr e < length (limiters rl)" for i e
    using assms(1) by (simp add: table_inv_def)
  have inj: "byIP rl i = Some e \<Longrightarrow> byIP rl j = Some f \<Longrightarrow> lim_ptr e = lim_ptr f \<Longrightarrow> i = j" for i j e f
    using assms(1) unfolding table_inv_def by blast
  have rl1: "l = length (limiters rl)" "rl1 = rl\<lparr>byIP := (byIP rl)(ip \<mapsto> \<lparr>lim_ptr = l, lastSeen = now\<rparr>),
      limiters := limiters rl @ [NewLimiter api (RequestsPerSecond cfg) (Burst cfg)]\<rparr>"
    using assms(2) None by (auto simp: limiterFor_def Let_def)
  have "table_inv rl1"
    unfolding table_inv_def rl1(2) using old inj rl1(1)
    by (auto simp: less_Suc_eq split: if_splits) (metis less_irrefl)+
  moreover have "client_limiter rl1 i = client_limiter rl i" if "i \<noteq> ip" for i
    using old that by (cases "byIP rl i") (auto simp: client_limiter_def rl1 nth_append)
  moreover have "byIP rl i = Some e \<Longrightarrow> lim_ptr e \<noteq> length (limiters rl)" for i e
    using old by (metis less_irrefl)
  ultimately show ?thesis
    using None by (auto simp: rl1 client_limiter_def)
next
  case (Some e)
  have old: "byIP rl i = Some e \<Longrightarrow> lim_ptr e < length (limiters rl)" for i e
    using assms(1) by (simp add: table_inv_def)
  have inj: "byIP rl i = Some e \<Longrightarrow> byIP rl j = Some f \<Longrightarrow> lim_ptr e = lim_ptr f \<Longrightarrow> i = j" for i j e f
    using assms(1) unfolding table_inv_def by blast
  have entry: "\<lparr>lim_ptr = lim_ptr e, lastSeen = now\<rparr> = e\<lparr>lastSeen := now\<rparr>" by (cases e) simp
  have rl1: "l = lim_ptr e" "rl1 = rl\<lparr>byIP := (byIP rl)(ip \<mapsto> \<lparr>lim_ptr = l, lastSeen = now\<rparr>)\<rparr>"
    using assms(2) Some by (auto simp: limiterFor_def entry)
  have "table_inv rl1"
    unfolding table_inv_def rl1(2) using old inj Some rl1(1)
    by (auto split: if_splits)
  then show ?thesis
    using Some old inj by (auto simp: rl1 client_limiter_def)
qed

section \<open>Responses\<close>

lemma writes_rate_deny: "writes w (rate_deny w)"
  unfolding rate_deny_def Let_def Encode_def header_ops
  by (simp add: writes_body writes_status writes_header)

lemma rate_deny_wire:
  assumes "unsent w"
  shows "wire_status (rate_deny w) = Some 429"
    "written (rate_deny w) = [Doc (JObject [(''error'', JString ''rate_limited'')])]"
    "wire_header (rate_deny w) k = (if k = ''Content-Type'' then [''application/json''] else live (wire w) k)"
proof -
  let ?v = "WriteHeader 429 (header_set ''Content-Type'' ''application/json'' w)"
  have u: "unsent (header_set ''Content-Type'' ''application/json'' w)" using assms by simp
  have v: "sent (wire ?v) = Some (429, (live (wire w))(''Content-Type'' := [''application/json'']))"
    "out (wire ?v) = []"
    using unsent_wire [OF u] by (simp_all add: wire_WriteHeader_unsent [OF u])
  show "wire_status (rate_deny w) = Some 429"
    "written (rate_deny w) = [Doc (JObject [(''error'', JString ''rate_limited'')])]"
    "wire_header (rate_deny w) k = (if k = ''Content-Type'' then [''application/json''] else live (wire w) k)"
    using v by (simp_all add: rate_deny_def Let_def Encode_def wire_status_def written_def wire_header_def
        wire_Write)
qed

lemma polite_RateLimit [inv_intros]:
  assumes "polite h"
  shows "polite (RateLimit api cfg h)"
proof (rule politeI)
  fix r :: request and c :: "('a, 'b) rate_limiter_scheme conn"
  have p: "writes (resp c) (resp (snd (h r d))) \<and> (\<exists>ls. log_out (snd (h r d)) = log_out c @ ls) \<and> env (snd (h r d)) = env c"
    if "resp d = resp c" "log_out d = log_out c" "env d = env c" for d
    using polite_at [OF assms, of "resp c" d "log_out c" "env c" r] that by simp
  have w: "writes (resp c) (rate_deny (header_set k v (resp c)))" for k v
    using writes_trans [OF writes_rate_deny] by (simp add: writes_ops)
  show "writes (resp c) (resp (snd (RateLimit api cfg h r c)))
      \<and> (\<exists>ls. log_out (snd (RateLimit api cfg h r c)) = log_out c @ ls) \<and> env (snd (RateLimit api cfg h r c)) = env c"
    using p w writes_rate_deny by (auto simp: RateLimit_def Let_def split: prod.splits)
qed

section \<open>Properties\<close>

text \<open>
  The table always gives different clients different buckets, and a request of one client
  leaves the entry and the bucket of every other client untouched, whether it is admitted or denied
  and whatever its bucket answers; exempt paths and a disabled limiter touch no bucket at all.
\<close>

theorem rate_limit_isolates:
  assumes "table_inv (server_state c)"
  shows "case RateLimit api cfg (\<lambda>_. respond f) r c of (_, c1) \<Rightarrow>
    table_inv (server_state c1)
    \<and> (\<forall>ip \<noteq> rate_clientIP (with_defaults cfg) r.
         byIP (server_state c1) ip = byIP (server_state c) ip
         \<and> client_limiter (server_state c1) ip = client_limiter (server_state c) ip)
    \<and> (\<not> limits cfg \<or> rpath r \<in> set (ExemptPaths cfg) \<longrightarrow> server_state c1 = server_state c)"
proof -
  let ?cfg = "with_defaults cfg" and ?now = "clock_now (env c)"
  have ex: "ExemptPaths ?cfg = ExemptPaths cfg" by (simp add: with_defaults_def Let_def)
  show ?thesis
  proof (cases "\<not> limits cfg \<or> rpath r \<in> set (ExemptPaths cfg)")
    case True
    then have "RateLimit api cfg (\<lambda>_. respond f) r c = respond f c" by (auto simp: RateLimit_def ex Let_def)
    then show ?thesis using assms by (simp add: respond_def)
  next
    case False
    obtain l rl1 where rl1: "limiterFor api ?cfg ?now (rate_clientIP ?cfg r) (server_state c) = (l, rl1)"
      by (cases "limiterFor api ?cfg ?now (rate_clientIP ?cfg r) (server_state c)")
    note P = limiterFor_props [OF assms rl1]
    have upd: "table_inv (rl1\<lparr>limiters := (limiters rl1)[l := b]\<rparr>)
        \<and> (\<forall>ip \<noteq> rate_clientIP ?cfg r. byIP rl1 ip = byIP (server_state c) ip
            \<and> client_limiter (rl1\<lparr>limiters := (limiters rl1)[l := b]\<rparr>) ip = client_limiter (server_state c) ip)" for b
    proof -
      have "client_limiter (rl1\<lparr>limiters := (limiters rl1)[l := b]\<rparr>) ip = client_limiter rl1 ip"
        if "ip \<noteq> rate_clientIP ?cfg r" for ip
        using P that by (intro client_limiter_update) auto
      then show ?thesis using P by (simp add: table_inv_update)
    qed
    obtain rsv b where b: "Reserve api ?now (limiters rl1 ! l) = (rsv, b)"
      by (cases "Reserve api ?now (limiters rl1 ! l)")
    show ?thesis
      using False upd by (auto simp: RateLimit_def Let_def ex rl1 b respond_def)
  qed
qed

text \<open>
  A request whose bucket says "wait \<open>d\<close>" is not served: the client gets 429, the JSON
  denial and a Retry-After of so many whole seconds that waiting them is longer than \<open>d\<close> and at
  most a second too long.
\<close>

theorem rate_limit_retry_after:
  assumes "limits cfg" "rpath r \<notin> set (ExemptPaths cfg)" "unsent (resp c)"
    and "limiterFor api (with_defaults cfg) (clock_now (env c)) (rate_clientIP (with_defaults cfg) r)
          (server_state c) = (l, rl1)"
    and "Reserve api (clock_now (env c)) (limiters rl1 ! l) = (\<lparr>rsv_OK = True, rsv_Delay = d, rsv_Act = act\<rparr>, b)"
    and "0 < d" "d < 8388608 * second"
  shows "\<exists>secs c1. RateLimit api cfg next' r c = (Returned, c1)
    \<and> wire_status (resp c1) = Some 429
    \<and> written (resp c1) = [Doc (JObject [(''error'', JString ''rate_limited'')])]
    \<and> wire_header (resp c1) ''Retry-After'' = [Itoa secs]
    \<and> d < secs * second \<and> secs * second \<le> d + second
    \<and> limiters (server_state c1) = (limiters rl1)[l := Cancel api (clock_now (env c)) \<lparr>rsv_OK = True, rsv_Delay = d, rsv_Act = act\<rparr> b]"
proof -
  let ?f = "\<lambda>w. rate_deny (header_set ''Retry-After'' (Itoa (int_Seconds d + 1)) w)"
  let ?c2 = "c\<lparr>server_state := rl1\<lparr>limiters := (limiters rl1)[l := Cancel api (clock_now (env c))
      \<lparr>rsv_OK = True, rsv_Delay = d, rsv_Act = act\<rparr> b]\<rparr>\<rparr>"
  have ex: "ExemptPaths (with_defaults cfg) = ExemptPaths cfg" by (simp add: with_defaults_def Let_def)
  have e: "RateLimit api cfg next' r c = (Returned, on_resp ?f ?c2)"
    using assms(1,2,6) by (simp add: RateLimit_def Let_def ex assms(4,5) respond_def)
  have secs: "int_Seconds d = d div second" using assms(6,7) by (intro int_Seconds_exact) simp_all
  define q m where "q = d div second" and "m = d mod second"
  have "d = q * second + m" "0 \<le> m" "m < second" by (simp_all add: q_def m_def)
  then have up: "d < (q + 1) * second" and lo: "(q + 1) * second \<le> d + second" by simp_all
  then show ?thesis
    using assms(3) up lo by (intro exI [of _ "q + 1"] exI [of _ "on_resp ?f ?c2"])
      (simp add: e rate_deny_wire secs q_def)
qed

text \<open>A token bucket of one token per second that stands for the third-party type in the witnesses.\<close>

definition toy_api :: "(instant \<times> int) limiter_api" where
  "toy_api = \<lparr>NewLimiter = (\<lambda>rps burst. (0, burst)),
     Reserve = (\<lambda>now (t, k). if 0 < k then (\<lparr>rsv_OK = True, rsv_Delay = 0, rsv_Act = now\<rparr>, (now, k - 1))
                             else (\<lparr>rsv_OK = True, rsv_Delay = 1500 * millisecond,
                                rsv_Act = now + 1500 * millisecond\<rparr>, (now, k - 1))),
     Cancel = (\<lambda>now rsv (t, k). (t, k + 1))\<rparr>"

definition demo_rate :: rate_config where
  "demo_rate = \<lparr>Enabled = True, RequestsPerSecond = Fin 1, Burst = 1, TrustProxyHeaders = False,
     ExemptPaths = [''/health''], IdleEvictAfter = 0, CleanupInterval = 0\<rparr>"

definition spent_table :: "(instant \<times> int) rate_limiter" where
  "spent_table = \<lparr>byIP = [''10.0.0.9'' \<mapsto> \<lparr>lim_ptr = 0, lastSeen = 0\<rparr>], limiters = [(0, 0)]\<rparr>"

lemma demo_limits: "limits demo_rate"
  by (simp add: limits_def demo_rate_def f64_le_def)

lemma demo_ip: "rate_clientIP (with_defaults demo_rate) (demo_request meth origin) = ''10.0.0.9''"
proof -
  have "SplitHostPort ''10.0.0.9:4711'' = Some (''10.0.0.9'', ''4711'')" by code_simp
  then show ?thesis by (simp add: rate_clientIP_def demo_request_def with_defaults_def demo_rate_def Let_def)
qed

theorem rate_limit_isolates_witness:
  "byIP (server_state (snd (RateLimit toy_api demo_rate (\<lambda>_. respond id) (demo_request ''GET'' '''') (fresh_conn spent_table)))) ''10.0.0.8'' = None"
proof -
  have "table_inv (server_state (fresh_conn spent_table))" by (simp add: table_inv_def spent_table_def)
  from rate_limit_isolates [OF this, where api = toy_api and cfg = demo_rate and f = id and r = "demo_request ''GET'' ''''"] show ?thesis
    by (auto simp: demo_ip) (simp_all add: spent_table_def)
qed

theorem rate_limit_retry_after_witness:
  "\<exists>secs c1. RateLimit toy_api demo_rate (\<lambda>_. respond id) (demo_request ''GET'' '''') (fresh_conn spent_table) = (Returned, c1)
    \<and> wire_status (resp c1) = Some 429 \<and> 1500 * millisecond < secs * second \<and> secs * second \<le> 2500 * millisecond"
proof -
  have lf: "limiterFor toy_api (with_defaults demo_rate) (clock_now (env (fresh_conn spent_table)))
      (rate_clientIP (with_defaults demo_rate) (demo_request ''GET'' '''')) (server_state (fresh_conn spent_table))
      = (0, spent_table)"
    unfolding demo_ip by (simp add: limiterFor_def) (simp add: spent_table_def)
  have rs: "Reserve toy_api (clock_now (env (fresh_conn spent_table))) (limiters spent_table ! 0)
      = (\<lparr>rsv_OK = True, rsv_Delay = 1500 * millisecond, rsv_Act = 1500 * millisecond\<rparr>, (0, -1))"
    by (simp add: toy_api_def spent_table_def)
  have "rpath (demo_request ''GET'' '''') \<notin> set (ExemptPaths demo_rate)" by (simp add: demo_rate_def demo_request_def)
  from rate_limit_retry_after [OF demo_limits this _ lf rs, of "\<lambda>_. respond id"] show ?thesis by auto
qed

text \<open>
  Without trusted proxies the bucket of a request is chosen by the peer address alone: no
  header of the request can change it. With trusted proxies it is the first entry of
  X-Forwarded-For without surrounding white space, and the peer address when that is empty.
\<close>

theorem rate_client_key:
  "(\<not> TrustProxyHeaders cfg \<longrightarrow> rate_clientIP cfg (r\<lparr>rheader := h\<rparr>) = rate_clientIP cfg r \<and> rate_clientIP cfg r = clientIP r)
   \<and> (TrustProxyHeaders cfg \<and> CHR '','' \<notin> set first \<longrightarrow>
       rate_clientIP cfg (r\<lparr>rheader := (rheader r)(''X-Forwarded-For'' := first @ CHR '','' # others)\<rparr>)
         = (if TrimSpace first = '''' then clientIP r else TrimSpace first))"
proof -
  have i: "index_byte (CHR '','') (first @ CHR '','' # others) = int (length first)" if "CHR '','' \<notin> set first"
    using that by (rule index_byte_append)
  have c: "clientIP (r\<lparr>rheader := h'\<rparr>) = clientIP r" for h' by (simp add: clientIP_def split: option.splits)
  have f: "rate_clientIP cfg (r\<lparr>rheader := h'\<rparr>) =
      (if TrustProxyHeaders cfg then
         let xff = h' ''X-Forwarded-For'';
             xff = TrimSpace (if 0 \<le> index_byte (CHR '','') xff then take (nat (index_byte (CHR '','') xff)) xff else xff)
         in if h' ''X-Forwarded-For'' \<noteq> '''' \<and> xff \<noteq> '''' then xff else clientIP r
       else clientIP r)" for h'
    by (auto simp: rate_clientIP_def clientIP_def Let_def split: option.splits)
  have "rate_clientIP cfg r = rate_clientIP cfg (r\<lparr>rheader := rheader r\<rparr>)" by simp
  then show ?thesis
    using i unfolding f by (auto simp: Let_def)
qed

theorem rate_client_key_witness:
  "rate_clientIP (demo_rate\<lparr>TrustProxyHeaders := True\<rparr>)
     ((demo_request ''GET'' '''')\<lparr>rheader := (\<lambda>_. '''')(''X-Forwarded-For'' := ''1.2.3.4'' @ CHR '','' # '' 10.0.0.1'')\<rparr>) = ''1.2.3.4''
   \<and> rate_clientIP demo_rate ((demo_request ''GET'' '''')\<lparr>rheader := (\<lambda>_. ''1.2.3.4'')\<rparr>) = ''10.0.0.9''"
proof -
  have t: "TrimSpace ''1.2.3.4'' = ''1.2.3.4''" by code_simp
  have ip: "clientIP (demo_request ''GET'' '''') = ''10.0.0.9''" by (simp add: clientIP_def demo_request_def) code_simp
  have tr: "TrustProxyHeaders (demo_rate\<lparr>TrustProxyHeaders := True\<rparr>)" "\<not> TrustProxyHeaders demo_rate"
    by (simp_all add: demo_rate_def)
  have hd: "(demo_request ''GET'' '''')\<lparr>rheader := (\<lambda>_. '''')(''X-Forwarded-For'' := x)\<rparr>
      = (demo_request ''GET'' '''')\<lparr>rheader := (rheader (demo_request ''GET'' ''''))(''X-Forwarded-For'' := x)\<rparr>" for x
    by (auto simp: demo_request_def)
  show ?thesis
    unfolding hd
    using rate_client_key [where cfg = "demo_rate\<lparr>TrustProxyHeaders := True\<rparr>" and r = "demo_request ''GET'' ''''"
        and first = "''1.2.3.4''" and others = "'' 10.0.0.1''"]
      rate_client_key [where cfg = demo_rate and r = "demo_request ''GET'' ''''" and h = "\<lambda>_. ''1.2.3.4''"] t ip tr
    by simp
qed

text \<open>
  Clean-up drops exactly the clients not seen within the idle time and touches no bucket, so a
  client that keeps asking keeps its bucket, and a dropped one starts with a new bucket.
\<close>

theorem rate_cleanup:
  assumes "table_inv rl"
  shows "table_inv (cleanup now idle rl)
    \<and> (\<forall>ip e. byIP rl ip = Some e \<longrightarrow>
         (if now - idle \<le> lastSeen e
          then byIP (cleanup now idle rl) ip = Some e \<and> client_limiter (cleanup now idle rl) ip = client_limiter rl ip
          else byIP (cleanup now idle rl) ip = None
            \<and> limiters (snd (limiterFor api cfg now ip (cleanup now idle rl)))
                = limiters rl @ [NewLimiter api (RequestsPerSecond cfg) (Burst cfg)]))
    \<and> (\<forall>ip. byIP rl ip = None \<longrightarrow> byIP (cleanup now idle rl) ip = None)"
proof -
  have drop: "byIP (cleanup now idle rl) ip = None" if "byIP rl ip = Some e" "\<not> now - idle \<le> lastSeen e" for ip e
    using that by (simp add: cleanup_def Let_def time_add_def before_def)
  have none: "byIP (cleanup now idle rl) ip = None" if "byIP rl ip = None" for ip
    using that by (simp add: cleanup_def Let_def time_add_def before_def)
  have keep: "byIP (cleanup now idle rl) ip = Some e" if "byIP rl ip = Some e" "now - idle \<le> lastSeen e" for ip e
    using that by (simp add: cleanup_byIP)
  have new: "limiters (snd (limiterFor api cfg now ip (cleanup now idle rl)))
      = limiters rl @ [NewLimiter api (RequestsPerSecond cfg) (Burst cfg)]"
    if "byIP (cleanup now idle rl) ip = None" for ip
    using that by (simp add: limiterFor_def Let_def)
  have same: "client_limiter (cleanup now idle rl) ip = client_limiter rl ip"
    if "byIP rl ip = Some e" "now - idle \<le> lastSeen e" for ip e
    using keep [OF that] that(1) by (simp add: client_limiter_def)
  show ?thesis
  proof (intro conjI allI impI)
    show "table_inv (cleanup now idle rl)" by (rule table_inv_cleanup [OF assms])
    fix ip e assume "byIP rl ip = Some e"
    then show "if now - idle \<le> lastSeen e
        then byIP (cleanup now idle rl) ip = Some e \<and> client_limiter (cleanup now idle rl) ip = client_limiter rl ip
        else byIP (cleanup now idle rl) ip = None
          \<and> limiters (snd (limiterFor api cfg now ip (cleanup now idle rl)))
              = limiters rl @ [NewLimiter api (RequestsPerSecond cfg) (Burst cfg)]"
      using keep same drop new by simp
  qed (rule none)
qed

theorem rate_cleanup_witness:
  "byIP (cleanup (700 * second) (600 * second) spent_table) ''10.0.0.9'' = None"
proof -
  have inv: "table_inv spent_table" by (simp add: table_inv_def spent_table_def)
  have e: "byIP spent_table ''10.0.0.9'' = Some \<lparr>lim_ptr = 0, lastSeen = 0\<rparr>" by (simp add: spent_table_def)
  show ?thesis
    using rate_cleanup [OF inv, THEN conjunct2, THEN conjunct1, rule_format, OF e, of "700 * second" "600 * second" toy_api demo_rate]
    by simp
qed

end
