(* ===== verification/Config.thy ===== *)
theory Config
  imports Cors
begin

text \<open>
  The configuration (\<^verbatim>\<open>internal/config/config.go\<close>): its structure, the defaults, the validation and
  \<open>Load\<close>. Reading the file and decoding its YAML are third-party; their outcome is an argument of
  \<open>Load\<close>. Validation is shown equivalent to a declarative well-formedness predicate.
\<close>

section \<open>Structure\<close>

record server_config =
  Host :: string
  Port :: int

record sampler_config =
  Interval :: duration
  HistoryCapacity :: int

record mount_point_config =
  Path :: string
  Alias :: string

record storage_config =
  sEnabled :: bool
  MountPoints :: "mount_point_config list"

record modules_config =
  CPU_Enabled :: bool
  Memory_Enabled :: bool
  GPU_Enabled :: bool
  StorageCfg :: storage_config

record cors_section =
  csEnabled :: bool
  csAllowedOrigins :: "string list"
  csAllowMethods :: "string list"
  csAllowHeaders :: "string list"
  csMaxAgeSeconds :: int

record rate_limit_section =
  rsEnabled :: bool
  rsRequestsPerSecond :: f64
  rsBurst :: int
  rsTrustProxyHeaders :: bool
  rsExemptPaths :: "string list"

record logging_config =
  Level :: string
  Format :: string

record config =
  ServerCfg :: server_config
  Sampler :: sampler_config
  Modules :: modules_config
  CORS :: cors_section
  RateLimitCfg :: rate_limit_section
  Logging :: logging_config

definition zero_config :: config where
  "zero_config = \<lparr>ServerCfg = \<lparr>Host = '''', Port = 0\<rparr>,
     Sampler = \<lparr>Interval = 0, HistoryCapacity = 0\<rparr>,
     Modules = \<lparr>CPU_Enabled = False, Memory_Enabled = False, GPU_Enabled = False,
                StorageCfg = \<lparr>sEnabled = False, MountPoints = []\<rparr>\<rparr>,
     CORS = \<lparr>csEnabled = False, csAllowedOrigins = [], csAllowMethods = [], csAllowHeaders = [],
             csMaxAgeSeconds = 0\<rparr>,
     RateLimitCfg = \<lparr>rsEnabled = False, rsRequestsPerSecond = Fin 0, rsBurst = 0,
                     rsTrustProxyHeaders = False, rsExemptPaths = []\<rparr>,
     Logging = \<lparr>Level = '''', Format = ''''\<rparr>\<rparr>"

section \<open>Defaults\<close>

definition default_server :: "server_config \<Rightarrow> server_config" where
  "default_server s = (if Host s = '''' then s\<lparr>Host := ''127.0.0.1''\<rparr> else s)"

definition default_sampler :: "sampler_config \<Rightarrow> sampler_config" where
  "default_sampler s =
     (let s1 = (if Interval s = 0 then s\<lparr>Interval := second\<rparr> else s)
      in if HistoryCapacity s1 \<le> 0 then s1\<lparr>HistoryCapacity := 60\<rparr> else s1)"

definition default_cors :: "cors_section \<Rightarrow> cors_section" where
  "default_cors s =
     (let s1 = (if csMaxAgeSeconds s = 0 then s\<lparr>csMaxAgeSeconds := 600\<rparr> else s);
          s2 = (if length (csAllowMethods s1) = 0 then s1\<lparr>csAllowMethods := [''GET'', ''OPTIONS'']\<rparr> else s1)
      in if length (csAllowHeaders s2) = 0 then s2\<lparr>csAllowHeaders := [''Content-Type'']\<rparr> else s2)"

definition default_rate_limit :: "rate_limit_section \<Rightarrow> rate_limit_section" where
  "default_rate_limit s =
     (let s1 = (if rsBurst s = 0 then s\<lparr>rsBurst := 20\<rparr> else s);
          s2 = (if rsRequestsPerSecond s1 = Fin 0 then s1\<lparr>rsRequestsPerSecond := Fin 10\<rparr> else s1)
      in if length (rsExemptPaths s2) = 0 then s2\<lparr>rsExemptPaths := [''/health'']\<rparr> else s2)"

definition default_logging :: "logging_config \<Rightarrow> logging_config" where
  "default_logging s =
     (let s1 = (if Level s = '''' then s\<lparr>Level := ''info''\<rparr> else s)
      in if Format s1 = '''' then s1\<lparr>Format := ''json''\<rparr> else s1)"

definition applyDefaults :: "config \<Rightarrow> config" where
  "applyDefaults c =
     c\<lparr>ServerCfg := default_server (ServerCfg c), Sampler := default_sampler (Sampler c),
       CORS := default_cors (CORS c), RateLimitCfg := default_rate_limit (RateLimitCfg c),
       Logging := default_logging (Logging c)\<rparr>"

section \<open>Validation\<close>

datatype config_error =
    HostEmpty
  | PortRange int
  | IntervalTooShort duration
  | HistoryCapacityTooSmall int
  | MountPathEmpty nat
  | MountAliasEmpty nat
  | MountPathDuplicate string
  | BadOrigin nat string origin_error
  | RateNotPositive
  | BurstNotPositive

fun validate_mounts :: "nat \<Rightarrow> string set \<Rightarrow> mount_point_config list \<Rightarrow> config_error option" where
  \<comment> \<open>the loop over the mount points; \<open>seen\<close> holds the paths met so far\<close>
  "validate_mounts i seen [] = None"
| "validate_mounts i seen (mp # mps) =
     (if Path mp = '''' then Some (MountPathEmpty i)
      else if Alias mp = '''' then Some (MountAliasEmpty i)
      else if Path mp \<in> seen then Some (MountPathDuplicate (Path mp))
      else validate_mounts (i + 1) (insert (Path mp) seen) mps)"

fun validate_origins :: "nat \<Rightarrow> string list \<Rightarrow> config_error option" where
  "validate_origins i [] = None"
| "validate_origins i (o' # os) =
     (case Parse o' of Inl err \<Rightarrow> Some (BadOrigin i o' err) | Inr _ \<Rightarrow> validate_origins (i + 1) os)"

definition validate_storage :: "config \<Rightarrow> config_error option" where
  "validate_storage c =
     (if sEnabled (StorageCfg (Modules c))
      then validate_mounts 0 {} (MountPoints (StorageCfg (Modules c))) else None)"

definition validate_cors :: "config \<Rightarrow> config_error option" where
  "validate_cors c = (if csEnabled (CORS c) then validate_origins 0 (csAllowedOrigins (CORS c)) else None)"

definition validate_rate_limit :: "config \<Rightarrow> config_error option" where
  "validate_rate_limit c =
     (if rsEnabled (RateLimitCfg c)
      then if f64_le (rsRequestsPerSecond (RateLimitCfg c)) (Fin 0) then Some RateNotPositive
           else if rsBurst (RateLimitCfg c) \<le> 0 then Some BurstNotPositive else None
      else None)"

definition Validate :: "config \<Rightarrow> config_error option" where
  "Validate c =
     (if Host (ServerCfg c) = '''' then Some HostEmpty
      else if Port (ServerCfg c) < 1 \<or> 65535 < Port (ServerCfg c) then Some (PortRange (Port (ServerCfg c)))
      else if Interval (Sampler c) < 100 * millisecond then Some (IntervalTooShort (Interval (Sampler c)))
      else if HistoryCapacity (Sampler c) < 1 then Some (HistoryCapacityTooSmall (HistoryCapacity (Sampler c)))
      else case validate_storage c of
             Some e \<Rightarrow> Some e
           | None \<Rightarrow> (case validate_cors c of Some e \<Rightarrow> Some e | None \<Rightarrow> validate_rate_limit c))"

section \<open>Loading\<close>

datatype decoded = DecodeEOF | DecodeError string | Decoded config
  \<comment> \<open>the outcome of \<open>dec.Decode(&c)\<close> with unknown keys rejected\<close>

datatype load_error = ReadError string | ParseError string | Invalid config_error

definition Load :: "string + decoded \<Rightarrow> load_error + config" where
  \<comment> \<open>\<open>Inl\<close> is a failure of \<open>os.ReadFile\<close>\<close>
  "Load file =
     (case file of
        Inl err \<Rightarrow> Inl (ReadError err)
      | Inr d \<Rightarrow>
        (case (case d of DecodeEOF \<Rightarrow> Inr zero_config | DecodeError e \<Rightarrow> Inl (ParseError e) | Decoded c \<Rightarrow> Inr c) of
           Inl e \<Rightarrow> Inl e
         | Inr c \<Rightarrow>
           let c1 = applyDefaults c
           in case Validate c1 of Some e \<Rightarrow> Inl (Invalid e) | None \<Rightarrow> Inr c1))"

section \<open>Lemmas\<close>

lemma validate_mounts_None:
  "validate_mounts i seen mps = None \<longleftrightarrow>
     (\<forall>mp \<in> set mps. Path mp \<noteq> '''' \<and> Alias mp \<noteq> '''' \<and> Path mp \<notin> seen) \<and> distinct (map Path mps)"
proof (induction i seen mps rule: validate_mounts.induct)
  case (2 i seen mp mps)
  have "Path mp \<notin> Path ` set mps \<longleftrightarrow> (\<forall>x \<in> set mps. Path x \<noteq> Path mp)" by (metis image_iff)
  then show ?case using 2 by (simp split: if_splits) blast
qed simp

lemma validate_origins_None:
  "validate_origins i os = None \<longleftrightarrow> (\<forall>o' \<in> set os. \<exists>p. Parse o' = Inr p)"
  by (induction i os rule: validate_origins.induct) (auto split: sum.splits)

lemma parse_origins_all:
  assumes "\<forall>o' \<in> set os. \<exists>p. Parse o' = Inr p"
  shows "map raw (parse_origins os) = os"
  using assms by (induction os) (auto dest: Parse_sound)

text \<open>What every accepted configuration satisfies.\<close>

definition config_ok :: "config \<Rightarrow> bool" where
  "config_ok c \<longleftrightarrow>
     Host (ServerCfg c) \<noteq> '''' \<and> 1 \<le> Port (ServerCfg c) \<and> Port (ServerCfg c) \<le> 65535
     \<and> 100 * millisecond \<le> Interval (Sampler c) \<and> 1 \<le> HistoryCapacity (Sampler c)
     \<and> (sEnabled (StorageCfg (Modules c)) \<longrightarrow>
          (\<forall>mp \<in> set (MountPoints (StorageCfg (Modules c))). Path mp \<noteq> '''' \<and> Alias mp \<noteq> '''')
          \<and> distinct (map Path (MountPoints (StorageCfg (Modules c)))))
     \<and> (csEnabled (CORS c) \<longrightarrow> (\<forall>o' \<in> set (csAllowedOrigins (CORS c)). \<exists>p. Parse o' = Inr p))
     \<and> (rsEnabled (RateLimitCfg c) \<longrightarrow>
          \<not> f64_le (rsRequestsPerSecond (RateLimitCfg c)) (Fin 0) \<and> 0 < rsBurst (RateLimitCfg c))"

lemmas validate_defs = validate_storage_def validate_cors_def validate_rate_limit_def

lemma Validate_config_ok: "Validate c = None \<longleftrightarrow> config_ok c"
proof -
  have "validate_storage c = None \<longleftrightarrow> (sEnabled (StorageCfg (Modules c)) \<longrightarrow>
          (\<forall>mp \<in> set (MountPoints (StorageCfg (Modules c))). Path mp \<noteq> '''' \<and> Alias mp \<noteq> '''')
          \<and> distinct (map Path (MountPoints (StorageCfg (Modules c)))))"
    by (simp add: validate_storage_def validate_mounts_None)
  moreover have "validate_cors c = None \<longleftrightarrow> (csEnabled (CORS c) \<longrightarrow>
      (\<forall>o' \<in> set (csAllowedOrigins (CORS c)). \<exists>p. Parse o' = Inr p))"
    by (simp add: validate_cors_def validate_origins_None)
  moreover have "validate_rate_limit c = None \<longleftrightarrow> (rsEnabled (RateLimitCfg c) \<longrightarrow>
      \<not> f64_le (rsRequestsPerSecond (RateLimitCfg c)) (Fin 0) \<and> 0 < rsBurst (RateLimitCfg c))"
    by (simp add: validate_rate_limit_def)
  ultimately show ?thesis
    by (auto simp: Validate_def config_ok_def split: option.splits)
qed

lemmas default_defs = default_server_def default_sampler_def default_cors_def default_rate_limit_def
  default_logging_def

section \<open>Properties\<close>

text \<open>
  C29. Validation accepts exactly the well-formed configurations, and \<open>Load\<close> returns a configuration
  only if it is well-formed; what it returns is the decoded file with the defaults filled in.
\<close>

theorem Load_well_formed:
  "(Validate c = None \<longleftrightarrow> config_ok c)
   \<and> (Load (Inr (Decoded c)) = Inr c1 \<longleftrightarrow> c1 = applyDefaults c \<and> config_ok (applyDefaults c))"
  using Validate_config_ok [of c] Validate_config_ok [of "applyDefaults c"]
  by (cases "Validate (applyDefaults c)") (auto simp: Load_def Let_def)

text \<open>
  Filling in defaults a second time changes nothing, and every value the file sets is kept: a
  field changes only when the file left it at its zero value (for the history capacity, not above
  zero), and modules, mount points, origins and flags never change.
\<close>

theorem applyDefaults_conservative:
  "applyDefaults (applyDefaults c) = applyDefaults c
   \<and> Modules (applyDefaults c) = Modules c
   \<and> Port (ServerCfg (applyDefaults c)) = Port (ServerCfg c)
   \<and> (Host (ServerCfg (applyDefaults c)) = Host (ServerCfg c) \<or> Host (ServerCfg c) = '''')
   \<and> (Interval (Sampler (applyDefaults c)) = Interval (Sampler c) \<or> Interval (Sampler c) = 0)
   \<and> (HistoryCapacity (Sampler (applyDefaults c)) = HistoryCapacity (Sampler c) \<or> HistoryCapacity (Sampler c) \<le> 0)
   \<and> csEnabled (CORS (applyDefaults c)) = csEnabled (CORS c)
   \<and> csAllowedOrigins (CORS (applyDefaults c)) = csAllowedOrigins (CORS c)
   \<and> (csAllowMethods (CORS (applyDefaults c)) = csAllowMethods (CORS c) \<or> csAllowMethods (CORS c) = [])
   \<and> rsEnabled (RateLimitCfg (applyDefaults c)) = rsEnabled (RateLimitCfg c)
   \<and> rsTrustProxyHeaders (RateLimitCfg (applyDefaults c)) = rsTrustProxyHeaders (RateLimitCfg c)
   \<and> (rsBurst (RateLimitCfg (applyDefaults c)) = rsBurst (RateLimitCfg c) \<or> rsBurst (RateLimitCfg c) = 0)
   \<and> (rsRequestsPerSecond (RateLimitCfg (applyDefaults c)) = rsRequestsPerSecond (RateLimitCfg c)
        \<or> rsRequestsPerSecond (RateLimitCfg c) = Fin 0)
   \<and> (rsExemptPaths (RateLimitCfg (applyDefaults c)) = rsExemptPaths (RateLimitCfg c)
        \<or> rsExemptPaths (RateLimitCfg c) = [])"
proof -
  have "default_server (default_server s) = default_server s" for s by (simp add: default_server_def)
  moreover have "default_sampler (default_sampler s) = default_sampler s" for s
    by (simp add: default_sampler_def Let_def)
  moreover have "default_cors (default_cors s) = default_cors s" for s by (simp add: default_cors_def Let_def)
  moreover have "default_rate_limit (default_rate_limit s) = default_rate_limit s" for s
    by (simp add: default_rate_limit_def Let_def)
  moreover have "default_logging (default_logging s) = default_logging s" for s
    by (simp add: default_logging_def Let_def)
  ultimately show ?thesis
    by (simp add: applyDefaults_def) (simp add: default_defs Let_def)
qed

text \<open>
  An empty configuration file is accepted by the decoder but not by \<open>Load\<close>: the port has no
  default, so the load fails on port 0.
\<close>

theorem Load_empty_file:
  "Load (Inr DecodeEOF) = Inl (Invalid (PortRange 0))"
  by (simp add: Load_def Let_def applyDefaults_def default_defs zero_config_def Validate_def)

end
