(* ===== verification/Handlers.thy ===== *)
theory Handlers
  imports Cpu Memory Gpu Storage Rate_Limit "HOL-Library.AList" "HOL-Library.Char_ord" "HOL-Library.List_Lexorder" Cors
begin

text \<open>
  The three aggregating handlers of \<^verbatim>\<open>internal/server/handlers\<close>: \<open>/metrics\<close> (the merged view and
  its peak mode), \<open>/health\<close> and \<open>/profile\<close>. A module of the server is one of the four kinds, behind
  the interface of \<^verbatim>\<open>internal/metrics/module.go\<close>; an interface value of type \<open>any\<close> keeps its
  dynamic type, so a typed nil pointer differs from the nil interface. The server's state extends
  the rate limiter's table by the modules and by the store of the CPU samples' slices.
\<close>

section \<open>Modules behind the interface\<close>

datatype app_module =
    CpuMod cpu_module
  | MemMod mem_module
  | GpuMod gpu_module
  | StorageMod storage_module

record 'l app = "'l rate_limiter" +
  app_mods :: "app_module list"
  app_heap :: heap

datatype any_sample =
    NoSample
  | CpuSample "cpu_sample option"
  | MemSample "mem_sample option"
  | GpuSample "gpu_sample option"
  | StorageSample "storage_sample option"

definition box :: "('a option \<Rightarrow> any_sample) \<Rightarrow> 'a any_ptr \<Rightarrow> any_sample" where
  "box con v = (case v of NilAny \<Rightarrow> NoSample | Ptr p \<Rightarrow> con p)"

primrec mod_Name :: "app_module \<Rightarrow> string" where
  "mod_Name (CpuMod m) = ''cpu''"
| "mod_Name (MemMod m) = ''memory''"
| "mod_Name (GpuMod m) = ''gpu''"
| "mod_Name (StorageMod m) = ''storage''"

primrec mod_Enabled :: "app_module \<Rightarrow> bool" where
  "mod_Enabled (CpuMod m) = True"
| "mod_Enabled (MemMod m) = True"
| "mod_Enabled (GpuMod m) = enabled m"
| "mod_Enabled (StorageMod m) = True"

primrec mod_DisabledReason :: "app_module \<Rightarrow> string" where
  "mod_DisabledReason (CpuMod m) = ''''"
| "mod_DisabledReason (MemMod m) = ''''"
| "mod_DisabledReason (GpuMod m) = gpu_DisabledReason m"
| "mod_DisabledReason (StorageMod m) = ''''"

primrec mod_Latest :: "heap \<Rightarrow> app_module \<Rightarrow> any_sample" where
  "mod_Latest h (CpuMod m) = box CpuSample (cpu_Latest (m, h))"
| "mod_Latest h (MemMod m) = box MemSample (mem_Latest m)"
| "mod_Latest h (GpuMod m) = box GpuSample (gpu_Latest m)"
| "mod_Latest h (StorageMod m) = box StorageSample (storage_Latest m)"

primrec mod_Peak :: "instant \<Rightarrow> duration \<Rightarrow> heap \<Rightarrow> app_module \<Rightarrow> (any_sample \<times> heap) option" where
  \<comment> \<open>\<open>None\<close>: the module does not implement \<open>Peakable\<close>\<close>
  "mod_Peak now d h (CpuMod m) = (let (v, (_, h1)) = cpu_Peak now d (m, h) in Some (box CpuSample v, h1))"
| "mod_Peak now d h (MemMod m) = Some (box MemSample (mem_Peak now d m), h)"
| "mod_Peak now d h (GpuMod m) = Some (box GpuSample (gpu_Peak now d m), h)"
| "mod_Peak now d h (StorageMod m) = None"

primrec mod_LastSampleAge :: "instant \<Rightarrow> heap \<Rightarrow> app_module \<Rightarrow> go_panic + duration" where
  "mod_LastSampleAge now h (CpuMod m) = cpu_LastSampleAge now (m, h)"
| "mod_LastSampleAge now h (MemMod m) = Inr (mem_LastSampleAge now m)"
| "mod_LastSampleAge now h (GpuMod m) = Inr (gpu_LastSampleAge now m)"
| "mod_LastSampleAge now h (StorageMod m) = Inr (storage_LastSampleAge now m)"

section \<open>writeJSON\<close>

definition h_writeJSON :: "int \<Rightarrow> json \<Rightarrow> bool \<Rightarrow> writer \<Rightarrow> writer" where
  "h_writeJSON st v noStore w =
     (let w1 = header_set ''Content-Type'' ''application/json'' w;
          w2 = (if noStore then header_set ''Cache-Control'' ''no-store'' w1 else w1);
          w3 = (if st \<noteq> 0 then WriteHeader st w2 else w2)
      in Encode v w3)"

section \<open>The merged view\<close>

record combined_sample =
  ServerTimeLocal :: string
  ServerTimeUnixSeconds :: int
  Mode :: string
  WindowSeconds :: int
  out_CPU :: "cpu_sample option"
  out_Memory :: "mem_sample option"
  out_GPU :: "gpu_sample option"
  out_Storage :: "storage_sample option"

definition json_of_combined :: "heap \<Rightarrow> combined_sample \<Rightarrow> json" where
  "json_of_combined h c =
     JObject ([(''server_time_local'', JString (ServerTimeLocal c)),
       (''server_time_unix_seconds'', JInt (ServerTimeUnixSeconds c))]
       @ omit_string ''mode'' (Mode c) @ omit_int ''window_seconds'' (WindowSeconds c)
       @ omit_ptr ''cpu'' (json_of_cpu_sample h) (out_CPU c)
       @ omit_ptr ''memory'' json_of_mem_sample (out_Memory c)
       @ omit_ptr ''gpu'' json_of_gpu_sample (out_GPU c)
       @ omit_ptr ''storage'' json_of_storage_sample (out_Storage c))"

definition assignSample :: "any_sample \<Rightarrow> combined_sample \<Rightarrow> combined_sample" where
  "assignSample v c =
     (case v of
        CpuSample (Some s) \<Rightarrow> c\<lparr>out_CPU := Some s\<rparr>
      | MemSample (Some s) \<Rightarrow> c\<lparr>out_Memory := Some s\<rparr>
      | GpuSample (Some s) \<Rightarrow> c\<lparr>out_GPU := Some s\<rparr>
      | StorageSample (Some s) \<Rightarrow> c\<lparr>out_Storage := Some s\<rparr>
      | _ \<Rightarrow> c)"

definition latest_step :: "app_module \<Rightarrow> combined_sample \<times> heap \<Rightarrow> combined_sample \<times> heap" where
  \<comment> \<open>one iteration of the loop of the default mode\<close>
  "latest_step m = (\<lambda>(c, h).
     if \<not> mod_Enabled m then (c, h)
     else let v = mod_Latest h m in if v = NoSample then (c, h) else (assignSample v c, h))"

definition peak_step ::
  "instant \<Rightarrow> duration \<Rightarrow> app_module \<Rightarrow> combined_sample \<times> heap \<Rightarrow> combined_sample \<times> heap" where
  \<comment> \<open>one iteration of the loop of peak mode\<close>
  "peak_step now window m = (\<lambda>(c, h).
     if \<not> mod_Enabled m then (c, h)
     else let (v, h1) = (case mod_Peak now window h m of
                Some (v, h1) \<Rightarrow> (if v = NoSample then mod_Latest h1 m else v, h1)
              | None \<Rightarrow> (mod_Latest h m, h))
          in if v = NoSample then (c, h1) else (assignSample v c, h1))"

definition combined_ServeHTTP :: "(instant \<Rightarrow> string) \<Rightarrow> 'l app handler" where
  \<comment> \<open>\<open>local_time\<close> formats an instant in the server's time zone\<close>
  "combined_ServeHTTP local_time r c =
     (let mode = rquery r ''mode'';
          now = clock_now (env c);
          out0 = \<lparr>ServerTimeLocal = local_time now, ServerTimeUnixSeconds = now div second, Mode = '''',
                  WindowSeconds = 0, out_CPU = None, out_Memory = None, out_GPU = None, out_Storage = None\<rparr>;
          st = server_state c
      in if mode = ''peak'' then
           let (window, ok) = ParseDurationParam (rquery r ''window'') (60 * second)
           in if \<not> ok then respond (http_Error invalid_duration 400) c
              else let out1 = out0\<lparr>Mode := ''peak'', WindowSeconds := int_Seconds window\<rparr>;
                       (out2, h) = fold (peak_step now window) (app_mods st) (out1, app_heap st)
                   in respond (h_writeJSON 0 (json_of_combined h out2) True)
                        (c\<lparr>server_state := st\<lparr>app_heap := h\<rparr>\<rparr>)
         else let (out2, h) = fold latest_step (app_mods st) (out0, app_heap st)
              in respond (h_writeJSON 0 (json_of_combined h out2) True) c)"

section \<open>Health\<close>

record module_health =
  mhEnabled :: bool
  LastSampleAgeMs :: "int option"
  mhDisabledReason :: string

definition json_of_module_health :: "module_health \<Rightarrow> json" where
  "json_of_module_health e =
     JObject ([(''enabled'', JBool (mhEnabled e))]
       @ omit_ptr ''last_sample_age_ms'' JInt (LastSampleAgeMs e)
       @ omit_string ''disabled_reason'' (mhDisabledReason e))"

record health_response =
  Status :: string
  UptimeSeconds :: int
  HealthModules :: "(string \<times> module_health) list"
  \<comment> \<open>the map from names to entries; a repeated name replaces the earlier entry, and
     encoding/json writes the keys in increasing order\<close>

definition json_of_health :: "health_response \<Rightarrow> json" where
  "json_of_health r =
     JObject [(''status'', JString (Status r)), (''uptime_seconds'', JInt (UptimeSeconds r)),
       (''modules'', JObject (map (\<lambda>(k, e). (k, json_of_module_health e)) (sort_key fst (HealthModules r))))]"

definition healthStatus :: "string \<Rightarrow> int" where
  "healthStatus s = (if s = ''degraded'' then 503 else 200)"

primrec health_loop ::
  "(nat \<Rightarrow> instant) \<Rightarrow> duration \<Rightarrow> heap \<Rightarrow> nat \<Rightarrow> app_module list \<Rightarrow> health_response
     \<Rightarrow> string + health_response" where
  \<comment> \<open>each age is read twice, so with two clock readings: \<open>clk (2i)\<close> for the document and
     \<open>clk (2i + 1)\<close> for the comparison; \<open>Inl\<close> is a panic\<close>
  "health_loop clk mx h i [] resp' = Inr resp'"
| "health_loop clk mx h i (m # ms) resp' =
     (if \<not> mod_Enabled m then
        health_loop clk mx h (Suc i) ms
          (resp'\<lparr>HealthModules := AList.update (mod_Name m)
             \<lparr>mhEnabled = False, LastSampleAgeMs = None, mhDisabledReason = mod_DisabledReason m\<rparr>
             (HealthModules resp')\<rparr>)
      else case mod_LastSampleAge (clk (2 * i)) h m of
             Inl (Panic p) \<Rightarrow> Inl p
           | Inr age \<Rightarrow>
             (case mod_LastSampleAge (clk (2 * i + 1)) h m of
                Inl (Panic p) \<Rightarrow> Inl p
              | Inr age2 \<Rightarrow>
                let r1 = (if mx < age2 then resp'\<lparr>Status := ''degraded''\<rparr> else resp')
                in health_loop clk mx h (Suc i) ms
                     (r1\<lparr>HealthModules := AList.update (mod_Name m)
                        \<lparr>mhEnabled = True, LastSampleAgeMs = Some (Milliseconds age), mhDisabledReason = ''''\<rparr>
                        (HealthModules r1)\<rparr>)))"

definition health_ServeHTTP :: "instant \<Rightarrow> (nat \<Rightarrow> instant) \<Rightarrow> duration \<Rightarrow> 'l app handler" where
  \<comment> \<open>\<open>start\<close> and \<open>maxStaleness\<close> are the handler's fields\<close>
  "health_ServeHTTP start clk maxStaleness r c =
     (let resp0 = \<lparr>Status = ''ok'', UptimeSeconds = int_Seconds (since (clock_now (env c)) start),
                   HealthModules = []\<rparr>
      in case health_loop clk maxStaleness (app_heap (server_state c)) 0 (app_mods (server_state c)) resp0 of
           Inl p \<Rightarrow> (Panicking p, c)
         | Inr hr \<Rightarrow> respond (h_writeJSON (healthStatus (Status hr)) (json_of_health hr) False) c)"

section \<open>Lemmas on the merged view\<close>

definition visible :: "any_sample \<Rightarrow> any_sample" where
  \<comment> \<open>what \<open>assignSample\<close> can show of a value: a typed nil shows nothing\<close>
  "visible v = (if v \<in> {CpuSample None, MemSample None, GpuSample None, StorageSample None} then NoSample else v)"

definition shown :: "string \<Rightarrow> combined_sample \<Rightarrow> any_sample" where
  \<comment> \<open>the sample a merged document has under a module's name\<close>
  "shown k c =
     (if k = ''cpu'' then (case out_CPU c of None \<Rightarrow> NoSample | s \<Rightarrow> CpuSample s)
      else if k = ''memory'' then (case out_Memory c of None \<Rightarrow> NoSample | s \<Rightarrow> MemSample s)
      else if k = ''gpu'' then (case out_GPU c of None \<Rightarrow> NoSample | s \<Rightarrow> GpuSample s)
      else if k = ''storage'' then (case out_Storage c of None \<Rightarrow> NoSample | s \<Rightarrow> StorageSample s)
      else NoSample)"

definition of_kind :: "string \<Rightarrow> any_sample \<Rightarrow> bool" where
  "of_kind k v = (case v of NoSample \<Rightarrow> True | CpuSample _ \<Rightarrow> k = ''cpu'' | MemSample _ \<Rightarrow> k = ''memory''
     | GpuSample _ \<Rightarrow> k = ''gpu'' | StorageSample _ \<Rightarrow> k = ''storage'')"

lemma visible_simps [simp]:
  "visible NoSample = NoSample"
  "visible (CpuSample p) = (case p of None \<Rightarrow> NoSample | Some _ \<Rightarrow> CpuSample p)"
  "visible (MemSample p2) = (case p2 of None \<Rightarrow> NoSample | Some _ \<Rightarrow> MemSample p2)"
  "visible (GpuSample p3) = (case p3 of None \<Rightarrow> NoSample | Some _ \<Rightarrow> GpuSample p3)"
  "visible (StorageSample p4) = (case p4 of None \<Rightarrow> NoSample | Some _ \<Rightarrow> StorageSample p4)"
  by (auto simp: visible_def split: option.splits)

lemma shown_assign:
  assumes "of_kind k v" "v \<noteq> NoSample"
  shows "shown k (assignSample v c) = (if visible v = NoSample then shown k c else v)"
    "k' \<noteq> k \<Longrightarrow> shown k' (assignSample v c) = shown k' c"
  using assms by (auto simp: of_kind_def assignSample_def shown_def split: any_sample.splits option.splits)

lemma of_kind_box [simp]:
  "of_kind ''cpu'' (box CpuSample v)" "of_kind ''memory'' (box MemSample v')"
  "of_kind ''gpu'' (box GpuSample v'')" "of_kind ''storage'' (box StorageSample v3)"
  by (simp_all add: of_kind_def box_def split: any_ptr.splits)

lemma kind_Latest [simp]: "of_kind (mod_Name m) (mod_Latest h m)"
  by (cases m) simp_all

lemma kind_Peak: "mod_Peak now d h m = Some (v, h1) \<Longrightarrow> of_kind (mod_Name m) v"
  by (cases m) (auto simp: Let_def split: prod.splits)

lemma Latest_heap: "mod_Latest h1 m = mod_Latest h m"
  by (cases m) (simp_all add: cpu_Latest_def)

definition assign_if :: "any_sample \<Rightarrow> combined_sample \<Rightarrow> combined_sample" where
  "assign_if v c = (if v = NoSample then c else assignSample v c)"

lemma shown_assign_if:
  assumes "of_kind k v" "shown k c = NoSample"
  shows "shown k (assign_if v c) = visible v" "k' \<noteq> k \<Longrightarrow> shown k' (assign_if v c) = shown k' c"
  using shown_assign [OF assms(1), where c = c] assms(2) by (auto simp: assign_if_def visible_def)

lemma assign_if_fields [simp]:
  "Mode (assign_if v c) = Mode c" "Handlers.WindowSeconds (assign_if v c) = Handlers.WindowSeconds c"
  "ServerTimeUnixSeconds (assign_if v c) = ServerTimeUnixSeconds c"
  "ServerTimeLocal (assign_if v c) = ServerTimeLocal c"
  by (simp_all add: assign_if_def assignSample_def split: any_sample.splits option.splits)

text \<open>
  Both loops of the handler pick one value per module and assign it; they differ in the value and
  in what they do to the store. The contract: a module's value has the module's kind, and treating
  another module first does not change it.
\<close>

locale merged_view =
  fixes step :: "app_module \<Rightarrow> combined_sample \<times> heap \<Rightarrow> combined_sample \<times> heap"
    and val :: "heap \<Rightarrow> app_module \<Rightarrow> any_sample"
    and after :: "heap \<Rightarrow> app_module \<Rightarrow> heap"
  assumes step_eq: "step m (c, h) = (assign_if (val h m) c, after h m)"
    and val_kind: "of_kind (mod_Name m) (val h m)"
    and val_indep: "mod_Name m' \<noteq> mod_Name m \<Longrightarrow> val (after h m') m = val h m"
begin

lemma merged:
  assumes "distinct (map mod_Name ms)" "\<forall>k \<in> mod_Name ` set ms. shown k c = NoSample"
  shows "\<exists>c1. fold step ms (c, h) = (c1, fold (\<lambda>m h. after h m) ms h)
    \<and> (\<forall>m \<in> set ms. shown (mod_Name m) c1 = visible (val h m))
    \<and> (\<forall>k. k \<notin> mod_Name ` set ms \<longrightarrow> shown k c1 = shown k c)
    \<and> Mode c1 = Mode c \<and> Handlers.WindowSeconds c1 = Handlers.WindowSeconds c
    \<and> ServerTimeUnixSeconds c1 = ServerTimeUnixSeconds c"
  using assms
proof (induction ms arbitrary: c h)
  case (Cons m ms)
  let ?c2 = "assign_if (val h m) c" and ?h2 = "after h m"
  have here: "shown (mod_Name m) ?c2 = visible (val h m)"
    and other: "k \<noteq> mod_Name m \<Longrightarrow> shown k ?c2 = shown k c" for k
    using shown_assign_if [OF val_kind] Cons.prems(2) by auto
  have fresh: "mod_Name m' \<noteq> mod_Name m" if "m' \<in> set ms" for m'
    using Cons.prems(1) that by (metis distinct.simps(2) image_eqI list.simps(9) set_map)
  have "\<forall>k \<in> mod_Name ` set ms. shown k ?c2 = NoSample" using other fresh Cons.prems(2) by auto
  from Cons.IH [OF _ this, of ?h2] Cons.prems(1) obtain c1 where
    c1: "fold step ms (?c2, ?h2) = (c1, fold (\<lambda>m h. after h m) ms ?h2)"
    and in_ms: "\<forall>m' \<in> set ms. shown (mod_Name m') c1 = visible (val ?h2 m')"
    and out_ms: "\<forall>k. k \<notin> mod_Name ` set ms \<longrightarrow> shown k c1 = shown k ?c2"
    and rest: "Mode c1 = Mode c" "Handlers.WindowSeconds c1 = Handlers.WindowSeconds c"
      "ServerTimeUnixSeconds c1 = ServerTimeUnixSeconds c" by auto
  have "shown (mod_Name m) c1 = visible (val h m)" using out_ms here Cons.prems(1) by auto
  moreover have "shown (mod_Name m') c1 = visible (val h m')" if "m' \<in> set ms" for m'
    using in_ms that val_indep [of m m' h] fresh [OF that] by metis
  moreover have "shown k c1 = shown k c" if "k \<notin> mod_Name ` set (m # ms)" for k
    using out_ms other that by auto
  ultimately show ?case using c1 rest by (auto simp: step_eq)
qed simp

end

definition latest_value :: "heap \<Rightarrow> app_module \<Rightarrow> any_sample" where
  "latest_value h m = (if mod_Enabled m then mod_Latest h m else NoSample)"

definition peak_value :: "instant \<Rightarrow> duration \<Rightarrow> heap \<Rightarrow> app_module \<Rightarrow> any_sample" where
  "peak_value now w h m =
     (if mod_Enabled m
      then case mod_Peak now w h m of
             Some (v, _) \<Rightarrow> (if v = NoSample then mod_Latest h m else v)
           | None \<Rightarrow> mod_Latest h m
      else NoSample)"

definition peak_heap :: "instant \<Rightarrow> duration \<Rightarrow> heap \<Rightarrow> app_module \<Rightarrow> heap" where
  "peak_heap now w h m =
     (if mod_Enabled m then case mod_Peak now w h m of Some (_, h1) \<Rightarrow> h1 | None \<Rightarrow> h else h)"

interpretation latest_view: merged_view latest_step latest_value "\<lambda>h m. h"
  by unfold_locales
    (auto simp: latest_step_def latest_value_def assign_if_def Let_def of_kind_def [of _ NoSample])

interpretation peak_view: merged_view "peak_step now w" "peak_value now w" "peak_heap now w" for now w
proof unfold_locales
  fix m c h
  show "peak_step now w m (c, h) = (assign_if (peak_value now w h m) c, peak_heap now w h m)"
  proof (cases "mod_Peak now w h m")
    case (Some p)
    then show ?thesis using Latest_heap [of "snd p" m h]
      by (cases p) (simp add: peak_step_def peak_value_def peak_heap_def assign_if_def Let_def)
  qed (simp add: peak_step_def peak_value_def peak_heap_def assign_if_def Let_def)
  show "of_kind (mod_Name m) (peak_value now w h m)"
    using kind_Peak [of now w h m] kind_Latest [of m h]
    by (auto simp: peak_value_def of_kind_def [of _ NoSample] split: option.splits)
  fix m' assume "mod_Name m' \<noteq> mod_Name m"
  then have "(\<exists>x. m = CpuMod x) \<longrightarrow> peak_heap now w h m' = h"
    by (cases m'; cases m) (simp_all add: peak_heap_def)
  moreover have "peak_value now w h1 m = peak_value now w h m" if "\<nexists>x. m = CpuMod x" for h1
    using that Latest_heap [of h1 m h] by (cases m) (simp_all add: peak_value_def)
  ultimately show "peak_value now w (peak_heap now w h m') m = peak_value now w h m" by metis
qed

section \<open>Responses\<close>

lemma h_writeJSON_wire:
  assumes "unsent w" "encodable v"
  shows "wire_status (h_writeJSON st v ns w) = Some (if st = 0 then 200 else st)"
    "written (h_writeJSON st v ns w) = [Doc v]"
    "wire_header (h_writeJSON st v ns w) ''Content-Type'' = [''application/json'']"
    "ns \<Longrightarrow> wire_header (h_writeJSON st v ns w) ''Cache-Control'' = [''no-store'']"
proof -
  let ?w = "(if ns then header_set ''Cache-Control'' ''no-store'' (header_set ''Content-Type'' ''application/json'' w)
    else header_set ''Content-Type'' ''application/json'' w)"
  have u: "unsent ?w" using assms(1) by simp
  have e: "h_writeJSON st v ns w = Encode v (if st \<noteq> 0 then WriteHeader st ?w else ?w)"
    by (simp add: h_writeJSON_def Let_def)
  have s: "sent (wire ?w) = None" "out (wire ?w) = []" using unsent_wire [OF u] by simp_all
  show "wire_status (h_writeJSON st v ns w) = Some (if st = 0 then 200 else st)"
    "written (h_writeJSON st v ns w) = [Doc v]"
    "wire_header (h_writeJSON st v ns w) ''Content-Type'' = [''application/json'']"
    "ns \<Longrightarrow> wire_header (h_writeJSON st v ns w) ''Cache-Control'' = [''no-store'']"
    unfolding e using assms(2) s wire_WriteHeader_unsent [OF u]
    by (simp_all add: Encode_def wire_Write wire_status_def written_def wire_header_def)
qed

lemma writes_h_writeJSON [inv_intros]: "writes w (h_writeJSON st v ns w)"
  unfolding h_writeJSON_def Let_def Encode_def header_ops
  by (simp add: writes_body writes_status writes_header)

definition json_served :: "json \<Rightarrow> int \<Rightarrow> writer \<Rightarrow> bool" where
  \<comment> \<open>the document went out with this status, unless it holds a number JSON cannot express\<close>
  "json_served v st w \<longleftrightarrow>
     encodable v \<longrightarrow> wire_status w = Some st \<and> written w = [Doc v]
       \<and> wire_header w ''Content-Type'' = [''application/json'']"

section \<open>Properties\<close>

text \<open>
  C19. In the default mode \<open>/metrics\<close> leaves the server's state alone and answers, uncached, with
  the current sample of every enabled module under its own key, and with nothing under the keys of
  disabled and absent modules; the document carries neither mode nor window.
\<close>

theorem combined_latest_view:
  assumes "rquery r ''mode'' \<noteq> ''peak''" "distinct (map mod_Name (app_mods (server_state c)))" "unsent (resp c)"
  shows "\<exists>doc c1. combined_ServeHTTP lt r c = (Returned, c1) \<and> server_state c1 = server_state c
    \<and> json_served (json_of_combined (app_heap (server_state c)) doc) 200 (resp c1)
    \<and> (\<forall>m \<in> set (app_mods (server_state c)).
         shown (mod_Name m) doc = visible (latest_value (app_heap (server_state c)) m))
    \<and> (\<forall>k. k \<notin> mod_Name ` set (app_mods (server_state c)) \<longrightarrow> shown k doc = NoSample)
    \<and> Mode doc = '''' \<and> Handlers.WindowSeconds doc = 0
    \<and> ServerTimeUnixSeconds doc = clock_now (env c) div second"
proof -
  let ?st = "server_state c" and ?now = "clock_now (env c)"
  let ?o = "\<lparr>ServerTimeLocal = lt ?now, ServerTimeUnixSeconds = ?now div second, Mode = '''', WindowSeconds = 0,
      out_CPU = None, out_Memory = None, out_GPU = None, out_Storage = None\<rparr>"
  have o: "shown k ?o = NoSample" for k by (simp add: shown_def)
  have h: "fold (\<lambda>m h. h) ms h = h" for ms :: "app_module list" and h :: heap by (induction ms) simp_all
  obtain doc where doc: "fold latest_step (app_mods ?st) (?o, app_heap ?st) = (doc, app_heap ?st)"
    "\<forall>m \<in> set (app_mods ?st). shown (mod_Name m) doc = visible (latest_value (app_heap ?st) m)"
    "\<forall>k. k \<notin> mod_Name ` set (app_mods ?st) \<longrightarrow> shown k doc = NoSample"
    "Mode doc = ''''" "Handlers.WindowSeconds doc = 0" "ServerTimeUnixSeconds doc = ?now div second"
    using latest_view.merged [OF assms(2), of ?o "app_heap ?st"] o by (auto simp: h)
  have e: "combined_ServeHTTP lt r c = respond (h_writeJSON 0 (json_of_combined (app_heap ?st) doc) True) c"
    using assms(1) doc(1) by (simp add: combined_ServeHTTP_def Let_def)
  show ?thesis
    using doc(2-) h_writeJSON_wire [OF assms(3), where st = 0 and ns = True]
    by (intro exI [of _ doc] exI [of _ "on_resp (h_writeJSON 0 (json_of_combined (app_heap ?st) doc) True) c"])
      (simp add: e respond_def json_served_def)
qed

definition demo_app :: "app_module list \<Rightarrow> heap \<Rightarrow> nat app" where
  "demo_app ms h = \<lparr>byIP = Map.empty, limiters = [], app_mods = ms, app_heap = h\<rparr>"

definition get_request :: "string \<Rightarrow> (string \<Rightarrow> string) \<Rightarrow> request" where
  "get_request path q = \<lparr>rmethod = ''GET'', rpath = path, rquery = q, rheader = (\<lambda>_. ''''),
     remote_addr = ''10.0.0.9:4711'', ctx_request_id = None\<rparr>"

theorem combined_latest_view_witness:
  "\<exists>doc c1. combined_ServeHTTP (\<lambda>_. ''now'') (get_request ''/metrics'' (\<lambda>_. ''''))
      (fresh_conn (demo_app [CpuMod run3_module, GpuMod (gpu_run False)] run3_heap)) = (Returned, c1)
    \<and> (\<exists>s. shown ''cpu'' doc = CpuSample (Some s)) \<and> shown ''gpu'' doc = NoSample \<and> shown ''memory'' doc = NoSample"
proof -
  let ?ms = "[CpuMod run3_module, GpuMod (gpu_run False)]"
  obtain b where b: "cpu_base run3_module = Some b" "base_inv b"
    using run3_inv by (auto simp: run3_pair cpu_inv_def)
  obtain b2 where "cpu_base run3_module = Some b2" "Snapshot (buf b2) = run3_window"
    using run3_base unfolding run3_window_def by blast
  then have sn: "Snapshot (buf b) = run3_window" using b(1) by simp
  have "latest b = Some (last run3_window)"
    using b(2) Latest_Snapshot [of "buf b"] sn by (simp add: base_inv_def run3_window_def)
  then have cpu: "visible (latest_value run3_heap (CpuMod run3_module)) = CpuSample (Some (last run3_window))"
    using b(1) by (simp add: latest_value_def box_def cpu_Latest_def Base_Latest_def)
  have gpu: "visible (latest_value run3_heap (GpuMod (gpu_run False))) = NoSample"
    using gpu_run_state [of False] by (auto simp: latest_value_def)
  let ?c = "fresh_conn (demo_app ?ms run3_heap)"
  have st: "app_mods (server_state ?c) = ?ms" "app_heap (server_state ?c) = run3_heap"
    by (simp_all add: demo_app_def)
  have p: "rquery (get_request ''/metrics'' (\<lambda>_. '''')) ''mode'' \<noteq> ''peak''"
    "distinct (map mod_Name (app_mods (server_state ?c)))" "unsent (resp ?c)"
    by (simp_all add: get_request_def demo_app_def)
  obtain doc c1 where
    "combined_ServeHTTP (\<lambda>_. ''now'') (get_request ''/metrics'' (\<lambda>_. '''')) ?c = (Returned, c1)"
    "\<forall>m \<in> set ?ms. shown (mod_Name m) doc = visible (latest_value run3_heap m)"
    "\<forall>k. k \<notin> mod_Name ` set ?ms \<longrightarrow> shown k doc = NoSample"
    using combined_latest_view [OF p, of "\<lambda>_. ''now''"] unfolding st by metis
  then show ?thesis using cpu gpu by (intro exI [of _ doc] exI [of _ c1]) simp
qed

text \<open>
  C18. \<open>/metrics?mode=peak\<close>: a window that does not parse is answered with 400 and the
  \<open>invalid_duration\<close> error, the server's state untouched. Otherwise the document says \<open>peak\<close> and
  the window, shows for every enabled module what its \<open>Peak\<close> (or, for a module without one or with
  a nil interface, its \<open>Latest\<close>) gives, and changes of the server only the store of the CPU arrays,
  through the \<open>Peak\<close> calls in module order.
\<close>

theorem combined_peak_view:
  assumes "rquery r ''mode'' = ''peak''" "distinct (map mod_Name (app_mods (server_state c)))" "unsent (resp c)"
    and win: "ParseDurationParam (rquery r ''window'') (60 * second) = (w, ok)"
  shows "\<exists>doc c1. combined_ServeHTTP lt r c = (Returned, c1)
    \<and> (if ok then
         server_state c1 = (server_state c)\<lparr>app_heap := fold (\<lambda>m h. peak_heap (clock_now (env c)) w h m)
           (app_mods (server_state c)) (app_heap (server_state c))\<rparr>
         \<and> json_served (json_of_combined (app_heap (server_state c1)) doc) 200 (resp c1)
         \<and> (\<forall>m \<in> set (app_mods (server_state c)). shown (mod_Name m) doc
              = visible (peak_value (clock_now (env c)) w (app_heap (server_state c)) m))
         \<and> (\<forall>k. k \<notin> mod_Name ` set (app_mods (server_state c)) \<longrightarrow> shown k doc = NoSample)
         \<and> Mode doc = ''peak'' \<and> Handlers.WindowSeconds doc = int_Seconds w
       else server_state c1 = server_state c \<and> wire_status (resp c1) = Some 400
         \<and> written (resp c1) = [Text (invalid_duration @ [CHR 0x0A])])"
proof (cases ok)
  case True
  let ?st = "server_state c" and ?now = "clock_now (env c)"
  let ?o = "\<lparr>ServerTimeLocal = lt ?now, ServerTimeUnixSeconds = ?now div second, Mode = ''peak'',
      WindowSeconds = int_Seconds w, out_CPU = None, out_Memory = None, out_GPU = None, out_Storage = None\<rparr>"
  let ?h = "fold (\<lambda>m h. peak_heap ?now w h m) (app_mods ?st) (app_heap ?st)"
  have o: "shown k ?o = NoSample" for k by (simp add: shown_def)
  obtain doc where doc: "fold (peak_step ?now w) (app_mods ?st) (?o, app_heap ?st) = (doc, ?h)"
    "\<forall>m \<in> set (app_mods ?st). shown (mod_Name m) doc = visible (peak_value ?now w (app_heap ?st) m)"
    "\<forall>k. k \<notin> mod_Name ` set (app_mods ?st) \<longrightarrow> shown k doc = NoSample"
    "Mode doc = ''peak''" "Handlers.WindowSeconds doc = int_Seconds w"
    using peak_view.merged [OF assms(2), of ?o ?now w "app_heap ?st"] o by auto
  let ?c1 = "on_resp (h_writeJSON 0 (json_of_combined ?h doc) True) (c\<lparr>server_state := ?st\<lparr>app_heap := ?h\<rparr>\<rparr>)"
  have e: "combined_ServeHTTP lt r c = (Returned, ?c1)"
    using assms(1) True win doc(1) by (simp add: combined_ServeHTTP_def respond_def Let_def)
  show ?thesis
    unfolding e using True doc(2-) h_writeJSON_wire [OF assms(3), where st = 0 and ns = True]
    by (intro exI [of _ doc] exI [of _ ?c1]) (simp add: json_served_def)
next
  case False
  then have e: "combined_ServeHTTP lt r c = respond (http_Error invalid_duration 400) c"
    using assms(1) win by (simp add: combined_ServeHTTP_def Let_def)
  show ?thesis
    using False http_Error_wire [OF assms(3)]
    by (intro exI [of _ undefined] exI [of _ "on_resp (http_Error invalid_duration 400) c"])
      (simp add: e respond_def)
qed

definition peak_query :: "string \<Rightarrow> string \<Rightarrow> string" where
  "peak_query w k = (if k = ''mode'' then ''peak'' else if k = ''window'' then w else '''')"

definition at_time :: "instant \<Rightarrow> 's conn \<Rightarrow> 's conn" where
  "at_time t c = c\<lparr>env := (env c)\<lparr>clock_now := t\<rparr>\<rparr>"

theorem combined_peak_view_witness:
  "\<exists>doc c1 p. combined_ServeHTTP (\<lambda>_. ''now'') (get_request ''/metrics'' (peak_query ''10s''))
      (at_time (4 * second) (fresh_conn (demo_app
        [MemMod (mem_run [mem_ok_reading 1 300, mem_ok_reading 2 350]), GpuMod (gpu_run False)] run3_heap)))
      = (Returned, c1)
    \<and> Mode doc = ''peak'' \<and> Handlers.WindowSeconds doc = 10 \<and> shown ''gpu'' doc = NoSample
    \<and> shown ''memory'' doc = MemSample (Some p) \<and> UsedNoCacheBytes p = 400"
proof -
  let ?m = "mem_run [mem_ok_reading 1 300, mem_ok_reading 2 350]"
  let ?ms = "[MemMod ?m, GpuMod (gpu_run False)]"
  let ?c = "at_time (4 * second) (fresh_conn (demo_app ?ms run3_heap))"
  let ?r = "get_request ''/metrics'' (peak_query ''10s'')"
  have st: "app_mods (server_state ?c) = ?ms" "app_heap (server_state ?c) = run3_heap"
    "clock_now (env ?c) = 4 * second"
    by (simp_all add: demo_app_def at_time_def)
  have p: "rquery ?r ''mode'' = ''peak''" "distinct (map mod_Name (app_mods (server_state ?c)))" "unsent (resp ?c)"
    by (simp_all add: get_request_def demo_app_def peak_query_def at_time_def)
  have w: "ParseDurationParam (rquery ?r ''window'') (60 * second) = (10 * second, True)"
    by (simp add: get_request_def peak_query_def) code_simp
  obtain b where b: "mem_base ?m = Some b"
    and h: "mem_History (4 * second) ?m (10 * second)
      = [mem_sample_of (mem_ok_reading 1 300), mem_sample_of (mem_ok_reading 2 350)]"
    using mem_run_state [of "[mem_ok_reading 1 300, mem_ok_reading 2 350]" "4 * second" "10 * second"] by auto
  obtain q where q: "mem_Peak (4 * second) (10 * second) ?m = Ptr (Some q)" "UsedNoCacheBytes q = 400"
    unfolding mem_Peak_eq [OF b] h
    by (auto simp: mem_sample_of_def mem_ok_reading_def vm_of_def usedWithoutReclaimable_def Let_def)
  have mem: "visible (peak_value (4 * second) (10 * second) run3_heap (MemMod ?m)) = MemSample (Some q)"
    unfolding peak_value_def by (simp only: mod_Peak.simps q(1)) (simp add: box_def)
  have gpu: "visible (peak_value (4 * second) (10 * second) run3_heap (GpuMod (gpu_run False))) = NoSample"
    using gpu_run_state [of False] by (auto simp: peak_value_def)
  obtain doc c1 where "combined_ServeHTTP (\<lambda>_. ''now'') ?r ?c = (Returned, c1)"
    "\<forall>m \<in> set ?ms. shown (mod_Name m) doc = visible (peak_value (4 * second) (10 * second) run3_heap m)"
    "Mode doc = ''peak''" "Handlers.WindowSeconds doc = int_Seconds (10 * second)"
    using combined_peak_view [OF p w, of "\<lambda>_. ''now''"] unfolding st if_True by metis
  moreover have "int_Seconds (10 * second) = 10" using int_Seconds_exact [of "10 * second"] by simp
  ultimately show ?thesis using mem gpu q(2)
    by (intro exI [of _ doc] exI [of _ c1] exI [of _ q]) simp
qed

section \<open>Health\<close>

definition age_at :: "heap \<Rightarrow> instant \<Rightarrow> app_module \<Rightarrow> duration" where
  "age_at h t m = projr (mod_LastSampleAge t h m)"

definition ageable :: "heap \<Rightarrow> app_module \<Rightarrow> bool" where
  \<comment> \<open>reading the age does not panic: a CPU module has its base\<close>
  "ageable h m \<longleftrightarrow> (case m of CpuMod x \<Rightarrow> cpu_base x \<noteq> None | _ \<Rightarrow> True)"

lemma ageable_age: "ageable h m \<Longrightarrow> mod_LastSampleAge t h m = Inr (age_at h t m)"
  by (cases m) (auto simp: ageable_def age_at_def cpu_LastSampleAge_def)

definition entry_of :: "(nat \<Rightarrow> instant) \<Rightarrow> heap \<Rightarrow> nat \<Rightarrow> app_module \<Rightarrow> module_health" where
  "entry_of clk h i m =
     (if mod_Enabled m
      then \<lparr>mhEnabled = True, LastSampleAgeMs = Some (Milliseconds (age_at h (clk (2 * i)) m)), mhDisabledReason = ''''\<rparr>
      else \<lparr>mhEnabled = False, LastSampleAgeMs = None, mhDisabledReason = mod_DisabledReason m\<rparr>)"

definition stale :: "(nat \<Rightarrow> instant) \<Rightarrow> duration \<Rightarrow> heap \<Rightarrow> nat \<Rightarrow> app_module \<Rightarrow> bool" where
  "stale clk mx h i m \<longleftrightarrow> mod_Enabled m \<and> mx < age_at h (clk (2 * i + 1)) m"

lemma health_loop_result:
  assumes "\<forall>m \<in> set ms. ageable h m"
  shows "health_loop clk mx h i ms r0 = Inr
    (r0\<lparr>Status := if \<exists>j < length ms. stale clk mx h (i + j) (ms ! j) then ''degraded'' else Status r0,
        HealthModules := fold (\<lambda>(j, m). AList.update (mod_Name m) (entry_of clk h j m))
          (enumerate i ms) (HealthModules r0)\<rparr>)"
  using assms
proof (induction ms arbitrary: i r0)
  case (Cons m ms)
  have any: "(\<exists>j < length (m # ms). stale clk mx h (i + j) ((m # ms) ! j))
      \<longleftrightarrow> stale clk mx h i m \<or> (\<exists>j < length ms. stale clk mx h (Suc i + j) (ms ! j))"
    by (simp add: Ex_less_Suc2)
  have age: "mod_LastSampleAge t h m = Inr (age_at h t m)" for t using ageable_age Cons.prems by simp
  show ?case
    unfolding any using Cons.prems
    by (auto simp: age Cons.IH entry_of_def stale_def Let_def)
qed simp

lemma map_of_fold_update:
  assumes "distinct (map (f \<circ> snd) xs)"
  shows "map_of (fold (\<lambda>(j, m). AList.update (f m) (g j m)) xs al) k
    = (case map_of (map (\<lambda>(j, m). (f m, g j m)) xs) k of None \<Rightarrow> map_of al k | Some e \<Rightarrow> Some e)"
  using assms
proof (induction xs arbitrary: al)
  case (Cons x xs)
  obtain j m where x: "x = (j, m)" by (cases x)
  have "f m \<notin> fst ` set (map (\<lambda>(j, m). (f m, g j m)) xs)" using Cons.prems x by (auto simp: image_iff)
  then have "map_of (map (\<lambda>(j, m). (f m, g j m)) xs) (f m) = None" by (simp add: map_of_eq_None_iff)
  then show ?case using Cons x by (auto simp: update_conv' split: option.split)
qed simp

lemma encodable_health [simp]: "encodable (json_of_health hr)"
  by (auto simp: json_of_health_def json_of_module_health_def list_all_iff omit_ptr_def omit_string_def split: option.splits if_splits)

lemma health_answer:
  assumes mods: "app_mods (server_state c) = ms" "app_heap (server_state c) = h"
    and fine: "distinct (map mod_Name ms)" "\<forall>m \<in> set ms. ageable h m" "unsent (resp c)"
  shows "\<exists>hr c1. health_ServeHTTP start clk mx r c = (Returned, c1) \<and> server_state c1 = server_state c
    \<and> written (resp c1) = [Doc (json_of_health hr)]
    \<and> (if \<exists>j < length ms. stale clk mx h j (ms ! j)
       then Status hr = ''degraded'' \<and> wire_status (resp c1) = Some 503
       else Status hr = ''ok'' \<and> wire_status (resp c1) = Some 200)
    \<and> (\<forall>j < length ms. map_of (HealthModules hr) (mod_Name (ms ! j)) = Some (entry_of clk h j (ms ! j)))
    \<and> fst ` set (HealthModules hr) = mod_Name ` set ms"
proof -
  let ?es = "map (\<lambda>(j, m). (mod_Name m, entry_of clk h j m)) (enumerate 0 ms)"
  let ?al = "fold (\<lambda>(j, m). AList.update (mod_Name m) (entry_of clk h j m)) (enumerate 0 ms) []"
  let ?s = "if \<exists>j < length ms. stale clk mx h j (ms ! j) then ''degraded'' else ''ok''"
  let ?hr = "\<lparr>Status = ?s, UptimeSeconds = int_Seconds (since (clock_now (env c)) start), HealthModules = ?al\<rparr>"
  let ?c1 = "on_resp (h_writeJSON (healthStatus ?s) (json_of_health ?hr) False) c"
  have names: "map fst ?es = map mod_Name ms" "map (mod_Name \<circ> snd) (enumerate 0 ms) = map mod_Name ms"
    by (simp_all add: case_prod_unfold comp_def flip: map_map [unfolded comp_def])
  have look: "map_of ?al k = map_of ?es k" for k
    unfolding map_of_fold_update [where f = mod_Name and g = "entry_of clk h", OF fine(1) [folded names(2)]]
    by (simp split: option.split)
  have entry: "map_of ?al (mod_Name (ms ! j)) = Some (entry_of clk h j (ms ! j))" if "j < length ms" for j
  proof -
    have "(mod_Name (ms ! j), entry_of clk h j (ms ! j)) \<in> set ?es"
      using that unfolding set_map by (intro image_eqI [of _ _ "(j, ms ! j)"]) (simp_all add: in_set_enumerate_eq)
    then show ?thesis unfolding look using fine(1) names(1) by (intro map_of_is_SomeI) simp_all
  qed
  have dom: "fst ` set ?al = mod_Name ` set ms"
  proof -
    have "map_of ?al = map_of ?es" using look by (rule ext)
    then have "dom (map_of ?al) = dom (map_of ?es)" by (rule arg_cong)
    then have "fst ` set ?al = set (map fst ?es)" unfolding dom_map_of_conv_image_fst by (simp only: set_map)
    then show ?thesis unfolding names(1) by (simp only: set_map)
  qed
  have e: "health_ServeHTTP start clk mx r c = (Returned, ?c1)"
    using health_loop_result [OF fine(2), where i = 0]
    by (cases "\<exists>j < length ms. stale clk mx h j (ms ! j)") (auto simp: health_ServeHTTP_def mods respond_def Let_def)
  show ?thesis
    unfolding e using entry dom h_writeJSON_wire [OF fine(3) encodable_health, where ns = False]
    by (intro exI [of _ ?hr] exI [of _ ?c1]) (simp add: healthStatus_def)
qed

text \<open>
  C20. \<open>/health\<close> answers 503 exactly when an enabled module's second age reading exceeds the limit,
  and 200 otherwise; the document's status agrees with the code, it has an entry for every module
  (a disabled one with its reason, an enabled one with its first age reading) and for no other
  name, and the server's state is untouched.
\<close>

theorem health_reports_staleness:
  assumes mods: "app_mods (server_state c) = ms" "app_heap (server_state c) = h"
    and fine: "distinct (map mod_Name ms)" "\<forall>m \<in> set ms. ageable h m" "unsent (resp c)"
  shows "\<exists>hr c1. health_ServeHTTP start clk mx r c = (Returned, c1) \<and> server_state c1 = server_state c
    \<and> written (resp c1) = [Doc (json_of_health hr)]
    \<and> (if \<exists>j < length ms. stale clk mx h j (ms ! j)
       then Status hr = ''degraded'' \<and> wire_status (resp c1) = Some 503
       else Status hr = ''ok'' \<and> wire_status (resp c1) = Some 200)
    \<and> (\<forall>j < length ms. map_of (HealthModules hr) (mod_Name (ms ! j)) = Some (entry_of clk h j (ms ! j)))
    \<and> fst ` set (HealthModules hr) = mod_Name ` set ms"
  using health_answer [OF assms] .

theorem health_reports_staleness_witness:
  "\<exists>hr c1. health_ServeHTTP 0 (\<lambda>_. 5 * second) (2 * second) (get_request ''/health'' (\<lambda>_. ''''))
      (fresh_conn (demo_app [MemMod (mem_run [mem_ok_reading 1 300, mem_ok_reading 2 350]), GpuMod (gpu_run False)] run3_heap))
      = (Returned, c1)
    \<and> wire_status (resp c1) = Some 503 \<and> written (resp c1) = [Doc (json_of_health hr)]
    \<and> fst ` set (HealthModules hr) = {''memory'', ''gpu''}"
proof -
  let ?ms = "[MemMod (mem_run [mem_ok_reading 1 300, mem_ok_reading 2 350]), GpuMod (gpu_run False)]"
  let ?c = "fresh_conn (demo_app ?ms run3_heap)"
  have fine: "app_mods (server_state ?c) = ?ms" "app_heap (server_state ?c) = run3_heap"
    "distinct (map mod_Name ?ms)" "\<forall>m \<in> set ?ms. ageable run3_heap m" "unsent (resp ?c)"
    by (simp_all add: demo_app_def ageable_def)
  have "stale (\<lambda>_. 5 * second) (2 * second) run3_heap 0 (?ms ! 0)"
  proof -
    obtain b0 where b0: "NewBase mem_zero_sample second 3 = Inr b0" using NewBase_ok [of 3] by fastforce
    have base: "mem_base mem_empty = Some b0" by (simp add: mem_empty_def b0)
    have "mem_LastSampleAge (5 * second) (mem_run [mem_ok_reading 1 300, mem_ok_reading 2 350]) = 3 * second"
      using mem.age_after [OF base NewBase_inv [OF b0], of "[mem_ok_reading 1 300, mem_ok_reading 2 350]" "5 * second"]
      unfolding mem_run_def by (simp add: mem_ok_reading_def since_def)
    then show ?thesis unfolding stale_def age_at_def by (simp only: nth_Cons_0 mod_LastSampleAge.simps) simp
  qed
  then have st: "\<exists>j < length ?ms. stale (\<lambda>_. 5 * second) (2 * second) run3_heap j (?ms ! j)" by (intro exI [of _ 0]) simp
  obtain hr c1 where "health_ServeHTTP 0 (\<lambda>_. 5 * second) (2 * second) (get_request ''/health'' (\<lambda>_. '''')) ?c = (Returned, c1)"
    "wire_status (resp c1) = Some 503" "written (resp c1) = [Doc (json_of_health hr)]"
    "fst ` set (HealthModules hr) = mod_Name ` set ?ms"
    using health_reports_staleness [OF fine, of 0 "\<lambda>_. 5 * second" "2 * second" "get_request ''/health'' (\<lambda>_. '''')"]
    unfolding if_P [OF st] by blast
  moreover have "mod_Name ` set ?ms = {''memory'', ''gpu''}" by simp
  ultimately show ?thesis by metis
qed

end
