(* ===== verification/Profile.thy ===== *)
theory Profile
  imports Handlers
begin

text \<open>
  The \<open>/profile\<close> handler of \<^verbatim>\<open>internal/server/handlers/profile.go\<close>: a snapshot of the host and of the
  modules' static data, captured when the server starts and served unchanged afterwards. Sizes of
  slices are the code's: a nil slice is \<open>None\<close>.
\<close>

section \<open>The response\<close>

record profile_sampler =
  IntervalMs :: int
  HistoryCapacity :: int

record profile_cpu =
  pcEnabled :: bool
  pcModelName :: string
  pcVendor :: string
  pcArchitecture :: string
  pcCoreCount :: int
  pcStartupError :: string

record profile_memory =
  pmEnabled :: bool
  pmTotalBytes :: u64
  pmStartupError :: string

record profile_gpu =
  pgEnabled :: bool
  pgDisabledReason :: string
  pgDeviceCount :: int
  pgDevices :: "profile_device list option"

record profile_storage =
  psEnabled :: bool
  psMountPoints :: "mount_point list option"

record profile_response =
  Hostname :: string
  GoVersion :: string
  StartedAt :: string
  ServerTimezone :: string
  ServerTimezoneOffsetSeconds :: int
  HostBootTimeUnixSeconds :: u64
  HostBootTimeLocal :: string
  Sampler :: profile_sampler
  ProfCPU :: profile_cpu
  ProfMemory :: profile_memory
  ProfGPU :: profile_gpu
  ProfStorage :: profile_storage

definition json_of_profile :: "profile_response \<Rightarrow> json" where
  "json_of_profile p =
     JObject ([(''hostname'', JString (Hostname p)), (''go_version'', JString (GoVersion p)),
       (''started_at'', JString (StartedAt p)), (''server_timezone'', JString (ServerTimezone p)),
       (''server_timezone_offset_seconds'', JInt (ServerTimezoneOffsetSeconds p))]
       @ omit_int ''host_boot_time_unix_seconds'' (uint (HostBootTimeUnixSeconds p))
       @ omit_string ''host_boot_time_local'' (HostBootTimeLocal p)
       @ [(''sampler'', JObject [(''interval_ms'', JInt (IntervalMs (Sampler p))),
             (''history_capacity'', JInt (HistoryCapacity (Sampler p)))]),
          (''modules'', JObject
            [(''cpu'', let i = ProfCPU p in JObject ([(''enabled'', JBool (pcEnabled i))]
                @ omit_string ''model_name'' (pcModelName i) @ omit_string ''vendor'' (pcVendor i)
                @ omit_string ''architecture'' (pcArchitecture i) @ [(''core_count'', JInt (pcCoreCount i))]
                @ omit_string ''startup_error'' (pcStartupError i))),
             (''memory'', let i = ProfMemory p in JObject ([(''enabled'', JBool (pmEnabled i)),
                (''total_bytes'', JInt (uint (pmTotalBytes i)))] @ omit_string ''startup_error'' (pmStartupError i))),
             (''gpu'', let i = ProfGPU p in JObject ([(''enabled'', JBool (pgEnabled i))]
                @ omit_string ''disabled_reason'' (pgDisabledReason i)
                @ [(''device_count'', JInt (pgDeviceCount i)),
                   (''devices'', jslice json_of_profile_device (pgDevices i))])),
             (''storage'', let i = ProfStorage p in JObject [(''enabled'', JBool (psEnabled i)),
                (''mount_points'', jslice json_of_mount_point (psMountPoints i))])])])"

section \<open>The handler\<close>

record profile_handler =
  ph_start :: instant
  ph_hostname :: string
  serverTimezone :: string
  serverTimezoneOffsetSeconds :: int
  hostBootTimeUnixSeconds :: u64
  hostBootTimeLocal :: string
  ph_sampler :: profile_sampler
  ph_mods :: "string \<rightharpoonup> app_module"
  \<comment> \<open>the modules' profiles and enabled flags never change after construction\<close>

record local_clock =
  \<comment> \<open>the standard library's view of the local time zone, and of an instant in it or in UTC\<close>
  now_utc :: instant
  zone :: "string \<times> int"
  format_local :: "int \<Rightarrow> string"
  format_utc_nano :: "instant \<Rightarrow> string"

definition index_mods :: "app_module list \<Rightarrow> string \<rightharpoonup> app_module" where
  "index_mods ms = fold (\<lambda>m idx. idx(mod_Name m \<mapsto> m)) ms Map.empty"

definition NewProfile ::
  "local_clock \<Rightarrow> string + u64 \<Rightarrow> string \<Rightarrow> profile_sampler \<Rightarrow> app_module list \<Rightarrow> profile_handler" where
  \<comment> \<open>the second argument is the answer of gopsutil's \<open>host.BootTime\<close>; \<open>int64(boot)\<close> is a signed cast\<close>
  "NewProfile lc boot hostname sampler ms =
     (let (z, offset) = zone lc;
          (bootUnix, bootLocal) = (case boot of Inr b \<Rightarrow> (b, format_local lc (sint b)) | Inl err \<Rightarrow> (0, ''''))
      in \<lparr>ph_start = now_utc lc,
          ph_hostname = (if hostname = '''' then ''unknown'' else hostname),
          serverTimezone = z, serverTimezoneOffsetSeconds = offset,
          hostBootTimeUnixSeconds = bootUnix, hostBootTimeLocal = bootLocal,
          ph_sampler = sampler, ph_mods = index_mods ms\<rparr>)"

text \<open>The four \<open>if\<close> blocks; \<open>None\<close> is the panic of a type assertion on another module's profile.\<close>

definition profile_cpu_block :: "(string \<rightharpoonup> app_module) \<Rightarrow> profile_cpu option" where
  "profile_cpu_block idx =
     (case idx ''cpu'' of
        None \<Rightarrow> Some \<lparr>pcEnabled = False, pcModelName = '''', pcVendor = '''', pcArchitecture = '''',
                   pcCoreCount = 0, pcStartupError = ''''\<rparr>
      | Some (CpuMod m) \<Rightarrow> (let i = cpu_profile_info m in
          Some \<lparr>pcEnabled = mod_Enabled (CpuMod m), pcModelName = ModelName i, pcVendor = Vendor i,
            pcArchitecture = Architecture i, pcCoreCount = ProfileCoreCount i, pcStartupError = cpu_profile.StartupError i\<rparr>)
      | Some _ \<Rightarrow> None)"

definition profile_memory_block :: "(string \<rightharpoonup> app_module) \<Rightarrow> profile_memory option" where
  "profile_memory_block idx =
     (case idx ''memory'' of
        None \<Rightarrow> Some \<lparr>pmEnabled = False, pmTotalBytes = 0, pmStartupError = ''''\<rparr>
      | Some (MemMod m) \<Rightarrow> (let i = mem_profile_info m in
          Some \<lparr>pmEnabled = mod_Enabled (MemMod m), pmTotalBytes = ProfileTotalBytes i,
            pmStartupError = mem_profile.StartupError i\<rparr>)
      | Some _ \<Rightarrow> None)"

definition profile_gpu_block :: "(string \<rightharpoonup> app_module) \<Rightarrow> profile_gpu option" where
  "profile_gpu_block idx =
     (case idx ''gpu'' of
        None \<Rightarrow> Some \<lparr>pgEnabled = False, pgDisabledReason = '''', pgDeviceCount = 0, pgDevices = None\<rparr>
      | Some (GpuMod m) \<Rightarrow> (let i = gpu_profile_info m in
          Some \<lparr>pgEnabled = mod_Enabled (GpuMod m), pgDisabledReason = ProfileDisabledReason i,
            pgDeviceCount = DeviceCount i, pgDevices = ProfileDevices i\<rparr>)
      | Some _ \<Rightarrow> None)"

definition profile_storage_block :: "(string \<rightharpoonup> app_module) \<Rightarrow> profile_storage option" where
  "profile_storage_block idx =
     (case idx ''storage'' of
        None \<Rightarrow> Some \<lparr>psEnabled = False, psMountPoints = None\<rparr>
      | Some (StorageMod m) \<Rightarrow>
          Some \<lparr>psEnabled = mod_Enabled (StorageMod m), psMountPoints = Some (storage_profile m)\<rparr>
      | Some _ \<Rightarrow> None)"

definition profile_response_of :: "local_clock \<Rightarrow> string \<Rightarrow> profile_handler \<Rightarrow> profile_response option" where
  "profile_response_of lc version h =
     (case (profile_cpu_block (ph_mods h), profile_memory_block (ph_mods h),
            profile_gpu_block (ph_mods h), profile_storage_block (ph_mods h)) of
        (Some pc, Some pm, Some pg, Some ps) \<Rightarrow>
          Some \<lparr>Hostname = ph_hostname h, GoVersion = version, StartedAt = format_utc_nano lc (ph_start h),
            ServerTimezone = serverTimezone h, ServerTimezoneOffsetSeconds = serverTimezoneOffsetSeconds h,
            HostBootTimeUnixSeconds = hostBootTimeUnixSeconds h, HostBootTimeLocal = hostBootTimeLocal h,
            Sampler = ph_sampler h, ProfCPU = pc, ProfMemory = pm, ProfGPU = pg, ProfStorage = ps\<rparr>
      | _ \<Rightarrow> None)"

definition profile_ServeHTTP :: "local_clock \<Rightarrow> string \<Rightarrow> profile_handler \<Rightarrow> 's handler" where
  "profile_ServeHTTP lc version h r c =
     (case profile_response_of lc version h of
        None \<Rightarrow> (Panicking ''interface conversion'', c)
      | Some p \<Rightarrow> respond (h_writeJSON 0 (json_of_profile p) True) c)"


section \<open>Properties\<close>

lemma index_mods_lookup:
  assumes "distinct (map mod_Name ms)"
  shows "index_mods ms k = Some m \<longleftrightarrow> m \<in> set ms \<and> mod_Name m = k"
proof -
  have "fold (\<lambda>m idx. idx(mod_Name m \<mapsto> m)) ms idx0 k = Some m
      \<longleftrightarrow> m \<in> set ms \<and> mod_Name m = k \<or> k \<notin> mod_Name ` set ms \<and> idx0 k = Some m" for idx0
    using assms by (induction ms arbitrary: idx0) auto
  from this [of Map.empty] show ?thesis by (simp add: index_mods_def)
qed

lemma index_mods_kind: "index_mods ms k = Some m \<Longrightarrow> mod_Name m = k"
proof -
  have "fold (\<lambda>m idx. idx(mod_Name m \<mapsto> m)) ms idx0 k = Some m \<Longrightarrow> \<forall>m. idx0 k = Some m \<longrightarrow> mod_Name m = k
      \<Longrightarrow> mod_Name m = k" for idx0
    by (induction ms arbitrary: idx0) (auto split: if_splits)
  from this [of Map.empty] show "index_mods ms k = Some m \<Longrightarrow> mod_Name m = k" by (simp add: index_mods_def)
qed

lemma mod_of_kind:
  "mod_Name m = ''cpu'' \<longleftrightarrow> (\<exists>x. m = CpuMod x)" "mod_Name m = ''memory'' \<longleftrightarrow> (\<exists>x. m = MemMod x)"
  "mod_Name m = ''gpu'' \<longleftrightarrow> (\<exists>x. m = GpuMod x)" "mod_Name m = ''storage'' \<longleftrightarrow> (\<exists>x. m = StorageMod x)"
  by (cases m; simp)+

lemma index_mods_cases:
  "(\<exists>m. index_mods ms ''cpu'' = Some (CpuMod m)) \<or> index_mods ms ''cpu'' = None"
  "(\<exists>m. index_mods ms ''memory'' = Some (MemMod m)) \<or> index_mods ms ''memory'' = None"
  "(\<exists>m. index_mods ms ''gpu'' = Some (GpuMod m)) \<or> index_mods ms ''gpu'' = None"
  "(\<exists>m. index_mods ms ''storage'' = Some (StorageMod m)) \<or> index_mods ms ''storage'' = None"
  subgoal using index_mods_kind [of ms "''cpu''"] by (cases "index_mods ms ''cpu''") (simp_all add: mod_of_kind)
  subgoal using index_mods_kind [of ms "''memory''"] by (cases "index_mods ms ''memory''") (simp_all add: mod_of_kind)
  subgoal using index_mods_kind [of ms "''gpu''"] by (cases "index_mods ms ''gpu''") (simp_all add: mod_of_kind)
  subgoal using index_mods_kind [of ms "''storage''"] by (cases "index_mods ms ''storage''") (simp_all add: mod_of_kind)
  done

lemma blocks_total:
  "\<exists>b. profile_cpu_block (index_mods ms) = Some b" "\<exists>b. profile_memory_block (index_mods ms) = Some b"
  "\<exists>b. profile_gpu_block (index_mods ms) = Some b" "\<exists>b. profile_storage_block (index_mods ms) = Some b"
  using index_mods_cases [of ms]
  by (auto simp: profile_cpu_block_def profile_memory_block_def profile_gpu_block_def
      profile_storage_block_def Let_def)

lemma encodable_profile [simp]: "encodable (json_of_profile p)"
  by (auto simp: json_of_profile_def json_of_profile_device_def json_of_mount_point_def jslice_def Let_def
      list_all_iff omit_int_def omit_string_def split: option.splits)

lemma NewProfile_fields [simp]:
  "ph_mods (NewProfile lc boot hn sampler ms) = index_mods ms"
  "ph_hostname (NewProfile lc boot hn sampler ms) = (if hn = '''' then ''unknown'' else hn)"
  "ph_sampler (NewProfile lc boot hn sampler ms) = sampler"
  "serverTimezone (NewProfile lc boot hn sampler ms) = fst (zone lc)"
  "hostBootTimeUnixSeconds (NewProfile lc boot hn sampler ms) = (case boot of Inr b \<Rightarrow> b | Inl err \<Rightarrow> 0)"
  by (auto simp: NewProfile_def Let_def split: prod.splits sum.splits)

text \<open>
  C21. \<open>/profile\<close> never panics on a module's profile and answers 200, uncached, with a document that
  is a function of what the server captured at start: it does not depend on the request or the
  connection. A present module's block holds its static data; an absent module still has a block,
  with \<open>enabled\<close> false and empty data. The host name is never empty and the boot time is zero when
  it could not be read.
\<close>

theorem profile_snapshot:
  assumes "distinct (map mod_Name ms)" "h = NewProfile lc boot hn sampler ms"
  shows "\<exists>p. (\<forall>r c. unsent (resp c) \<longrightarrow>
       (\<exists>c1. profile_ServeHTTP lc v h r c = (Returned, c1) \<and> server_state c1 = server_state c
         \<and> wire_status (resp c1) = Some 200 \<and> written (resp c1) = [Doc (json_of_profile p)]
         \<and> wire_header (resp c1) ''Cache-Control'' = [''no-store'']))
    \<and> Hostname p \<noteq> '''' \<and> Sampler p = sampler
    \<and> HostBootTimeUnixSeconds p = (case boot of Inr b \<Rightarrow> b | Inl err \<Rightarrow> 0)
    \<and> (\<forall>m. CpuMod m \<in> set ms \<longrightarrow> pcEnabled (ProfCPU p) \<and> pcModelName (ProfCPU p) = ModelName (cpu_profile_info m)
         \<and> pcCoreCount (ProfCPU p) = ProfileCoreCount (cpu_profile_info m))
    \<and> (\<forall>m. MemMod m \<in> set ms \<longrightarrow> pmEnabled (ProfMemory p)
         \<and> pmTotalBytes (ProfMemory p) = ProfileTotalBytes (mem_profile_info m))
    \<and> (\<forall>m. GpuMod m \<in> set ms \<longrightarrow> pgEnabled (ProfGPU p) = enabled m
         \<and> pgDevices (ProfGPU p) = ProfileDevices (gpu_profile_info m))
    \<and> (\<forall>m. StorageMod m \<in> set ms \<longrightarrow> psEnabled (ProfStorage p) \<and> psMountPoints (ProfStorage p) = Some (mounts m))
    \<and> (''cpu'' \<notin> mod_Name ` set ms \<longrightarrow> \<not> pcEnabled (ProfCPU p))
    \<and> (''memory'' \<notin> mod_Name ` set ms \<longrightarrow> \<not> pmEnabled (ProfMemory p))
    \<and> (''gpu'' \<notin> mod_Name ` set ms \<longrightarrow> \<not> pgEnabled (ProfGPU p))
    \<and> (''storage'' \<notin> mod_Name ` set ms \<longrightarrow> \<not> psEnabled (ProfStorage p))"
proof -
  obtain pc pm pg ps where b: "profile_cpu_block (index_mods ms) = Some pc"
    "profile_memory_block (index_mods ms) = Some pm" "profile_gpu_block (index_mods ms) = Some pg"
    "profile_storage_block (index_mods ms) = Some ps" using blocks_total by metis
  obtain p where p: "profile_response_of lc v h = Some p" and f: "ProfCPU p = pc" "ProfMemory p = pm"
    "ProfGPU p = pg" "ProfStorage p = ps" "Hostname p = ph_hostname h" "Sampler p = ph_sampler h"
    "HostBootTimeUnixSeconds p = hostBootTimeUnixSeconds h"
    using b by (auto simp: profile_response_of_def assms(2))
  note look = index_mods_lookup [OF assms(1)]
  have at: "m \<in> set ms \<Longrightarrow> index_mods ms (mod_Name m) = Some m" for m using look [of "mod_Name m" m] by simp
  have none: "index_mods ms k = None" if "k \<notin> mod_Name ` set ms" for k
  proof (rule ccontr)
    assume "index_mods ms k \<noteq> None"
    then obtain m where "index_mods ms k = Some m" by blast
    then have "m \<in> set ms" "mod_Name m = k" using look [of k m] by simp_all
    then show False using that imageI [of m "set ms" mod_Name] by simp
  qed
  have "\<forall>r c. unsent (resp c) \<longrightarrow>
       (\<exists>c1. profile_ServeHTTP lc v h r c = (Returned, c1) \<and> server_state c1 = server_state c
         \<and> wire_status (resp c1) = Some 200 \<and> written (resp c1) = [Doc (json_of_profile p)]
         \<and> wire_header (resp c1) ''Cache-Control'' = [''no-store''])"
    using h_writeJSON_wire [OF _ encodable_profile, where st = 0 and ns = True]
    by (simp add: profile_ServeHTTP_def p respond_def)
  moreover have "\<forall>m. CpuMod m \<in> set ms \<longrightarrow> pcEnabled pc \<and> pcModelName pc = ModelName (cpu_profile_info m)
      \<and> pcCoreCount pc = ProfileCoreCount (cpu_profile_info m)"
    using at [of "CpuMod x" for x] b(1) by (auto simp: profile_cpu_block_def Let_def)
  moreover have "\<forall>m. MemMod m \<in> set ms \<longrightarrow> pmEnabled pm \<and> pmTotalBytes pm = ProfileTotalBytes (mem_profile_info m)"
    using at [of "MemMod x" for x] b(2) by (auto simp: profile_memory_block_def Let_def)
  moreover have "\<forall>m. GpuMod m \<in> set ms \<longrightarrow> pgEnabled pg = enabled m \<and> pgDevices pg = ProfileDevices (gpu_profile_info m)"
    using at [of "GpuMod x" for x] b(3) by (auto simp: profile_gpu_block_def Let_def)
  moreover have "\<forall>m. StorageMod m \<in> set ms \<longrightarrow> psEnabled ps \<and> psMountPoints ps = Some (mounts m)"
    using at [of "StorageMod x" for x] b(4) by (auto simp: profile_storage_block_def storage_profile_def)
  moreover have "''cpu'' \<notin> mod_Name ` set ms \<longrightarrow> \<not> pcEnabled pc" "''memory'' \<notin> mod_Name ` set ms \<longrightarrow> \<not> pmEnabled pm"
    "''gpu'' \<notin> mod_Name ` set ms \<longrightarrow> \<not> pgEnabled pg" "''storage'' \<notin> mod_Name ` set ms \<longrightarrow> \<not> psEnabled ps"
    using b none by (auto simp: profile_cpu_block_def profile_memory_block_def profile_gpu_block_def
        profile_storage_block_def)
  moreover have "Hostname p \<noteq> ''''" "Sampler p = sampler"
    "HostBootTimeUnixSeconds p = (case boot of Inr b \<Rightarrow> b | Inl err \<Rightarrow> 0)"
    using f(5-7) by (simp_all add: assms(2))
  ultimately show ?thesis
    unfolding f(1-4) [symmetric] by (intro exI [of _ p] conjI)
qed

theorem profile_snapshot_witness:
  "\<exists>p c1. profile_ServeHTTP \<lparr>now_utc = 0, zone = (''UTC'', 0), format_local = (\<lambda>_. ''t''), format_utc_nano = (\<lambda>_. ''t'')\<rparr>
      ''go1.25'' (NewProfile \<lparr>now_utc = 0, zone = (''UTC'', 0), format_local = (\<lambda>_. ''t''), format_utc_nano = (\<lambda>_. ''t'')\<rparr>
        (Inl ''denied'') '''' \<lparr>IntervalMs = 1000, HistoryCapacity = 3\<rparr> [StorageMod demo_storage, GpuMod (gpu_run False)])
      (get_request ''/profile'' (\<lambda>_. '''')) (fresh_conn ()) = (Returned, c1)
    \<and> written (resp c1) = [Doc (json_of_profile p)] \<and> psMountPoints (ProfStorage p) = Some (mounts demo_storage)
    \<and> \<not> pgEnabled (ProfGPU p) \<and> \<not> pcEnabled (ProfCPU p) \<and> HostBootTimeUnixSeconds p = 0"
proof -
  let ?ms = "[StorageMod demo_storage, GpuMod (gpu_run False)]"
  have d: "distinct (map mod_Name ?ms)" and nc: "''cpu'' \<notin> mod_Name ` set ?ms"
    and s: "StorageMod demo_storage \<in> set ?ms" and g: "GpuMod (gpu_run False) \<in> set ?ms" by simp_all
  have u: "unsent (resp (fresh_conn ()))" by simp
  have off: "\<not> enabled (gpu_run False)" using gpu_run_state [of False] by auto
  let ?lc = "\<lparr>now_utc = 0, zone = (''UTC'', 0), format_local = (\<lambda>_. ''t''), format_utc_nano = (\<lambda>_. ''t'')\<rparr>"
  let ?h = "NewProfile ?lc (Inl ''denied'') '''' \<lparr>IntervalMs = 1000, HistoryCapacity = 3\<rparr> ?ms"
  obtain p where p: "\<forall>r c. unsent (resp (c :: unit conn)) \<longrightarrow> (\<exists>c1. profile_ServeHTTP ?lc ''go1.25'' ?h r c = (Returned, c1)
      \<and> server_state c1 = server_state c \<and> wire_status (resp c1) = Some 200
      \<and> written (resp c1) = [Doc (json_of_profile p)] \<and> wire_header (resp c1) ''Cache-Control'' = [''no-store''])"
    and b: "HostBootTimeUnixSeconds p = (case Inl ''denied'' of Inr b \<Rightarrow> b | Inl err \<Rightarrow> 0)"
    and m: "\<forall>m. GpuMod m \<in> set ?ms \<longrightarrow> pgEnabled (ProfGPU p) = enabled m \<and> pgDevices (ProfGPU p) = ProfileDevices (gpu_profile_info m)"
      "\<forall>m. StorageMod m \<in> set ?ms \<longrightarrow> psEnabled (ProfStorage p) \<and> psMountPoints (ProfStorage p) = Some (mounts m)"
    and n: "''cpu'' \<notin> mod_Name ` set ?ms \<longrightarrow> \<not> pcEnabled (ProfCPU p)"
    using profile_snapshot [OF d HOL.refl, of ?lc "''go1.25''" "Inl ''denied''" "''''" "\<lparr>IntervalMs = 1000, HistoryCapacity = 3\<rparr>"]
    by (elim exE conjE) (rule that)
  obtain c1 where "profile_ServeHTTP ?lc ''go1.25'' ?h (get_request ''/profile'' (\<lambda>_. '''')) (fresh_conn ()) = (Returned, c1)"
    "written (resp c1) = [Doc (json_of_profile p)]"
    using p u by blast
  moreover have "psMountPoints (ProfStorage p) = Some (mounts demo_storage)" using m(2) s by blast
  moreover have "\<not> pgEnabled (ProfGPU p)" using m(1) g off by blast
  moreover have "\<not> pcEnabled (ProfCPU p)" using n nc by blast
  moreover have "HostBootTimeUnixSeconds p = 0" using b by simp
  ultimately show ?thesis by blast
qed

end
