(* ===== verification/Lock.thy ===== *)
theory Lock
  imports Go_Strings
begin

text \<open>
  The PID file lock of \<^verbatim>\<open>internal/lock/lock.go\<close>. The operating system is a record: the files, which
  of them refuse to be read, written or removed, and the answer to signal 0 for a process number.
  \<open>Acquire\<close> and \<open>Release\<close> are first modelled as a whole; then their file accesses are separate steps
  of concurrent processes, since the check and the write are two accesses, and the write itself
  truncates the file before it fills it.
\<close>

section \<open>The operating system\<close>

datatype signal_answer = Delivered | NoSuchProcess | NotPermitted

record os =
  files :: "string \<rightharpoonup> string"
  unreadable :: "string \<Rightarrow> bool"
  unwritable :: "string \<Rightarrow> bool"
  unremovable :: "string \<Rightarrow> bool"
  signal0 :: "int \<Rightarrow> signal_answer"

definition ReadFile :: "string \<Rightarrow> os \<Rightarrow> string option" where
  "ReadFile path s = (if unreadable s path then None else files s path)"

definition WriteFile :: "string \<Rightarrow> string \<Rightarrow> os \<Rightarrow> bool \<times> os" where
  "WriteFile path data s =
     (if unwritable s path then (False, s) else (True, s\<lparr>files := (files s)(path \<mapsto> data)\<rparr>))"

definition Remove :: "string \<Rightarrow> os \<Rightarrow> bool \<times> os" where
  "Remove path s =
     (if unremovable s path \<or> files s path = None then (False, s)
      else (True, s\<lparr>files := (files s)(path := None)\<rparr>))"

section \<open>Acquire and Release\<close>

record lock =
  path :: string

datatype lock_error =
    AlreadyRunning int string
  | WriteFailed string

definition pidRunning :: "os \<Rightarrow> int \<Rightarrow> bool" where
  \<comment> \<open>on Unix \<open>os.FindProcess\<close> always succeeds; every error of the signal counts as not running\<close>
  "pidRunning s pid \<longleftrightarrow> signal0 s pid = Delivered"

definition holder_of :: "string option \<Rightarrow> int option" where
  \<comment> \<open>the process number a readable PID file names\<close>
  "holder_of content = (case content of None \<Rightarrow> None | Some t \<Rightarrow> Atoi (TrimSpace t))"

definition pid_text :: "int \<Rightarrow> string" where
  "pid_text pid = Itoa pid @ [CHR 0x0A]"

definition Acquire :: "int \<Rightarrow> string \<Rightarrow> os \<Rightarrow> (lock_error + lock) \<times> os" where
  \<comment> \<open>the first argument is \<open>os.Getpid()\<close>\<close>
  "Acquire ourPid p s =
     (case holder_of (ReadFile p s) of
        Some pid \<Rightarrow>
          if pidRunning s pid then (Inl (AlreadyRunning pid p), s)
          else (let (ok, s1) = WriteFile p (pid_text ourPid) s
                in if ok then (Inr \<lparr>path = p\<rparr>, s1) else (Inl (WriteFailed p), s1))
      | None \<Rightarrow>
          (let (ok, s1) = WriteFile p (pid_text ourPid) s
           in if ok then (Inr \<lparr>path = p\<rparr>, s1) else (Inl (WriteFailed p), s1)))"

definition Release :: "lock option \<Rightarrow> os \<Rightarrow> bool \<times> lock option \<times> os" where
  \<comment> \<open>the receiver may be nil; the flag says that no error is returned\<close>
  "Release l s =
     (case l of
        None \<Rightarrow> (True, None, s)
      | Some k \<Rightarrow> if path k = '''' then (True, Some k, s)
                  else let (ok, s1) = Remove (path k) s in (ok, Some (k\<lparr>path := ''''\<rparr>), s1))"

section \<open>Concurrent processes\<close>

text \<open>
  A process is somewhere in its life: started, past the check, with the file truncated, holding the
  lock, or absent (not started, ended or refused).
\<close>

datatype phase = Absent | Started | Checked | Truncated | Holding

record sys =
  pidfile :: "string option"
  phase :: "int \<Rightarrow> phase"

definition names_live :: "sys \<Rightarrow> bool" where
  \<comment> \<open>the file names a process that exists, so signal 0 reaches it\<close>
  "names_live s \<longleftrightarrow> (\<exists>pid. holder_of (pidfile s) = Some pid \<and> phase s pid \<noteq> Absent)"

definition in_window :: "sys \<Rightarrow> int \<Rightarrow> bool" where
  \<comment> \<open>between the read of the file and the end of its write\<close>
  "in_window s p \<longleftrightarrow> phase s p = Checked \<or> phase s p = Truncated"

inductive lock_step :: "bool \<Rightarrow> sys \<Rightarrow> sys \<Rightarrow> bool" for serial :: bool where
  spawn: "phase s p = Absent \<Longrightarrow> 0 < p \<Longrightarrow> p \<le> max_int64
     \<Longrightarrow> lock_step serial s (s\<lparr>phase := (phase s)(p := Started)\<rparr>)"
| refuse: "phase s p = Started \<Longrightarrow> names_live s
     \<Longrightarrow> lock_step serial s (s\<lparr>phase := (phase s)(p := Absent)\<rparr>)"
| check: "phase s p = Started \<Longrightarrow> \<not> names_live s \<Longrightarrow> serial \<longrightarrow> (\<forall>q. \<not> in_window s q)
     \<Longrightarrow> lock_step serial s (s\<lparr>phase := (phase s)(p := Checked)\<rparr>)"
| truncate: "phase s p = Checked
     \<Longrightarrow> lock_step serial s (s\<lparr>pidfile := Some [], phase := (phase s)(p := Truncated)\<rparr>)"
| fill: "phase s p = Truncated
     \<Longrightarrow> lock_step serial s (s\<lparr>pidfile := Some (pid_text p), phase := (phase s)(p := Holding)\<rparr>)"
| release: "phase s p = Holding
     \<Longrightarrow> lock_step serial s (s\<lparr>pidfile := None, phase := (phase s)(p := Absent)\<rparr>)"
| crash: "phase s p \<noteq> Absent
     \<Longrightarrow> lock_step serial s (s\<lparr>phase := (phase s)(p := Absent)\<rparr>)"

inductive_cases lock_stepE: "lock_step serial s s'"

inductive lock_run :: "bool \<Rightarrow> sys \<Rightarrow> sys \<Rightarrow> bool" for serial :: bool where
  none: "lock_run serial s s"
| more: "lock_run serial s s1 \<Longrightarrow> lock_step serial s1 s2 \<Longrightarrow> lock_run serial s s2"

definition lock_init :: "string option \<Rightarrow> sys" where
  \<comment> \<open>no process yet; the file is whatever an earlier run left\<close>
  "lock_init f = \<lparr>pidfile = f, phase = (\<lambda>_. Absent)\<rparr>"

section \<open>The PID file's text\<close>

lemma TrimSpace_line:
  assumes "s \<noteq> []" "\<forall>p \<in> set spaces. hd p \<noteq> hd s" "\<forall>p \<in> set spaces. last p \<noteq> last s"
  shows "TrimSpace (s @ [CHR 0x0A]) = s"
proof -
  have e: "\<forall>p \<in> set spaces. p \<noteq> []" by (simp add: spaces_def)
  obtain c cs where s: "s = c # cs" using assms(1) by (cases s) auto
  obtain ds d where r: "s = ds @ [d]" using assms(1) by (cases s rule: rev_cases) auto
  have 1: "strip_all spaces (s @ [CHR 0x0A]) = s @ [CHR 0x0A]"
    using strip_all_hd [of spaces c] assms(2) by (simp add: s)
  have h: "\<forall>p \<in> set (map rev spaces). p \<noteq> [] \<longrightarrow> hd p \<noteq> d"
    using assms(3) e by (simp add: r hd_rev)
  have "strip_one (map rev spaces) (CHR 0x0A # rev s) = Some (rev s)" by (simp add: spaces_def)
  then have "strip_all (map rev spaces) (rev (s @ [CHR 0x0A])) = strip_all (map rev spaces) (rev s)"
    by (simp add: strip_all.simps [of _ "CHR 0x0A # rev s"])
  also have "\<dots> = rev s" using strip_all_hd [OF h] by (simp add: r)
  finally show ?thesis by (simp add: TrimSpace_def 1)
qed

lemma spaces_not_digit: "p \<in> set spaces \<Longrightarrow> \<not> is_digit (hd p) \<and> \<not> is_digit (last p)"
  by (auto simp: spaces_def is_digit_def)

lemma holder_pid_text:
  assumes "0 < p" "p \<le> max_int64"
  shows "holder_of (Some (pid_text p)) = Some p"
proof -
  have d: "\<forall>c \<in> set (nat_text p). is_digit c" using nat_text_digits [of p] assms(1) by simp
  have "is_digit (hd (nat_text p))" "is_digit (last (nat_text p))" using d by simp_all
  then have "TrimSpace (nat_text p @ [CHR 0x0A]) = nat_text p"
    using spaces_not_digit by (intro TrimSpace_line ballI notI nat_text_nonempty; metis)
  moreover have "Atoi (nat_text p) = Some p" using Atoi_Itoa [of p] assms by (simp add: Itoa_def)
  ultimately show ?thesis using assms(1) by (simp add: holder_of_def pid_text_def Itoa_def)
qed


section \<open>Properties\<close>

text \<open>
  A successful \<open>Acquire\<close> leaves the process's own number in the file and no other file changed.
  From then on every \<open>Acquire\<close> on the same path fails with that number, as long as signal 0 reaches
  the holder; a holder that exists but may not be signalled is taken for dead and loses the file.
  \<open>Release\<close> removes the file, and a second \<open>Release\<close> does nothing.
\<close>

theorem lock_lifecycle:
  assumes "Acquire me p s = (Inr l, s1)" "0 < me" "me \<le> max_int64" "p \<noteq> ''''" "\<not> unreadable s p"
  shows "s1 = s\<lparr>files := (files s)(p \<mapsto> pid_text me)\<rparr> \<and> holder_of (files s1 p) = Some me
    \<and> (signal0 s me = Delivered \<longrightarrow> (\<forall>other. Acquire other p s1 = (Inl (AlreadyRunning me p), s1)))
    \<and> (signal0 s me \<noteq> Delivered \<longrightarrow> (\<forall>other. \<exists>l2 s2. Acquire other p s1 = (Inr l2, s2)
         \<and> files s2 p = Some (pid_text other)))
    \<and> (\<not> unremovable s p \<longrightarrow> (\<exists>l2 s2. Release (Some l) s1 = (True, Some l2, s2) \<and> files s2 = (files s)(p := None)
         \<and> Release (Some l2) s2 = (True, Some l2, s2)))"
proof -
  have s1: "s1 = s\<lparr>files := (files s)(p \<mapsto> pid_text me)\<rparr>" "l = \<lparr>path = p\<rparr>" "\<not> unwritable s p"
    using assms(1) by (auto simp: Acquire_def WriteFile_def Let_def split: option.splits if_splits)
  have h: "holder_of (ReadFile p s1) = Some me"
    using assms(5) holder_pid_text [OF assms(2,3)] by (simp add: ReadFile_def s1(1))
  have again: "Acquire other p s1 = (if signal0 s me = Delivered then (Inl (AlreadyRunning me p), s1)
      else (Inr \<lparr>path = p\<rparr>, s1\<lparr>files := (files s1)(p \<mapsto> pid_text other)\<rparr>))" for other
    using s1(3) by (simp add: Acquire_def h pidRunning_def WriteFile_def) (simp add: s1(1))
  have rel: "Release (Some l) s1 = (True, Some \<lparr>path = ''''\<rparr>, s1\<lparr>files := (files s1)(p := None)\<rparr>)"
    if "\<not> unremovable s p"
    using that assms(4) by (simp add: Release_def Remove_def s1)
  have "signal0 s me = Delivered \<longrightarrow> (\<forall>other. Acquire other p s1 = (Inl (AlreadyRunning me p), s1))"
    "signal0 s me \<noteq> Delivered \<longrightarrow> (\<forall>other. \<exists>l2 s2. Acquire other p s1 = (Inr l2, s2) \<and> files s2 p = Some (pid_text other))"
    by (simp_all add: again)
  moreover have "\<not> unremovable s p \<longrightarrow> (\<exists>l2 s2. Release (Some l) s1 = (True, Some l2, s2) \<and> files s2 = (files s)(p := None)
         \<and> Release (Some l2) s2 = (True, Some l2, s2))"
    using rel by (simp add: Release_def [of "Some \<lparr>path = ''''\<rparr>"]) (simp add: s1(1))
  moreover have "holder_of (files s1 p) = Some me" using holder_pid_text [OF assms(2,3)] by (simp add: s1(1))
  ultimately show ?thesis using s1(1) by (intro conjI)
qed

definition demo_os :: os where
  \<comment> \<open>processes 7 and 8 exist, and the file names a process that does not\<close>
  "demo_os = \<lparr>files = [''/tmp/monitor.pid'' \<mapsto> pid_text 99], unreadable = (\<lambda>_. False), unwritable = (\<lambda>_. False),
     unremovable = (\<lambda>_. False), signal0 = (\<lambda>p. if p = 7 \<or> p = 8 then Delivered else NoSuchProcess)\<rparr>"

lemma demo_fields:
  "signal0 demo_os 99 = NoSuchProcess" "signal0 demo_os 7 = Delivered" "\<not> unwritable demo_os q"
  "\<not> unreadable demo_os q" "\<not> unremovable demo_os q"
  by (simp_all add: demo_os_def)

theorem lock_lifecycle_witness:
  "\<exists>l s1. Acquire 7 ''/tmp/monitor.pid'' demo_os = (Inr l, s1)
    \<and> Acquire 8 ''/tmp/monitor.pid'' s1 = (Inl (AlreadyRunning 7 ''/tmp/monitor.pid''), s1)"
proof -
  have "holder_of (ReadFile ''/tmp/monitor.pid'' demo_os) = Some 99"
    using holder_pid_text [of 99] by (simp add: ReadFile_def demo_os_def)
  then obtain l s1 where a: "Acquire 7 ''/tmp/monitor.pid'' demo_os = (Inr l, s1)"
    by (simp add: Acquire_def pidRunning_def WriteFile_def demo_fields)
  have n: "(0::int) < 7" "7 \<le> max_int64" "''/tmp/monitor.pid'' \<noteq> ''''" by simp_all
  show ?thesis using lock_lifecycle [OF a n demo_fields(4)] demo_fields(2) a by blast
qed

text \<open>
  The invariant of serialised runs: one process at most is in the window or holds the lock, a held
  lock's file names its holder, and every process number is a positive 64-bit integer.
\<close>

definition claims :: "sys \<Rightarrow> int \<Rightarrow> bool" where
  "claims s p \<longleftrightarrow> in_window s p \<or> phase s p = Holding"

definition lock_inv :: "sys \<Rightarrow> bool" where
  "lock_inv s \<longleftrightarrow> (\<forall>p q. claims s p \<and> claims s q \<longrightarrow> p = q)
    \<and> (\<forall>p. phase s p = Holding \<longrightarrow> pidfile s = Some (pid_text p))
    \<and> (\<forall>p. phase s p \<noteq> Absent \<longrightarrow> 0 < p \<and> p \<le> max_int64)"

lemma claims_simps:
  "phase s p = Started \<Longrightarrow> \<not> claims s p" "phase s p = Absent \<Longrightarrow> \<not> claims s p"
  "phase s p = Checked \<Longrightarrow> claims s p" "phase s p = Truncated \<Longrightarrow> claims s p" "phase s p = Holding \<Longrightarrow> claims s p"
  by (simp_all add: claims_def in_window_def)

lemma claims_upd:
  "claims (s\<lparr>phase := (phase s)(p := x)\<rparr>) q
    \<longleftrightarrow> (if q = p then x \<in> {Checked, Truncated, Holding} else claims s q)"
  "claims (s\<lparr>pidfile := f, phase := (phase s)(p := x)\<rparr>) q
    \<longleftrightarrow> (if q = p then x \<in> {Checked, Truncated, Holding} else claims s q)"
  by (auto simp: claims_def in_window_def)

lemma not_live_no_holder:
  assumes "lock_inv s" "\<not> names_live s"
  shows "phase s q \<noteq> Holding"
proof
  assume q: "phase s q = Holding"
  then have "pidfile s = Some (pid_text q)" "0 < q" "q \<le> max_int64"
    using assms(1) by (simp_all add: lock_inv_def)
  then have "holder_of (pidfile s) = Some q" using holder_pid_text by simp
  then show False using assms(2) q by (simp add: names_live_def)
qed

lemma lock_inv_step: "lock_step True s s' \<Longrightarrow> lock_inv s \<Longrightarrow> lock_inv s'"
proof (induction rule: lock_step.induct)
  case (check s p)
  then have "\<not> claims s q" for q using not_live_no_holder by (simp add: claims_def)
  then show ?case using check by (auto simp: lock_inv_def claims_upd)
next
  case (truncate s p)
  then have "phase s q \<noteq> Holding" for q using claims_simps(3) [of s p] claims_simps(5) [of s q] 
    by (metis lock_inv_def phase.distinct(17))
  then show ?case using truncate claims_simps(3) [of s p] by (auto simp: lock_inv_def claims_upd)
next
  case (fill s p)
  then have "phase s q \<noteq> Holding" for q using claims_simps(4) [of s p] claims_simps(5) [of s q]
    by (metis lock_inv_def phase.distinct(19))
  then show ?case using fill claims_simps(4) [of s p] by (auto simp: lock_inv_def claims_upd)
next
  case (release s p)
  then have "phase s q \<noteq> Holding" if "q \<noteq> p" for q using that claims_simps(5) by (metis lock_inv_def)
  then show ?case using release by (auto simp: lock_inv_def claims_upd)
qed (auto simp: lock_inv_def claims_upd)

lemma lock_run_inv: "lock_run True s s' \<Longrightarrow> lock_inv s \<Longrightarrow> lock_inv s'"
  by (induction rule: lock_run.induct) (auto intro: lock_inv_step)


lemma lock_init_inv: "lock_inv (lock_init f)"
  by (simp add: lock_inv_def lock_init_def claims_def in_window_def)

text \<open>
  C6. As long as no process reads the file while another is between its read and the end of its
  write, at most one process holds the lock, whatever the file held before and however the
  processes start, crash and release; and the file then names the holder, so every other process
  is refused.
\<close>

theorem lock_mutual_exclusion:
  assumes "lock_run True (lock_init f) s" "phase s p = Holding" "phase s q = Holding"
  shows "p = q \<and> holder_of (pidfile s) = Some p \<and> names_live s"
proof -
  have inv: "lock_inv s" using lock_run_inv [OF assms(1) lock_init_inv] .
  then have "p = q" using assms(2,3) claims_simps(5) by (simp add: lock_inv_def)
  moreover have "pidfile s = Some (pid_text p)" "0 < p" "p \<le> max_int64"
    using inv assms(2) by (simp_all add: lock_inv_def)
  then have "holder_of (pidfile s) = Some p" using holder_pid_text by simp
  ultimately show ?thesis using assms(2) by (simp add: names_live_def)
qed

lemma take_lock:
  \<comment> \<open>a process that starts alone goes through to holding the lock\<close>
  assumes "phase s p = Started" "\<not> names_live s" "\<forall>q. \<not> in_window s q"
  shows "lock_run serial s (s\<lparr>pidfile := Some (pid_text p), phase := (phase s)(p := Holding)\<rparr>)"
proof -
  let ?s1 = "s\<lparr>phase := (phase s)(p := Checked)\<rparr>"
  let ?s2 = "?s1\<lparr>pidfile := Some [], phase := (phase ?s1)(p := Truncated)\<rparr>"
  let ?s3 = "?s2\<lparr>pidfile := Some (pid_text p), phase := (phase ?s2)(p := Holding)\<rparr>"
  have "lock_step serial s ?s1" using assms by (intro check) simp_all
  moreover have "lock_step serial ?s1 ?s2" by (intro truncate) simp
  moreover have "lock_step serial ?s2 ?s3" by (intro fill) simp
  ultimately have "lock_run serial s ?s3" by (meson none more)
  moreover have "?s3 = s\<lparr>pidfile := Some (pid_text p), phase := (phase s)(p := Holding)\<rparr>" by simp
  ultimately show ?thesis by simp
qed

theorem lock_mutual_exclusion_witness:
  "\<exists>s. lock_run True (lock_init (Some ''garbage'')) s \<and> phase s 7 = Holding \<and> names_live s"
proof -
  let ?i = "lock_init (Some ''garbage'')"
  let ?s = "?i\<lparr>phase := (phase ?i)(7 := Started)\<rparr>"
  let ?h = "?s\<lparr>pidfile := Some (pid_text 7), phase := (phase ?s)(7 := Holding)\<rparr>"
  have "lock_step True ?i ?s" by (intro spawn) (simp_all add: lock_init_def)
  then have one: "lock_run True ?i ?s" by (meson none more)
  have g: "holder_of (Some ''garbage'') = None" by code_simp
  have "lock_run True ?s ?h"
    by (intro take_lock) (auto simp: names_live_def g in_window_def lock_init_def)
  from this one have r: "lock_run True ?i ?h" by (induction rule: lock_run.induct) (auto intro: more)
  moreover have h: "phase ?h 7 = Holding" by simp
  ultimately show ?thesis using lock_mutual_exclusion [OF r h h] by blast
qed

text \<open>
  C27. Without that proviso the lock does not exclude: from an empty directory two processes can both
  come to hold it, each having read the file before the other wrote it. The file then names the
  second one only, and when the first one releases, the file is gone while the second still holds,
  so a third process is not refused.
\<close>

theorem lock_race:
  assumes "0 < p" "0 < q" "p \<le> max_int64" "q \<le> max_int64" "p \<noteq> q"
  shows "\<exists>s s'. lock_run False (lock_init None) s \<and> phase s p = Holding \<and> phase s q = Holding
    \<and> holder_of (pidfile s) = Some q
    \<and> lock_step False s s' \<and> phase s' p = Absent \<and> phase s' q = Holding \<and> \<not> names_live s'"
proof -
  define st where "st f a b = \<lparr>pidfile = f, phase = (\<lambda>_. Absent)(p := a, q := b)\<rparr>" for f a b
  have i: "lock_init None = st None Absent Absent" by (simp add: lock_init_def st_def fun_eq_iff)
  have upd: "st f a b \<lparr>phase := (phase (st f a b))(p := x)\<rparr> = st f x b"
    "st f a b \<lparr>phase := (phase (st f a b))(q := x)\<rparr> = st f a x"
    "st f a b \<lparr>pidfile := g, phase := (phase (st f a b))(p := x)\<rparr> = st g x b"
    "st f a b \<lparr>pidfile := g, phase := (phase (st f a b))(q := x)\<rparr> = st g a x" for f a b x g
    using assms(5) by (auto simp: st_def fun_eq_iff)
  have ph: "phase (st f a b) p = a" "phase (st f a b) q = b" "pidfile (st f a b) = f" for f a b
    using assms(5) by (simp_all add: st_def)
  have free: "\<not> names_live (st None a b)" for a b by (simp add: names_live_def ph holder_of_def)
  note step = spawn [of "st f a b" p for f a b, unfolded upd ph] spawn [of "st f a b" q for f a b, unfolded upd ph]
    check [of "st f a b" p for f a b, unfolded upd ph] check [of "st f a b" q for f a b, unfolded upd ph]
    truncate [of "st f a b" p for f a b, unfolded upd ph] truncate [of "st f a b" q for f a b, unfolded upd ph]
    fill [of "st f a b" p for f a b, unfolded upd ph] fill [of "st f a b" q for f a b, unfolded upd ph]
    release [of "st f a b" p for f a b, unfolded upd ph]
  have "lock_step False (st None Absent Absent) (st None Started Absent)" using assms by (intro step(1)) simp_all
  moreover have "lock_step False (st None Started Absent) (st None Started Started)" using assms by (intro step(2)) simp_all
  moreover have "lock_step False (st None Started Started) (st None Checked Started)" using free by (intro step(3)) simp_all
  moreover have "lock_step False (st None Checked Started) (st None Checked Checked)" using free by (intro step(4)) simp_all
  ultimately have "lock_run False (lock_init None) (st None Checked Checked)"
    unfolding i by (intro more [OF more [OF more [OF more [OF none]]]])
  then have "lock_run False (lock_init None) (st (Some (pid_text q)) Holding Holding)"
    by (meson more step(5-8))
  moreover have "lock_step False (st (Some (pid_text q)) Holding Holding) (st None Absent Holding)"
    using step(9) by blast
  ultimately show ?thesis using ph free holder_pid_text [OF assms(2,4)] by metis
qed

theorem lock_race_witness:
  "\<exists>s. lock_run False (lock_init None) s \<and> phase s 7 = Holding \<and> phase s 8 = Holding"
  using lock_race [of 7 8] by auto

section \<open>The whole operation and its steps\<close>

definition represents :: "string \<Rightarrow> sys \<Rightarrow> os \<Rightarrow> bool" where
  \<comment> \<open>the file is accessible and has the state's content, and signal 0 reaches exactly the processes that exist\<close>
  "represents p s o1 \<longleftrightarrow> files o1 p = pidfile s \<and> \<not> unreadable o1 p \<and> \<not> unwritable o1 p
     \<and> (\<forall>q. signal0 o1 q = Delivered \<longleftrightarrow> phase s q \<noteq> Absent)"

text \<open>
  C26. \<open>Acquire\<close> as one call is the run of its steps without interference: the state it leaves is one
  the steps reach, with the process holding the lock when the call succeeds and gone, the file
  untouched, when it is refused; it is refused exactly when the file names a process that exists,
  its own number included.
\<close>

theorem Acquire_refines:
  assumes "represents p s o1" "phase s me = Started" "\<forall>q. \<not> in_window s q" "Acquire me p o1 = (res, o2)"
  shows "\<exists>s'. lock_run True s s' \<and> pidfile s' = files o2 p
    \<and> (if names_live s
       then (\<exists>pid. res = Inl (AlreadyRunning pid p) \<and> phase s pid \<noteq> Absent) \<and> o2 = o1
         \<and> phase s' = (phase s)(me := Absent)
       else res = Inr \<lparr>path = p\<rparr> \<and> files o2 p = Some (pid_text me) \<and> phase s' = (phase s)(me := Holding))"
proof -
  have r: "ReadFile p o1 = pidfile s" and w: "\<not> unwritable o1 p"
    and live: "pidRunning o1 q \<longleftrightarrow> phase s q \<noteq> Absent" for q
    using assms(1) by (simp_all add: represents_def ReadFile_def pidRunning_def)
  show ?thesis
  proof (cases "names_live s")
    case True
    then obtain pid where pid: "holder_of (pidfile s) = Some pid" "phase s pid \<noteq> Absent"
      by (auto simp: names_live_def)
    then have e: "res = Inl (AlreadyRunning pid p)" "o2 = o1"
      using assms(4) by (simp_all add: Acquire_def r live)
    have "lock_run True s (s\<lparr>phase := (phase s)(me := Absent)\<rparr>)"
      using refuse [OF assms(2) True] by (meson none more)
    then show ?thesis using True e pid(2) assms(1)
      by (intro exI [of _ "s\<lparr>phase := (phase s)(me := Absent)\<rparr>"]) (simp add: represents_def)
  next
    case False
    then have e: "res = Inr \<lparr>path = p\<rparr>" "files o2 p = Some (pid_text me)"
      using assms(4) w by (auto simp: Acquire_def r live WriteFile_def names_live_def split: option.splits)
    have "lock_run True s (s\<lparr>pidfile := Some (pid_text me), phase := (phase s)(me := Holding)\<rparr>)"
      using take_lock [OF assms(2) False assms(3)] .
    then show ?thesis using False e
      by (intro exI [of _ "s\<lparr>pidfile := Some (pid_text me), phase := (phase s)(me := Holding)\<rparr>"]) simp
  qed
qed

text \<open>A file left by an earlier process with the number of the new one stops the new one: its own number is live.\<close>

theorem Acquire_refines_witness:
  "\<exists>s'. lock_run True \<lparr>pidfile = Some (pid_text 7), phase = (\<lambda>_. Absent)(7 := Started)\<rparr> s' \<and> phase s' 7 = Absent"
proof -
  let ?s = "\<lparr>pidfile = Some (pid_text 7), phase = (\<lambda>_. Absent)(7 := Started)\<rparr>"
  let ?o = "\<lparr>files = [''f'' \<mapsto> pid_text 7], unreadable = (\<lambda>_. False), unwritable = (\<lambda>_. False),
     unremovable = (\<lambda>_. False), signal0 = (\<lambda>p. if p = 7 then Delivered else NoSuchProcess)\<rparr>"
  have 1: "represents ''f'' ?s ?o" "phase ?s 7 = Started" "\<forall>q. \<not> in_window ?s q"
    by (simp_all add: represents_def in_window_def)
  have n: "names_live ?s" using holder_pid_text [of 7] by (simp add: names_live_def)
  obtain res o2 where a: "Acquire 7 ''f'' ?o = (res, o2)" by (cases "Acquire 7 ''f'' ?o") auto
  have "\<exists>s'. lock_run True ?s s' \<and> phase s' = (phase ?s)(7 := Absent)"
    using Acquire_refines [OF 1 a] unfolding if_P [OF n] by blast
  then show ?thesis by (metis fun_upd_same)
qed

end
