(* ===== verification/Logging.thy ===== *)
theory Logging
  imports Go_Time
begin

text \<open>
  The logger's configuration (\<^verbatim>\<open>internal/logging/logging.go\<close>). The logger is the pair of the level and
  the kind of handler it is built from; formatting records is the standard library's. Installing it as
  the process-wide default is the second component of \<open>Setup\<close>'s result. The levels are a linear
  order, and a logger writes the records that are at least at its level.
\<close>

datatype level = LevelDebug | LevelInfo | LevelWarn | LevelError

primrec level_rank :: "level \<Rightarrow> int" where
  \<comment> \<open>the numbers of \<open>log/slog\<close>\<close>
  "level_rank LevelDebug = - 4"
| "level_rank LevelInfo = 0"
| "level_rank LevelWarn = 4"
| "level_rank LevelError = 8"

instantiation level :: linorder
begin

definition less_eq_level :: "level \<Rightarrow> level \<Rightarrow> bool" where
  "less_eq_level l k \<longleftrightarrow> level_rank l \<le> level_rank k"

definition less_level :: "level \<Rightarrow> level \<Rightarrow> bool" where
  "less_level l k \<longleftrightarrow> level_rank l < level_rank k"

instance
proof
  fix l k :: level
  show "l = k" if "l \<le> k" "k \<le> l" using that by (cases l; cases k) (simp_all add: less_eq_level_def)
qed (auto simp: less_eq_level_def less_level_def)

end

lemma level_extremes [simp]: "LevelDebug \<le> l" "l \<le> LevelError"
  by (cases l; simp add: less_eq_level_def)+

lemma level_le_Info: "l \<le> LevelInfo \<longleftrightarrow> l = LevelDebug \<or> l = LevelInfo"
  by (cases l) (simp_all add: less_eq_level_def)
datatype format = JSONHandler | TextHandler

record logger =
  log_level :: level
  log_handler :: format

definition parse_level :: "string \<Rightarrow> level" where
  "parse_level s =
     (let l = to_lower (TrimSpace s)
      in if l = ''debug'' then LevelDebug
         else if l = ''warn'' \<or> l = ''warning'' then LevelWarn
         else if l = ''error'' then LevelError
         else LevelInfo)"

definition parse_format :: "string \<Rightarrow> format" where
  "parse_format s = (if to_lower (TrimSpace s) = ''json'' then JSONHandler else TextHandler)"

definition Setup :: "string \<Rightarrow> string \<Rightarrow> logger \<times> logger" where
  \<comment> \<open>the result and the new default logger\<close>
  "Setup lvl fmt = (let l = \<lparr>log_level = parse_level lvl, log_handler = parse_format fmt\<rparr> in (l, l))"

section \<open>Records\<close>

datatype 'e attr = AStr string | AInt int | ADuration duration | AErr 'e

record 'e log_record =
  rlevel :: level
  rmsg :: string
  rattrs :: "(string \<times> 'e attr) list"

definition default_level :: level where
  \<comment> \<open>of the logger \<open>log/slog\<close> starts with, which is used until \<open>Setup\<close>\<close>
  "default_level = LevelInfo"

definition written_at :: "level \<Rightarrow> level \<Rightarrow> bool" where
  \<comment> \<open>the handler's \<open>Enabled\<close>: its own level, the record's level\<close>
  "written_at l r \<longleftrightarrow> l \<le> r"

lemma errors_always_written [simp]: "written_at l LevelError"
  by (simp add: written_at_def)

lemma written_at_Info: "written_at (parse_level s) LevelInfo \<longleftrightarrow>
    to_lower (TrimSpace s) \<notin> {''warn'', ''warning'', ''error''}"
  by (auto simp: written_at_def level_le_Info parse_level_def Let_def)

lemma parse_level_cases:
  "parse_level ''info'' = LevelInfo" "parse_level ''DEBUG'' = LevelDebug"
  "parse_level '' Warning '' = LevelWarn" "parse_level ''fatal'' = LevelInfo"
  by code_simp+

lemma parse_format_cases:
  "parse_format ''JSON'' = JSONHandler" "parse_format ''text'' = TextHandler" "parse_format ''xml'' = TextHandler"
  by code_simp+

end
