(* ===== verification/Server.thy ===== *)
theory Server
  imports Config Rate_Limit
begin

text \<open>
  The assembly of the HTTP listener (\<^verbatim>\<open>internal/server/server.go\<close>): the listen address and the chain of
  middlewares around the mux. The properties compose the components: the order of the chain, and
  what a configuration accepted by \<open>Load\<close> guarantees about the middlewares it configures.
\<close>

section \<open>Address and chain\<close>

definition Addr :: "string \<Rightarrow> int \<Rightarrow> string" where
  "Addr hst port = JoinHostPort hst (Itoa port)"

definition cors_of :: "cors_section \<Rightarrow> cors_config" where
  "cors_of s = cors_config.make (csEnabled s) (csAllowedOrigins s) (csAllowMethods s) (csAllowHeaders s)
     (csMaxAgeSeconds s)"

definition rate_of :: "rate_limit_section \<Rightarrow> rate_config" where
  \<comment> \<open>the two durations are left at zero and filled in by the middleware\<close>
  "rate_of s = rate_config.make (rsEnabled s) (rsRequestsPerSecond s) (rsBurst s) (rsTrustProxyHeaders s)
     (rsExemptPaths s) 0 0"

definition Build ::
  "'l limiter_api \<Rightarrow> config \<Rightarrow> ('l, 'm) rate_limiter_scheme handler \<Rightarrow> ('l, 'm) rate_limiter_scheme handler" where
  "Build api cfg mux =
     (let h = mux;
          h = RateLimit api (rate_of (RateLimitCfg cfg)) h;
          h = cors_Middleware (cors_of (CORS cfg)) h;
          h = AccessLog h;
          h = RequestID h;
          h = Recovery h
      in h)"

lemma section_fields [simp]:
  "cors_config.Enabled (cors_of s) = csEnabled s" "AllowedOrigins (cors_of s) = csAllowedOrigins s"
  "AllowMethods (cors_of s) = csAllowMethods s" "AllowHeaders (cors_of s) = csAllowHeaders s"
  "MaxAgeSeconds (cors_of s) = csMaxAgeSeconds s"
  "rate_config.Enabled (rate_of l) = rsEnabled l" "RequestsPerSecond (rate_of l) = rsRequestsPerSecond l"
  "Burst (rate_of l) = rsBurst l" "TrustProxyHeaders (rate_of l) = rsTrustProxyHeaders l"
  "ExemptPaths (rate_of l) = rsExemptPaths l"
  by (simp_all add: cors_of_def rate_of_def cors_config.make_def rate_config.make_def)

section \<open>Running the chain\<close>

definition request_id :: "request \<Rightarrow> 's conn \<Rightarrow> string" where
  \<comment> \<open>the identifier the chain gives to a request\<close>
  "request_id r c =
     (if validRequestID (rheader r ''X-Request-Id'') then rheader r ''X-Request-Id'' else newRequestID (env c))"

definition entered :: "request \<Rightarrow> 's conn \<Rightarrow> request \<times> 's conn" where
  \<comment> \<open>what the CORS middleware sees: the request with its identifier, the writer under observation\<close>
  "entered r c =
     (r\<lparr>ctx_request_id := Some (request_id r c)\<rparr>,
      c\<lparr>resp := Observed new_observer (header_set ''X-Request-Id'' (request_id r c) (resp c))\<rparr>)"

lemma entered_fields [simp]:
  "rmethod (fst (entered r c)) = rmethod r" "rheader (fst (entered r c)) = rheader r"
  "rpath (fst (entered r c)) = rpath r" "remote_addr (fst (entered r c)) = remote_addr r"
  "server_state (snd (entered r c)) = server_state c" "log_out (snd (entered r c)) = log_out c"
  "env (snd (entered r c)) = env c"
  "resp (snd (entered r c)) = Observed new_observer (header_set ''X-Request-Id'' (request_id r c) (resp c))"
  by (simp_all add: entered_def)

lemma wire_inner [simp]: "wire (inner_writer w) = wire w"
  by (cases w) simp_all

lemma wire_inner_obs [simp]:
  "wire_status (inner_writer w) = wire_status w" "written (inner_writer w) = written w"
  "wire_header (inner_writer w) k = wire_header w k"
  by (simp_all add: wire_status_def written_def wire_header_def)

definition inner_chain ::
  "'l limiter_api \<Rightarrow> config \<Rightarrow> ('l, 'm) rate_limiter_scheme handler \<Rightarrow> ('l, 'm) rate_limiter_scheme handler" where
  "inner_chain api cfg mux = cors_Middleware (cors_of (CORS cfg)) (RateLimit api (rate_of (RateLimitCfg cfg)) mux)"

lemma clientIP_ctx [simp]: "clientIP (r\<lparr>ctx_request_id := v\<rparr>) = clientIP r"
  by (simp add: clientIP_def split: option.split)

lemma Build_returned:
  assumes "inner_chain api cfg mux (fst (entered r c)) (snd (entered r c)) = (Returned, c1)"
  shows "\<exists>line. Build api cfg mux r c = (Returned, c1\<lparr>resp := inner_writer (resp c1), log_out := log_out c1 @ [line]\<rparr>)
    \<and> line = AccessLine (rmethod r) (logPath (rpath r)) (status (observer_of (resp c1))) (counted (observer_of (resp c1)))
         (Milliseconds (elapsed (env c1))) (request_id r c) (clientIP r)"
  using assms
  by (auto simp: Build_def Recovery_def RequestID_def AccessLog_def inner_chain_def entered_def request_id_def
      on_resp_def RequestIDFromContext_def Let_def)

lemma Build_returns: "fst (Build api cfg mux r c) = Returned"
  by (auto simp: Build_def Recovery_def Let_def respond_def split: prod.split served.split)

lemma cors_active_enforced:
  assumes "active (cors_of (CORS cfg))" "rmethod r = ''OPTIONS''" "rheader r ''Origin'' \<noteq> ''''"
  shows "inner_chain api cfg mux r c = respond
    (if allowed_by (cors_of (CORS cfg)) (rheader r ''Origin'')
     then \<lambda>w. WriteHeader 204 (cors_headers (cors_of (CORS cfg)) (rheader r ''Origin'') w)
     else http_Error cors_denied 403) c"
  using assms by (simp add: inner_chain_def cors_eq respond_def on_resp_def)


lemma http_Error_keeps:
  assumes "unsent w" "k \<notin> {''Content-Type'', ''X-Content-Type-Options'', ''Content-Length''}"
  shows "wire_header (http_Error msg code w) k = live (wire w) k"
  using assms by (simp add: http_Error_def Let_def wire_header_def wire_Write wire_WriteHeader_unsent)

section \<open>Properties\<close>

text \<open>
  CORS runs before the rate limiter: with an active CORS configuration a preflight request is
  answered (204 or 403) without touching the table of clients or the rest of the server's state, and
  without reaching the mux, whatever the limiter's settings; the answer carries the request's
  identifier and exactly one line is logged.
\<close>

theorem preflight_bypasses_limiter:
  assumes "active (cors_of (CORS cfg))" "rmethod r = ''OPTIONS''" "rheader r ''Origin'' \<noteq> ''''" "unsent (resp c)"
  shows "\<exists>c1 line. Build api cfg mux r c = (Returned, c1) \<and> server_state c1 = server_state c
    \<and> log_out c1 = log_out c @ [line]
    \<and> wire_status (resp c1) = Some (if allowed_by (cors_of (CORS cfg)) (rheader r ''Origin'') then 204 else 403)
    \<and> wire_header (resp c1) ''X-Request-Id'' = [request_id r c]"
proof -
  let ?f = "if allowed_by (cors_of (CORS cfg)) (rheader r ''Origin'')
     then \<lambda>w. WriteHeader 204 (cors_headers (cors_of (CORS cfg)) (rheader r ''Origin'') w)
     else http_Error cors_denied 403"
  let ?d = "snd (entered r c)"
  have u: "unsent (resp ?d)" using assms(4) by (simp add: new_observer_def)
  have l: "live (wire (resp ?d)) ''X-Request-Id'' = [request_id r c]" by simp
  have "inner_chain api cfg mux (fst (entered r c)) ?d = (Returned, on_resp ?f ?d)"
    using cors_active_enforced [OF assms(1), of "fst (entered r c)"] assms(2,3)
    unfolding entered_fields respond_def by blast
  from Build_returned [OF this] obtain line where
    b: "Build api cfg mux r c = (Returned, (on_resp ?f ?d)\<lparr>resp := inner_writer (?f (resp ?d)),
      log_out := log_out c @ [line]\<rparr>)" by auto
  have "wire_status (?f (resp ?d)) = Some (if allowed_by (cors_of (CORS cfg)) (rheader r ''Origin'') then 204 else 403)"
    using u http_Error_wire(1) [OF u] by (simp add: wire_status_def wire_WriteHeader_unsent del: entered_fields)
  moreover have "wire_header (?f (resp ?d)) ''X-Request-Id'' = [request_id r c]"
    using u l http_Error_keeps [OF u, of "''X-Request-Id''"]
    by (simp add: wire_header_WriteHeader live_cors_headers del: entered_fields)
  ultimately show ?thesis unfolding b by simp
qed

definition demo_config :: config where
  \<comment> \<open>CORS for one wildcard origin and a limiter of one request per second\<close>
  "demo_config = zero_config
     \<lparr>CORS := \<lparr>csEnabled = True, csAllowedOrigins = [''https://*.example.com''], csAllowMethods = [''GET''],
        csAllowHeaders = [''Content-Type''], csMaxAgeSeconds = 600\<rparr>,
      RateLimitCfg := \<lparr>rsEnabled = True, rsRequestsPerSecond = Fin 1, rsBurst = 1, rsTrustProxyHeaders = False,
        rsExemptPaths = [''/health'']\<rparr>\<rparr>"

theorem preflight_bypasses_limiter_witness:
  "\<exists>c1. Build toy_api demo_config (\<lambda>_ c. (Panicking ''mux'', c)) (demo_request ''OPTIONS'' ''https://app.example.com'')
      (fresh_conn spent_table) = (Returned, c1)
    \<and> server_state c1 = spent_table \<and> length (log_out c1) = 1"
proof -
  let ?r = "demo_request ''OPTIONS'' ''https://app.example.com''"
  have "active (cors_of (CORS demo_config))"
    by (simp add: active_def demo_config_def Parse_def Let_def)
  moreover have "rmethod ?r = ''OPTIONS''" "rheader ?r ''Origin'' \<noteq> ''''" by (simp_all add: demo_request_def)
  moreover have "unsent (resp (fresh_conn spent_table))" by simp
  ultimately obtain c1 line where "Build toy_api demo_config (\<lambda>_ c. (Panicking ''mux'', c)) ?r (fresh_conn spent_table) = (Returned, c1)"
    "server_state c1 = server_state (fresh_conn spent_table)" "log_out c1 = log_out (fresh_conn spent_table) @ [line]"
    using preflight_bypasses_limiter by blast
  then show ?thesis by auto
qed

definition denied ::
  "'l limiter_api \<Rightarrow> rate_config \<Rightarrow> request \<Rightarrow> ('l, 'm) rate_limiter_scheme conn \<Rightarrow> bool" where
  \<comment> \<open>the client's bucket does not admit the request now\<close>
  "denied api cfg r c \<longleftrightarrow> limits cfg \<and> rpath r \<notin> set (ExemptPaths cfg)
     \<and> (let now = clock_now (env c);
            (l, rl1) = limiterFor api (with_defaults cfg) now (rate_clientIP (with_defaults cfg) r) (server_state c);
            (rsv, b) = Reserve api now (limiters rl1 ! l)
        in \<not> rsv_OK rsv \<or> 0 < rsv_Delay rsv)"

lemma limiterFor_more: "limiterFor api cfg now ip rl = (l, rl1) \<Longrightarrow> rate_limiter.more rl1 = rate_limiter.more rl"
  by (auto simp: limiterFor_def Let_def split: option.splits)

lemma RateLimit_denied:
  assumes "denied api cfg r c"
  shows "\<exists>st w. RateLimit api cfg h r c = (Returned, c\<lparr>server_state := st, resp := rate_deny w\<rparr>)
    \<and> rate_limiter.more st = rate_limiter.more (server_state c)
    \<and> (w = resp c \<or> (\<exists>v. w = header_set ''Retry-After'' v (resp c)))"
proof -
  let ?cfg = "with_defaults cfg" and ?now = "clock_now (env c)"
  have ex: "ExemptPaths ?cfg = ExemptPaths cfg" by (simp add: with_defaults_def Let_def)
  obtain l rl1 where rl1: "limiterFor api ?cfg ?now (rate_clientIP ?cfg r) (server_state c) = (l, rl1)"
    by (cases "limiterFor api ?cfg ?now (rate_clientIP ?cfg r) (server_state c)")
  obtain rsv b where b: "Reserve api ?now (limiters rl1 ! l) = (rsv, b)"
    by (cases "Reserve api ?now (limiters rl1 ! l)")
  have d: "limits cfg" "rpath r \<notin> set (ExemptPaths cfg)" "\<not> rsv_OK rsv \<or> 0 < rsv_Delay rsv"
    using assms by (simp_all add: denied_def rl1 b)
  show ?thesis
  proof (cases "rsv_OK rsv")
    case False
    then show ?thesis using d limiterFor_more [OF rl1]
      by (intro exI [of _ "rl1\<lparr>limiters := (limiters rl1)[l := b]\<rparr>"] exI [of _ "resp c"])
        (simp add: RateLimit_def Let_def ex rl1 b respond_def on_resp_def)
  next
    case True
    then show ?thesis using d limiterFor_more [OF rl1]
      by (intro exI [of _ "rl1\<lparr>limiters := (limiters rl1)[l := Cancel api ?now rsv b]\<rparr>"]
          exI [of _ "header_set ''Retry-After'' (Itoa (int_Seconds (rsv_Delay rsv) + 1)) (resp c)"])
        (auto simp: RateLimit_def Let_def ex rl1 b respond_def on_resp_def)
  qed
qed

lemma observer_rate_deny:
  "\<not> wroteHeader (observer_of w) \<Longrightarrow> w = Observed ob v \<Longrightarrow> status (observer_of (rate_deny w)) = 429"
  by (simp add: rate_deny_def Encode_def header_ops Let_def)

lemma observer_of_header [simp]: "observer_of (upd_header f w) = observer_of w"
  by (cases w) simp_all

lemma observed_header: "\<exists>v1. upd_header f (Observed ob v) = Observed ob v1"
  by simp

lemma observed_cors: "\<exists>v1. cors_headers cfg orig (Observed ob v) = Observed ob v1"
  by (simp add: cors_headers_def header_ops Let_def)

lemma rate_clientIP_ctx [simp]: "rate_clientIP cfg (r\<lparr>ctx_request_id := v\<rparr>) = rate_clientIP cfg r"
proof -
  have "remote_addr (r\<lparr>ctx_request_id := v\<rparr>) = remote_addr r" "rheader (r\<lparr>ctx_request_id := v\<rparr>) = rheader r"
    by simp_all
  then show ?thesis unfolding rate_clientIP_def by presburger
qed

lemma denied_entered:
  assumes "server_state d = server_state c" "env d = env c"
  shows "denied api cfg (fst (entered r c)) d = denied api cfg r c"
  using assms unfolding denied_def entered_fields by (simp add: entered_def)

text \<open>
  C10. A request the client's bucket does not admit ends at the limiter, whatever the mux would do:
  the client gets 429 with the request's identifier, one access line records that status, and of the
  server's state at most the table of clients changes; the modules are untouched.
\<close>

theorem server_denies:
  assumes "denied api (rate_of (RateLimitCfg cfg)) r c" "unsent (resp c)"
    and "\<not> active (cors_of (CORS cfg)) \<or> rheader r ''Origin'' = '''' \<or> rmethod r \<noteq> ''OPTIONS''"
  shows "\<exists>c1 bytes. Build api cfg mux r c = (Returned, c1) \<and> wire_status (resp c1) = Some 429
    \<and> wire_header (resp c1) ''X-Request-Id'' = [request_id r c]
    \<and> log_out c1 = log_out c @ [AccessLine (rmethod r) (logPath (rpath r)) 429 bytes
         (Milliseconds (elapsed (env c))) (request_id r c) (clientIP r)]
    \<and> rate_limiter.more (server_state c1) = rate_limiter.more (server_state c)"
proof -
  let ?r = "fst (entered r c)" and ?d = "snd (entered r c)"
  let ?rc = "rate_of (RateLimitCfg cfg)" and ?cc = "cors_of (CORS cfg)"
  obtain d where d: "inner_chain api cfg mux ?r ?d = RateLimit api ?rc mux ?r d" "server_state d = server_state c"
    "env d = env c" "log_out d = log_out c" "unsent (resp d)" "\<exists>v. resp d = Observed new_observer v"
    "live (wire (resp d)) ''X-Request-Id'' = [request_id r c]"
  proof (cases "active ?cc \<and> rheader r ''Origin'' \<noteq> '''' \<and> allowed_by ?cc (rheader r ''Origin'')")
    case True
    then have "rmethod r \<noteq> ''OPTIONS''" using assms(3) by blast
    with True that [of "on_resp (cors_headers ?cc (rheader r ''Origin'')) ?d"] show thesis
      using assms(2) observed_cors by (simp add: inner_chain_def cors_eq new_observer_def live_cors_headers)
  next
    case False
    with assms(3) that [of ?d] show thesis
      using assms(2) by (auto simp: inner_chain_def cors_eq new_observer_def)
  qed
  have "denied api ?rc ?r d" using assms(1) denied_entered [OF d(2,3)] by simp
  from RateLimit_denied [OF this, of mux] obtain st w where
    rl: "RateLimit api ?rc mux ?r d = (Returned, d\<lparr>server_state := st, resp := rate_deny w\<rparr>)"
    and more: "rate_limiter.more st = rate_limiter.more (server_state c)"
    and w: "w = resp d \<or> (\<exists>v. w = header_set ''Retry-After'' v (resp d))" using d(2) by auto
  have w': "unsent w" "live (wire w) ''X-Request-Id'' = [request_id r c]" "\<exists>v. w = Observed new_observer v"
    using w d(5,6,7) by (auto simp: header_ops)
  have st429: "status (observer_of (rate_deny w)) = 429"
    using w'(3) observer_rate_deny by (auto simp: new_observer_def)
  have "inner_chain api cfg mux ?r ?d = (Returned, d\<lparr>server_state := st, resp := rate_deny w\<rparr>)"
    using d(1) rl by simp
  from Build_returned [OF this] obtain bytes where
    b: "Build api cfg mux r c = (Returned, d\<lparr>server_state := st, resp := inner_writer (rate_deny w),
      log_out := log_out c @ [AccessLine (rmethod r) (logPath (rpath r)) 429 bytes
         (Milliseconds (elapsed (env c))) (request_id r c) (clientIP r)]\<rparr>)"
    using st429 d(3,4) by auto
  show ?thesis
    unfolding b using rate_deny_wire [OF w'(1)] w'(2) more by simp
qed

theorem server_denies_witness:
  "\<exists>c1. Build toy_api demo_config (\<lambda>_ c. (Panicking ''mux'', c)) (demo_request ''GET'' '''') (fresh_conn spent_table)
      = (Returned, c1) \<and> wire_status (resp c1) = Some 429"
proof -
  let ?r = "demo_request ''GET'' ''''" and ?c = "fresh_conn spent_table"
  let ?rc = "rate_of (RateLimitCfg demo_config)"
  have lim: "limits ?rc" by (simp add: limits_def demo_config_def f64_le_def)
  have ip: "rate_clientIP (with_defaults ?rc) ?r = ''10.0.0.9''"
    by (simp add: rate_clientIP_def demo_config_def with_defaults_def demo_request_def Let_def) code_simp
  have "limiterFor toy_api (with_defaults ?rc) (clock_now (env ?c)) (rate_clientIP (with_defaults ?rc) ?r) (server_state ?c)
      = (0, spent_table)"
    unfolding ip by (simp add: limiterFor_def) (simp add: spent_table_def)
  moreover have "Reserve toy_api (clock_now (env ?c)) (limiters spent_table ! 0)
      = (\<lparr>rsv_OK = True, rsv_Delay = 1500 * millisecond, rsv_Act = 1500 * millisecond\<rparr>, (0, -1))"
    by (simp add: toy_api_def spent_table_def)
  moreover have "rpath ?r \<notin> set (ExemptPaths ?rc)" by (simp add: demo_config_def demo_request_def)
  ultimately have "denied toy_api ?rc ?r ?c" using lim unfolding denied_def Let_def by simp
  moreover have "unsent (resp ?c)" "rheader ?r ''Origin'' = ''''" by (simp_all add: demo_request_def)
  ultimately show ?thesis using server_denies by blast
qed

text \<open>A host that comes out of an address has no bracket in it.\<close>

lemma SplitHostPort_no_brackets:
  assumes "SplitHostPort hp = Some (h, p)"
  shows "CHR ''['' \<notin> set h \<and> CHR '']'' \<notin> set h"
proof (cases "hd hp = CHR ''[''")
  case True
  let ?e = "index_byte (CHR '']'') hp"
  have e: "0 \<le> ?e" "h = drop 1 (take (nat ?e) hp)" "CHR ''['' \<notin> set (drop 1 hp)"
    using assms True by (auto simp: SplitHostPort_def Let_def split: if_splits)
  obtain xs ys where x: "hp = xs @ CHR '']'' # ys" "CHR '']'' \<notin> set xs" "?e = int (length xs)"
    by (rule index_byte_split [OF e(1)])
  then have "h = drop 1 xs" using e(2) by simp
  then show ?thesis using x(1,2) e(3) by (cases xs) auto
next
  case False
  then show ?thesis using assms by (auto simp: SplitHostPort_def Let_def split: if_splits dest: in_set_takeD)
qed

text \<open>
  C28. What \<open>Load\<close> accepts is what the listener enforces: with CORS enabled every configured origin
  becomes a pattern, none silently dropped, and the middleware is active as soon as one is
  configured; with the rate limit enabled the limiter is active. The listen address splits back into
  the configured host and port exactly when the host has no square brackets, which \<open>Load\<close> does not check
  (\<open>bracketed_host_loads\<close>).
\<close>

theorem loaded_config_enforced:
  assumes "Load file = Inr cfg"
  shows "(csEnabled (CORS cfg) \<longrightarrow>
       map raw (parse_origins (AllowedOrigins (cors_of (CORS cfg)))) = csAllowedOrigins (CORS cfg)
       \<and> (active (cors_of (CORS cfg)) \<longleftrightarrow> csAllowedOrigins (CORS cfg) \<noteq> []))
    \<and> (\<not> csEnabled (CORS cfg) \<longrightarrow> \<not> active (cors_of (CORS cfg)))
    \<and> (limits (rate_of (RateLimitCfg cfg)) \<longleftrightarrow> rsEnabled (RateLimitCfg cfg))
    \<and> (rsExemptPaths (RateLimitCfg cfg) \<noteq> [])
    \<and> (CHR ''['' \<notin> set (Host (ServerCfg cfg)) \<and> CHR '']'' \<notin> set (Host (ServerCfg cfg)) \<longleftrightarrow>
       (\<exists>p. SplitHostPort (Addr (Host (ServerCfg cfg)) (Port (ServerCfg cfg))) = Some (Host (ServerCfg cfg), p)
          \<and> Atoi p = Some (Port (ServerCfg cfg))))"
proof -
  obtain c where c: "cfg = applyDefaults c" "config_ok cfg"
    using assms Validate_config_ok
    by (auto simp: Load_def Let_def split: sum.splits decoded.splits option.splits)
  let ?h = "Host (ServerCfg cfg)" and ?p = "Port (ServerCfg cfg)"
  have os: "csEnabled (CORS cfg) \<Longrightarrow> map raw (parse_origins (csAllowedOrigins (CORS cfg))) = csAllowedOrigins (CORS cfg)"
    using parse_origins_all c(2) by (simp add: config_ok_def)
  have act: "csEnabled (CORS cfg) \<Longrightarrow> active (cors_of (CORS cfg)) \<longleftrightarrow> csAllowedOrigins (CORS cfg) \<noteq> []"
    using os by (auto simp: active_def)
  have "rsExemptPaths (RateLimitCfg cfg) \<noteq> []"
    by (simp add: c(1) applyDefaults_def default_rate_limit_def Let_def)
  moreover have "limits (rate_of (RateLimitCfg cfg)) \<longleftrightarrow> rsEnabled (RateLimitCfg cfg)"
    using c(2) by (auto simp: limits_def config_ok_def)
  moreover have split: "\<exists>p. SplitHostPort (Addr ?h ?p) = Some (?h, p) \<and> Atoi p = Some ?p"
    if "CHR ''['' \<notin> set ?h" "CHR '']'' \<notin> set ?h"
  proof -
    have r: "1 \<le> ?p" "?p \<le> 65535" using c(2) by (simp_all add: config_ok_def)
    then have digits: "\<forall>x \<in> set (Itoa ?p). is_digit x" using nat_text_digits [of ?p] by (simp add: Itoa_def)
    have "CHR '':'' \<notin> set (Itoa ?p)" "CHR ''['' \<notin> set (Itoa ?p)" "CHR '']'' \<notin> set (Itoa ?p)"
      using digits is_digit_neq by blast+
    then have "SplitHostPort (Addr ?h ?p) = Some (?h, Itoa ?p)"
      unfolding Addr_def using that by (intro SplitHostPort_JoinHostPort)
    moreover have "Atoi (Itoa ?p) = Some ?p" using r by (intro Atoi_Itoa) simp_all
    ultimately show ?thesis by blast
  qed
  moreover have "CHR ''['' \<notin> set ?h \<and> CHR '']'' \<notin> set ?h" if "\<exists>p. SplitHostPort (Addr ?h ?p) = Some (?h, p)"
    using that SplitHostPort_no_brackets by blast
  ultimately show ?thesis using os act by (simp add: active_def) blast
qed

definition demo_file :: config where
  "demo_file = demo_config\<lparr>ServerCfg := \<lparr>Host = ''::1'', Port = 8080\<rparr>\<rparr>"

theorem loaded_config_enforced_witness:
  "\<exists>cfg. Load (Inr (Decoded demo_file)) = Inr cfg \<and> active (cors_of (CORS cfg)) \<and> limits (rate_of (RateLimitCfg cfg))
    \<and> Addr (Host (ServerCfg cfg)) (Port (ServerCfg cfg)) = ''[::1]:8080''"
proof -
  let ?cfg = "applyDefaults demo_file"
  have f: "CORS ?cfg = CORS demo_config" "RateLimitCfg ?cfg = RateLimitCfg demo_config"
    "ServerCfg ?cfg = \<lparr>Host = ''::1'', Port = 8080\<rparr>" "Sampler ?cfg = \<lparr>Interval = second, HistoryCapacity = 60\<rparr>"
    "sEnabled (StorageCfg (Modules ?cfg)) = False"
    by (simp_all add: demo_file_def demo_config_def applyDefaults_def default_defs zero_config_def Let_def)
  have "config_ok ?cfg"
    by (simp add: config_ok_def f) (simp add: demo_config_def Parse_def f64_le_def Let_def)
  then have l: "Load (Inr (Decoded demo_file)) = Inr ?cfg"
    using Validate_config_ok [of ?cfg] by (simp add: Load_def Let_def)
  have "Addr ''::1'' 8080 = ''[::1]:8080''" by code_simp
  then show ?thesis using loaded_config_enforced [OF l] l by (auto simp: f demo_config_def)
qed

text \<open>
  \<open>Load\<close> accepts an IPv6 host written with brackets, as addresses with a port have it. Its listen address has them
  twice, which no address parser takes apart.
\<close>

definition bracketed_file :: config where
  "bracketed_file = demo_config\<lparr>ServerCfg := \<lparr>Host = ''[::1]'', Port = 8080\<rparr>\<rparr>"

theorem bracketed_host_loads:
  "\<exists>cfg. Load (Inr (Decoded bracketed_file)) = Inr cfg \<and> Addr (Host (ServerCfg cfg)) (Port (ServerCfg cfg)) = ''[[::1]]:8080''
    \<and> SplitHostPort ''[[::1]]:8080'' = None"
proof -
  let ?cfg = "applyDefaults bracketed_file"
  have f: "CORS ?cfg = CORS demo_config" "RateLimitCfg ?cfg = RateLimitCfg demo_config"
    "ServerCfg ?cfg = \<lparr>Host = ''[::1]'', Port = 8080\<rparr>" "Sampler ?cfg = \<lparr>Interval = second, HistoryCapacity = 60\<rparr>"
    "sEnabled (StorageCfg (Modules ?cfg)) = False"
    by (simp_all add: bracketed_file_def demo_config_def applyDefaults_def default_defs zero_config_def Let_def)
  have "config_ok ?cfg"
    by (simp add: config_ok_def f) (simp add: demo_config_def Parse_def f64_le_def Let_def)
  then have "Load (Inr (Decoded bracketed_file)) = Inr ?cfg"
    using Validate_config_ok [of ?cfg] by (simp add: Load_def Let_def)
  moreover have "Addr ''[::1]'' 8080 = ''[[::1]]:8080''" "SplitHostPort ''[[::1]]:8080'' = None" by code_simp+
  ultimately show ?thesis by (simp add: f)
qed

end
