(* ===== verification/Main_Program.thy ===== *)
theory Main_Program
  imports Server Profile Lock Logging
begin

text \<open>
  The program (\<^verbatim>\<open>cmd/monitor/main.go\<close>), up to its \<open>run\<close>: the mux with every route, the construction,
  the start and the shutdown of the enabled modules. What the constructors read from the host (the
  collectors' first readings, the mount table) is a record; what the program does is a trace of events.
\<close>

section \<open>The mux\<close>

datatype route =
    ModuleLatest string
  | ModuleHistory string
  | MetricsRoute
  | HealthRoute
  | ProfileRoute

definition module_routes :: "app_module \<Rightarrow> (string \<times> route) list" where
  "module_routes m =
     map (\<lambda>(pat, hist). (pat, if hist then ModuleHistory (mod_Name m) else ModuleLatest (mod_Name m)))
       (RegisterRoutes (mod_Name m))"

definition mux_routes :: "app_module list \<Rightarrow> (string \<times> route) list" where
  "mux_routes ms = concat (map module_routes ms)
     @ [(''GET /metrics'', MetricsRoute), (''GET /health'', HealthRoute), (''GET /profile'', ProfileRoute)]"

definition pattern_matches :: "string \<Rightarrow> request \<Rightarrow> bool" where
  \<comment> \<open>a GET pattern without wildcards: GET and HEAD of exactly this path\<close>
  "pattern_matches pat r \<longleftrightarrow> rmethod r \<in> {''GET'', ''HEAD''} \<and> pat = ''GET '' @ rpath r"

primrec serve_module_latest :: "heap \<Rightarrow> app_module \<Rightarrow> writer \<Rightarrow> writer" where
  "serve_module_latest h (CpuMod m) = cpu_serve_latest (m, h)"
| "serve_module_latest h (MemMod m) = mem_serve_latest m"
| "serve_module_latest h (GpuMod m) = gpu_serve_latest m"
| "serve_module_latest h (StorageMod m) = storage_serve_latest m"

primrec serve_module_history :: "instant \<Rightarrow> heap \<Rightarrow> app_module \<Rightarrow> request \<Rightarrow> writer \<Rightarrow> writer" where
  "serve_module_history now h (CpuMod m) = cpu_serve_history now (m, h)"
| "serve_module_history now h (MemMod m) = mem_serve_history now m"
| "serve_module_history now h (GpuMod m) = gpu_serve_history now m"
| "serve_module_history now h (StorageMod m) = storage_serve_history now m"

definition module_named :: "string \<Rightarrow> app_module list \<Rightarrow> app_module option" where
  "module_named n ms = find (\<lambda>m. mod_Name m = n) ms"

record server_env =
  \<comment> \<open>what the handlers of the listener hold or read besides the modules\<close>
  local_format :: "instant \<Rightarrow> string"
  start_time :: instant
  age_clock :: "nat \<Rightarrow> instant"
  max_staleness :: duration
  lclock :: local_clock
  go_version :: string
  profile_h :: profile_handler

definition serve_route :: "server_env \<Rightarrow> route \<Rightarrow> 'l app handler" where
  "serve_route se rt r c =
     (case rt of
        ModuleLatest n \<Rightarrow>
          (case module_named n (app_mods (server_state c)) of
             Some m \<Rightarrow> respond (serve_module_latest (app_heap (server_state c)) m) c
           | None \<Rightarrow> (Panicking ''no module'', c))
      | ModuleHistory n \<Rightarrow>
          (case module_named n (app_mods (server_state c)) of
             Some m \<Rightarrow> respond (serve_module_history (clock_now (env c)) (app_heap (server_state c)) m r) c
           | None \<Rightarrow> (Panicking ''no module'', c))
      | MetricsRoute \<Rightarrow> combined_ServeHTTP (local_format se) r c
      | HealthRoute \<Rightarrow> health_ServeHTTP (start_time se) (age_clock se) (max_staleness se) r c
      | ProfileRoute \<Rightarrow> profile_ServeHTTP (lclock se) (go_version se) (profile_h se) r c)"

definition mux :: "server_env \<Rightarrow> 'l app handler \<Rightarrow> app_module list \<Rightarrow> 'l app handler" where
  \<comment> \<open>\<open>other\<close> is the standard library's answer where no pattern matches (404, 405 or a redirect)\<close>
  "mux se other ms r c =
     (case find (\<lambda>(pat, rt). pattern_matches pat r) (mux_routes ms) of
        Some (pat, rt) \<Rightarrow> serve_route se rt r c
      | None \<Rightarrow> other r c)"

definition new_server_env ::
  "(instant \<Rightarrow> string) \<Rightarrow> instant \<Rightarrow> (nat \<Rightarrow> instant) \<Rightarrow> local_clock \<Rightarrow> string \<Rightarrow> string + u64 \<Rightarrow> string
     \<Rightarrow> config \<Rightarrow> app_module list \<Rightarrow> server_env" where
  \<comment> \<open>the aggregate handlers as \<open>run\<close> builds them; twice the interval wraps around at 64 bits\<close>
  "new_server_env fmt start clk lc version boot hostname cfg ms =
     \<lparr>local_format = fmt, start_time = start, age_clock = clk,
      max_staleness = wrap64 (2 * sampler_config.Interval (config.Sampler cfg)),
      lclock = lc, go_version = version,
      profile_h = NewProfile lc boot hostname
        (profile_sampler.make (Milliseconds (sampler_config.Interval (config.Sampler cfg)))
          (sampler_config.HistoryCapacity (config.Sampler cfg))) ms\<rparr>"

definition listener ::
  "'l limiter_api \<Rightarrow> config \<Rightarrow> server_env \<Rightarrow> 'l app handler \<Rightarrow> app_module list \<Rightarrow> 'l app handler" where
  "listener api cfg se other ms = Build api cfg (mux se other ms)"

section \<open>Building the modules\<close>

datatype run_error =
    LoadFailed load_error
  | InitFailed string storage_error
  | StartFailed string run_error
  | ServeFailed string
  | DrainFailed string

record http_server =
  \<comment> \<open>the fields \<open>run\<close> sets besides the handler\<close>
  ServerAddr :: string
  ReadHeaderTimeout :: duration
  ReadTimeout :: duration
  WriteTimeout :: duration
  IdleTimeout :: duration

datatype event =
    Refused lock_error
  | LoggerInstalled logger
  | Logs "run_error log_record"
  | Constructed string
  | Started string
  | Serve http_server
  | RequestLog log_line
  | Drain duration
  | ShutDown string
  | CollectorShutdown
  | LockReleased
  \<comment> \<open>\<open>Refused\<close> is the line on standard error, \<open>Serve\<close> the launch of the listening goroutine,
     \<open>RequestLog\<close> a line of the handlers, \<open>Drain\<close> the server's \<open>Shutdown\<close> with its time limit,
     \<open>CollectorShutdown\<close> a call of the GPU collector's \<open>Shutdown\<close>\<close>

definition warning :: "string \<Rightarrow> log_entry \<Rightarrow> event" where
  \<comment> \<open>a constructor's warning with the key of its attribute\<close>
  "warning key e = (case e of Warn msg v \<Rightarrow> Logs \<lparr>rlevel = LevelWarn, rmsg = msg, rattrs = [(key, AStr v)]\<rparr>)"

record host =
  \<comment> \<open>what the constructors read from the host\<close>
  warmup_overall :: "string option"
  warmup_per_core :: "string option"
  cpu_infos :: "string + (string \<times> string) list"
  cpu_first :: cpu_reading
  mem_for_profile :: "virtual_memory \<times> swap_memory \<times> string option"
  mem_first :: mem_reading
  gpu_init :: "bool \<times> string"
  gpu_prof :: gpu_profile
  gpu_first :: gpu_reading
  partitions :: "string + partition_stat list"
  storage_first :: storage_reading

datatype setup_error = Crash go_panic | InitError string storage_error | StartError run_error

abbreviation interval :: "config \<Rightarrow> duration" where
  "interval cfg \<equiv> sampler_config.Interval (config.Sampler cfg)"

abbreviation capacity :: "config \<Rightarrow> int" where
  "capacity cfg \<equiv> sampler_config.HistoryCapacity (config.Sampler cfg)"

type_synonym mods_heap = "app_module list \<times> heap"

definition appendEnabled :: "app_module list \<Rightarrow> string \<Rightarrow> app_module constructed \<Rightarrow> setup_error + app_module list" where
  \<comment> \<open>an error of the constructor is wrapped with the module's name\<close>
  "appendEnabled ms name built =
     (case built of
        Panicked p \<Rightarrow> Inl (Crash p)
      | Failed e \<Rightarrow> Inl (InitError name e)
      | Built m \<Rightarrow> Inr (ms @ [m]))"

definition build_cpu :: "config \<Rightarrow> host \<Rightarrow> mods_heap \<Rightarrow> setup_error + mods_heap \<times> event list" where
  "build_cpu cfg hs = (\<lambda>(ms, h).
     if \<not> CPU_Enabled (Modules cfg) then Inr ((ms, h), [])
     else let (built, h1, logs) =
                (case cpu_NewWithCollector (warmup_overall hs) (warmup_per_core hs) (cpu_infos hs) (cpu_first hs)
                        (interval cfg) (capacity cfg) h of
                   Inl p \<Rightarrow> (Panicked p, h, [])
                 | Inr ((m, h1), logs) \<Rightarrow> (Built (CpuMod m), h1, logs))
          in case appendEnabled ms ''cpu'' built of
               Inl e \<Rightarrow> Inl e
             | Inr ms1 \<Rightarrow> Inr ((ms1, h1), map (warning ''err'') logs @ [Constructed ''cpu'']))"

definition build_memory :: "config \<Rightarrow> host \<Rightarrow> mods_heap \<Rightarrow> setup_error + mods_heap \<times> event list" where
  "build_memory cfg hs = (\<lambda>(ms, h).
     if \<not> Memory_Enabled (Modules cfg) then Inr ((ms, h), [])
     else let built = (case mem_NewWithCollector (mem_for_profile hs) (mem_first hs) (interval cfg) (capacity cfg) of
                         Inl p \<Rightarrow> Panicked p
                       | Inr m \<Rightarrow> Built (MemMod m))
          in case appendEnabled ms ''memory'' built of
               Inl e \<Rightarrow> Inl e
             | Inr ms1 \<Rightarrow> Inr ((ms1, h), [Constructed ''memory'']))"

definition build_gpu :: "config \<Rightarrow> host \<Rightarrow> mods_heap \<Rightarrow> setup_error + mods_heap \<times> event list" where
  "build_gpu cfg hs = (\<lambda>(ms, h).
     if \<not> GPU_Enabled (Modules cfg) then Inr ((ms, h), [])
     else let (built, logs) =
                (case gpu_NewWithCollector (gpu_init hs) (gpu_prof hs) (gpu_first hs) (interval cfg) (capacity cfg) of
                   Inl p \<Rightarrow> (Panicked p, [])
                 | Inr (m, logs) \<Rightarrow> (Built (GpuMod m), logs))
          in case appendEnabled ms ''gpu'' built of
               Inl e \<Rightarrow> Inl e
             | Inr ms1 \<Rightarrow> Inr ((ms1, h), map (warning ''reason'') logs @ [Constructed ''gpu'']))"

definition build_storage :: "config \<Rightarrow> host \<Rightarrow> mods_heap \<Rightarrow> setup_error + mods_heap \<times> event list" where
  "build_storage cfg hs = (\<lambda>(ms, h).
     if \<not> sEnabled (StorageCfg (Modules cfg)) then Inr ((ms, h), [])
     else let mountConfigs = map (\<lambda>mp. \<lparr>cPath = Path mp, cAlias = Alias mp\<rparr>) (MountPoints (StorageCfg (Modules cfg)));
              built = (case storage_New mountConfigs (interval cfg) (capacity cfg)
                          (partitions hs) (storage_first hs) of
                         Panicked p \<Rightarrow> Panicked p
                       | Failed e \<Rightarrow> Failed e
                       | Built m \<Rightarrow> Built (StorageMod m))
          in case appendEnabled ms ''storage'' built of
               Inl e \<Rightarrow> Inl e
             | Inr ms1 \<Rightarrow> Inr ((ms1, h), [Constructed ''storage'']))"

primrec run_builds ::
  "(mods_heap \<Rightarrow> setup_error + mods_heap \<times> event list) list \<Rightarrow> mods_heap \<Rightarrow> (setup_error + mods_heap) \<times> event list" where
  \<comment> \<open>one builder after the other, the first failure ends it\<close>
  "run_builds [] st = (Inr st, [])"
| "run_builds (b # bs) st =
     (case b st of
        Inl e \<Rightarrow> (Inl e, [])
      | Inr (st1, evs) \<Rightarrow> let (res, tr) = run_builds bs st1 in (res, evs @ tr))"

definition cpu_Start :: "cpu_module \<Rightarrow> event list \<times> run_error option" where
  \<comment> \<open>the sampling goroutine is launched; \<open>Start\<close> never fails\<close>
  "cpu_Start m = ([Started ''cpu''], None)"

definition mem_Start :: "mem_module \<Rightarrow> event list \<times> run_error option" where
  "mem_Start m = ([Started ''memory''], None)"

definition storage_Start :: "storage_module \<Rightarrow> event list \<times> run_error option" where
  "storage_Start m = ([Started ''storage''], None)"

primrec mod_Start :: "app_module \<Rightarrow> event list \<times> run_error option" where
  \<comment> \<open>a disabled GPU module launches nothing\<close>
  "mod_Start (CpuMod m) = cpu_Start m"
| "mod_Start (MemMod m) = mem_Start m"
| "mod_Start (GpuMod m) = (if gpu_Start m then [Started ''gpu''] else [], None)"
| "mod_Start (StorageMod m) = storage_Start m"

fun start_mods :: "app_module list \<Rightarrow> event list \<times> run_error option" where
  \<comment> \<open>the loop of \<open>buildModules\<close>: the first error ends it\<close>
  "start_mods [] = ([], None)"
| "start_mods (m # ms) =
     (case mod_Start m of
        (tr, Some err) \<Rightarrow> (tr, Some (StartFailed (mod_Name m) err))
      | (tr, None) \<Rightarrow> let (tr1, res) = start_mods ms in (tr @ tr1, res))"

definition buildModules :: "config \<Rightarrow> host \<Rightarrow> heap \<Rightarrow> (setup_error + mods_heap) \<times> event list" where
  "buildModules cfg hs h =
     (let (res, tr) = run_builds [build_cpu cfg hs, build_memory cfg hs, build_gpu cfg hs, build_storage cfg hs] ([], h)
      in case res of
           Inl e \<Rightarrow> (Inl e, tr)
         | Inr (ms, h1) \<Rightarrow>
           (case start_mods ms of
              (tr1, None) \<Rightarrow> (Inr (ms, h1), tr @ tr1)
            | (tr1, Some err) \<Rightarrow> (Inl (StartError err), tr @ tr1)))"

definition cpu_Shutdown :: "cpu_module \<Rightarrow> cpu_module \<times> run_error option" where
  "cpu_Shutdown m = (m, None)"

definition mem_Shutdown :: "mem_module \<Rightarrow> mem_module \<times> run_error option" where
  "mem_Shutdown m = (m, None)"

definition storage_Shutdown :: "storage_module \<Rightarrow> storage_module \<times> run_error option" where
  "storage_Shutdown m = (m, None)"

primrec mod_Shutdown :: "app_module \<Rightarrow> (app_module \<times> event list) \<times> run_error option" where
  \<comment> \<open>the module after it, what it does, and its error: there is none in the four modules\<close>
  "mod_Shutdown (CpuMod m) = (let (m1, err) = cpu_Shutdown m in ((CpuMod m1, [ShutDown ''cpu'']), err))"
| "mod_Shutdown (MemMod m) = (let (m1, err) = mem_Shutdown m in ((MemMod m1, [ShutDown ''memory'']), err))"
| "mod_Shutdown (GpuMod m) =
     (let (m1, calls) = gpu_Shutdown m in ((GpuMod m1, ShutDown ''gpu'' # replicate calls CollectorShutdown), None))"
| "mod_Shutdown (StorageMod m) =
     (let (m1, err) = storage_Shutdown m in ((StorageMod m1, [ShutDown ''storage'']), err))"

lemmas shutdown_defs = cpu_Shutdown_def mem_Shutdown_def storage_Shutdown_def gpu_Shutdown_def
lemmas start_defs = cpu_Start_def mem_Start_def storage_Start_def

lemma start_mods_eq: "start_mods ms = (concat (map (fst \<circ> mod_Start) ms), None)"
proof (induction ms)
  case (Cons m ms)
  then show ?case by (cases m) (simp_all add: start_defs)
qed simp

definition shutdown_step :: "app_module \<Rightarrow> event list" where
  \<comment> \<open>one iteration of the last loop of \<open>run\<close>\<close>
  "shutdown_step m =
     (case mod_Shutdown m of
        ((m1, evs), None) \<Rightarrow> evs
      | ((m1, evs), Some err) \<Rightarrow>
        evs @ [Logs \<lparr>rlevel = LevelWarn, rmsg = ''module shutdown failed'',
                    rattrs = [(''module'', AStr (mod_Name m)), (''err'', AErr err)]\<rparr>])"

section \<open>The mux\<close>

lemma module_routes_patterns:
  "map fst (module_routes m) = [''GET /metrics/'' @ mod_Name m, ''GET /metrics/'' @ mod_Name m @ ''/history'']"
  by (simp add: module_routes_def RegisterRoutes_def Let_def)

lemma patterns_disjoint:
  assumes "mod_Name m \<noteq> mod_Name m'"
  shows "set (map fst (module_routes m)) \<inter> set (map fst (module_routes m')) = {}"
  using assms unfolding module_routes_patterns by (cases m; cases m') simp_all

lemma patterns_own:
  "distinct (map fst (module_routes m))"
  "set (map fst (module_routes m)) \<inter> {''GET /metrics'', ''GET /health'', ''GET /profile''} = {}"
  by (cases m; simp add: module_routes_patterns)+

lemma mux_patterns_distinct:
  assumes "distinct (map mod_Name ms)"
  shows "distinct (map fst (mux_routes ms))"
proof -
  have "distinct (map fst (concat (map module_routes ms)))
      \<and> set (map fst (concat (map module_routes ms))) = (\<Union>m \<in> set ms. set (map fst (module_routes m)))"
    using assms
  proof (induction ms)
    case (Cons m ms)
    have "set (map fst (module_routes m)) \<inter> set (map fst (module_routes m')) = {}" if "m' \<in> set ms" for m'
    proof (rule patterns_disjoint)
      show "mod_Name m \<noteq> mod_Name m'" using Cons.prems imageI [OF that, of mod_Name] by auto
    qed
    then have "set (map fst (module_routes m)) \<inter> (\<Union>m \<in> set ms. set (map fst (module_routes m))) = {}" by blast
    then show ?case using Cons patterns_own(1) [of m] by (simp add: map_concat)
  qed simp
  moreover have "(\<Union>m \<in> set ms. set (map fst (module_routes m))) \<inter> {''GET /metrics'', ''GET /health'', ''GET /profile''} = {}"
    using patterns_own(2) by blast
  ultimately show ?thesis by (simp add: mux_routes_def)
qed

lemma find_unique:
  assumes "distinct (map fst xs)" "(k, v) \<in> set xs" "P k" "\<forall>k' \<in> fst ` set xs. P k' \<longrightarrow> k' = k"
  shows "find (\<lambda>(k, v). P k) xs = Some (k, v)"
  using assms
proof (induction xs)
  case (Cons x xs)
  show ?case
  proof (cases "x = (k, v)")
    case False
    then have in_xs: "(k, v) \<in> set xs" using Cons.prems(2) by auto
    then have "fst x \<noteq> k" using Cons.prems(1) by (metis distinct.simps(2) fst_conv image_eqI list.simps(9) set_map)
    then have "\<not> P (fst x)" using Cons.prems(4) by simp
    moreover have "find (\<lambda>(k, v). P k) xs = Some (k, v)"
      using Cons.prems by (intro Cons.IH in_xs) simp_all
    ultimately show ?thesis by (simp add: case_prod_unfold)
  qed (use Cons.prems(3) in simp)
qed simp

section \<open>The modules\<close>

definition configured :: "config \<Rightarrow> string list" where
  \<comment> \<open>the names of the enabled modules, in the order of the code\<close>
  "configured cfg = (if CPU_Enabled (Modules cfg) then [''cpu''] else [])
     @ (if Memory_Enabled (Modules cfg) then [''memory''] else [])
     @ (if GPU_Enabled (Modules cfg) then [''gpu''] else [])
     @ (if sEnabled (StorageCfg (Modules cfg)) then [''storage''] else [])"

definition constructed_in :: "event list \<Rightarrow> string list" where
  "constructed_in tr = List.map_filter (\<lambda>ev. case ev of Constructed n \<Rightarrow> Some n | _ \<Rightarrow> None) tr"

definition shut_down_in :: "event list \<Rightarrow> string list" where
  "shut_down_in tr = List.map_filter (\<lambda>ev. case ev of ShutDown n \<Rightarrow> Some n | _ \<Rightarrow> None) tr"

lemma in_events_simps [simp]:
  "constructed_in [] = []" "shut_down_in [] = []"
  "constructed_in (ev # tr) = (case ev of Constructed n \<Rightarrow> n # constructed_in tr | _ \<Rightarrow> constructed_in tr)"
  "shut_down_in (ev # tr) = (case ev of ShutDown n \<Rightarrow> n # shut_down_in tr | _ \<Rightarrow> shut_down_in tr)"
  "constructed_in (tr @ tr') = constructed_in tr @ constructed_in tr'"
  "shut_down_in (tr @ tr') = shut_down_in tr @ shut_down_in tr'"
  by (auto simp: constructed_in_def shut_down_in_def List.map_filter_def split: event.splits)

lemma in_logged [simp]: "constructed_in (map (warning k) ls) = []" "shut_down_in (map (warning k) ls) = []"
  by (induction ls) (simp_all add: warning_def split: log_entry.split)

lemma in_started [simp]: "constructed_in (fst (start_mods ms)) = []" "shut_down_in (fst (start_mods ms)) = []"
proof -
  have "constructed_in (fst (mod_Start m)) = [] \<and> shut_down_in (fst (mod_Start m)) = []" for m
    by (cases m) (simp_all add: start_defs)
  then have "constructed_in (concat (map (fst \<circ> mod_Start) ms)) = [] \<and> shut_down_in (concat (map (fst \<circ> mod_Start) ms)) = []"
    by (induction ms) simp_all
  then show "constructed_in (fst (start_mods ms)) = []" "shut_down_in (fst (start_mods ms)) = []"
    unfolding start_mods_eq by simp_all
qed

lemma buildModules_eq:
  "buildModules cfg hs h =
     (case run_builds [build_cpu cfg hs, build_memory cfg hs, build_gpu cfg hs, build_storage cfg hs] ([], h) of
        (Inl e, tr) \<Rightarrow> (Inl e, tr)
      | (Inr (ms, h1), tr) \<Rightarrow> (Inr (ms, h1), tr @ fst (start_mods ms)))"
  by (simp add: buildModules_def start_mods_eq split: prod.split sum.split)

text \<open>What one builder adds: its module with its event when it is enabled, nothing otherwise.\<close>

definition adds :: "bool \<Rightarrow> string \<Rightarrow> (mods_heap \<Rightarrow> setup_error + mods_heap \<times> event list) \<Rightarrow> bool" where
  "adds on n b \<longleftrightarrow> (\<forall>ms h. (\<forall>m \<in> set ms. ageable h m) \<longrightarrow>
     (case b (ms, h) of
        Inl e \<Rightarrow> on \<and> n = ''storage'' \<and> (\<exists>err. e = InitError n err)
      | Inr ((ms1, h1), tr) \<Rightarrow> map mod_Name ms1 = map mod_Name ms @ (if on then [n] else [])
          \<and> constructed_in tr = (if on then [n] else []) \<and> shut_down_in tr = []
          \<and> (\<forall>m \<in> set ms1. ageable h1 m)))"

lemma ageable_any_heap: "ageable h m = ageable h' m"
  by (cases m) (simp_all add: ageable_def)

lemma cpu_New_ok:
  assumes "1 \<le> cap"
  shows "\<exists>m h1 logs. cpu_NewWithCollector wo wp infos e intv cap h = Inr ((m, h1), logs) \<and> cpu_base m \<noteq> None"
proof -
  obtain b where "NewBase cpu_zero_sample intv cap = Inr b" using NewBase_ok [of cap] assms by fastforce
  then show ?thesis by (simp add: cpu_NewWithCollector_def cpu_collectOnce_def Let_def split: prod.split)
qed

lemma adds_cpu: "1 \<le> capacity cfg \<Longrightarrow> adds (CPU_Enabled (Modules cfg)) ''cpu'' (build_cpu cfg hs)"
proof -
  assume cap: "1 \<le> capacity cfg"
  show ?thesis
    unfolding adds_def
  proof (intro allI impI)
    fix ms h assume a: "\<forall>m \<in> set ms. ageable h m"
    obtain m h1 logs where new: "cpu_NewWithCollector (warmup_overall hs) (warmup_per_core hs) (cpu_infos hs) (cpu_first hs)
        (interval cfg) (capacity cfg) h = Inr ((m, h1), logs)" "cpu_base m \<noteq> None"
      using cpu_New_ok [OF cap] by blast
    have "ageable h1 m'" if "m' \<in> set ms" for m' using a that ageable_any_heap by blast
    moreover have "ageable h1 (CpuMod m)" using new(2) by (simp add: ageable_def)
    ultimately show "case build_cpu cfg hs (ms, h) of
        Inl e \<Rightarrow> CPU_Enabled (Modules cfg) \<and> ''cpu'' = ''storage'' \<and> (\<exists>err. e = InitError ''cpu'' err)
      | Inr ((ms1, h1), tr) \<Rightarrow> map mod_Name ms1 = map mod_Name ms @ (if CPU_Enabled (Modules cfg) then [''cpu''] else [])
          \<and> constructed_in tr = (if CPU_Enabled (Modules cfg) then [''cpu''] else []) \<and> shut_down_in tr = []
          \<and> (\<forall>m \<in> set ms1. ageable h1 m)"
      using a by (simp add: build_cpu_def new(1) appendEnabled_def)
  qed
qed

lemma ageable_others [simp]:
  "ageable h (MemMod m1)" "ageable h (GpuMod m2)" "ageable h (StorageMod m3)"
  by (simp_all add: ageable_def)

lemma adds_memory: "1 \<le> capacity cfg \<Longrightarrow> adds (Memory_Enabled (Modules cfg)) ''memory'' (build_memory cfg hs)"
proof -
  assume "1 \<le> capacity cfg"
  then obtain b where "NewBase mem_zero_sample (interval cfg) (capacity cfg) = Inr b"
    using NewBase_ok [of "capacity cfg"] by fastforce
  then obtain m where "mem_NewWithCollector (mem_for_profile hs) (mem_first hs) (interval cfg) (capacity cfg) = Inr m"
    by (simp add: mem_NewWithCollector_def)
  then show ?thesis by (simp add: adds_def build_memory_def appendEnabled_def)
qed

lemma adds_gpu: "1 \<le> capacity cfg \<Longrightarrow> adds (GPU_Enabled (Modules cfg)) ''gpu'' (build_gpu cfg hs)"
proof -
  assume "1 \<le> capacity cfg"
  then obtain b where "NewBase gpu_zero_sample (interval cfg) (capacity cfg) = Inr b"
    using NewBase_ok [of "capacity cfg"] by fastforce
  then obtain m logs where "gpu_NewWithCollector (gpu_init hs) (gpu_prof hs) (gpu_first hs) (interval cfg) (capacity cfg) = Inr (m, logs)"
    by (cases "gpu_init hs"; cases "fst (gpu_init hs)") (auto simp: gpu_NewWithCollector_def)
  then show ?thesis by (simp add: adds_def build_gpu_def appendEnabled_def)
qed

lemma adds_storage:
  "1 \<le> capacity cfg \<Longrightarrow> adds (sEnabled (StorageCfg (Modules cfg))) ''storage'' (build_storage cfg hs)"
proof -
  assume "1 \<le> capacity cfg"
  then obtain b where "NewBase storage_zero_sample (interval cfg) (capacity cfg) = Inr b"
    using NewBase_ok [of "capacity cfg"] by fastforce
  then have "storage_New ms (interval cfg) (capacity cfg) parts e \<noteq> Panicked p" for ms parts e p
    by (auto simp: storage_New_def storage_NewWithDeps_def split: sum.splits)
  then show ?thesis
    by (auto simp: adds_def build_storage_def appendEnabled_def Let_def split: constructed.splits)
qed

lemma run_builds_adds:
  assumes "list_all2 (\<lambda>(on, n) b. adds on n b) specs bs" "\<forall>m \<in> set ms. ageable h m"
  shows "case run_builds bs (ms, h) of
      (Inl e, tr) \<Rightarrow> (\<exists>rest. map snd (filter fst specs) = constructed_in tr @ ''storage'' # rest)
        \<and> (\<exists>err. e = InitError ''storage'' err) \<and> shut_down_in tr = []
    | (Inr (ms1, h1), tr) \<Rightarrow> map mod_Name ms1 = map mod_Name ms @ map snd (filter fst specs)
        \<and> constructed_in tr = map snd (filter fst specs) \<and> shut_down_in tr = []
        \<and> (\<forall>m \<in> set ms1. ageable h1 m)"
  using assms
proof (induction arbitrary: ms h rule: list_all2_induct)
  case (Cons spec specs b bs)
  obtain on n where spec: "spec = (on, n)" by (cases spec)
  have "adds on n b" using Cons.hyps(1) by (simp add: spec)
  then have a: "case b (ms, h) of
        Inl e \<Rightarrow> on \<and> n = ''storage'' \<and> (\<exists>err. e = InitError n err)
      | Inr ((ms1, h1), tr) \<Rightarrow> map mod_Name ms1 = map mod_Name ms @ (if on then [n] else [])
          \<and> constructed_in tr = (if on then [n] else []) \<and> shut_down_in tr = []
          \<and> (\<forall>m \<in> set ms1. ageable h1 m)"
    using Cons.prems unfolding adds_def by blast
  show ?case
  proof (cases "b (ms, h)")
    case (Inl e)
    then show ?thesis using a by (auto simp: spec)
  next
    case (Inr r)
    obtain ms1 h1 tr1 where r: "r = ((ms1, h1), tr1)" by (metis prod.collapse)
    have m: "map mod_Name ms1 = map mod_Name ms @ (if on then [n] else [])" "constructed_in tr1 = (if on then [n] else [])"
      "shut_down_in tr1 = []" "\<forall>m \<in> set ms1. ageable h1 m"
      using a Inr r by simp_all
    obtain res tr2 where rest: "run_builds bs (ms1, h1) = (res, tr2)" by (cases "run_builds bs (ms1, h1)")
    show ?thesis
      using Cons.IH [OF m(4)] m(1-3) by (auto simp: Inr r rest spec split: sum.splits)
  qed
qed simp

declare run_builds.simps [simp del]

text \<open>What every builder keeps, and every event it emits has, holds of a whole construction.\<close>

lemma run_builds_rule:
  assumes "\<And>b s s1 evs. b \<in> set bs \<Longrightarrow> P s \<Longrightarrow> b s = Inr (s1, evs) \<Longrightarrow> P s1 \<and> (\<forall>ev \<in> set evs. q ev)"
    and "P s" "run_builds bs s = (res, tr)"
  shows "(\<forall>s1. res = Inr s1 \<longrightarrow> P s1) \<and> (\<forall>ev \<in> set tr. q ev)"
  using assms
proof (induction bs arbitrary: s tr)
  case (Cons b bs)
  show ?case
  proof (cases "b s")
    case (Inl e)
    then show ?thesis using Cons.prems(3) by (auto simp: run_builds.simps)
  next
    case (Inr r)
    obtain s1 evs where b: "b s = Inr (s1, evs)" using Inr by (cases r) simp
    obtain tr1 where rest: "run_builds bs s1 = (res, tr1)" "tr = evs @ tr1"
      using Cons.prems(3) by (auto simp: run_builds.simps b split: prod.splits)
    have 1: "P s1 \<and> (\<forall>ev \<in> set evs. q ev)" using Cons.prems(1) [of b s s1 evs] Cons.prems(2) b by simp
    have "(\<forall>s1. res = Inr s1 \<longrightarrow> P s1) \<and> (\<forall>ev \<in> set tr1. q ev)"
    proof (rule Cons.IH [OF _ _ rest(1)])
      show "P s1" using 1 ..
      show "P s'' \<and> (\<forall>ev \<in> set evs'. q ev)" if "b' \<in> set bs" "P s'" "b' s' = Inr (s'', evs')" for b' s' s'' evs'
        using Cons.prems(1) [of b' s' s'' evs'] that by simp
    qed
    then show ?thesis using 1 by (auto simp: rest(2))
  qed
qed (auto simp: run_builds.simps)

definition builders :: "config \<Rightarrow> host \<Rightarrow> (mods_heap \<Rightarrow> setup_error + mods_heap \<times> event list) list" where
  "builders cfg hs = [build_cpu cfg hs, build_memory cfg hs, build_gpu cfg hs, build_storage cfg hs]"

lemma buildModules_rule:
  assumes "\<And>b s s1 evs. b \<in> set (builders cfg hs) \<Longrightarrow> P s \<Longrightarrow> b s = Inr (s1, evs) \<Longrightarrow> P s1 \<and> (\<forall>ev \<in> set evs. q ev)"
    and "P ([], h)" "\<And>n. q (Started n)" "buildModules cfg hs h = (res, tr)"
  shows "(\<forall>s1. res = Inr s1 \<longrightarrow> P s1) \<and> (\<forall>ev \<in> set tr. q ev)"
proof -
  obtain res0 tr0 where b: "run_builds (builders cfg hs) ([], h) = (res0, tr0)" by (cases "run_builds (builders cfg hs) ([], h)")
  have "\<forall>ev \<in> set (fst (mod_Start m)). q ev" for m using assms(3) by (cases m) (simp_all add: start_defs)
  then have starts: "\<forall>ev \<in> set (fst (start_mods ms)). q ev" for ms unfolding start_mods_eq by auto
  have "(\<forall>s1. res0 = Inr s1 \<longrightarrow> P s1) \<and> (\<forall>ev \<in> set tr0. q ev)"
    using run_builds_rule [where P = P and q = q, OF assms(1,2) b] by simp
  then show ?thesis using assms(4) b starts
    by (cases res0) (auto simp: buildModules_eq builders_def [symmetric])
qed

text \<open>
  The events of a construction: warnings, constructions and starts, and no module's collector is
  released by it.
\<close>

definition building :: "event \<Rightarrow> bool" where
  "building ev = (case ev of Logs r \<Rightarrow> rlevel r = LevelWarn | Constructed n \<Rightarrow> True | Started n \<Rightarrow> True | _ \<Rightarrow> False)"

definition unreleased :: "app_module \<Rightarrow> bool" where
  "unreleased m = (case m of GpuMod g \<Rightarrow> \<not> shutdown_done g | _ \<Rightarrow> True)"

lemma building_simps [simp]:
  "building (warning k e)" "building (Constructed n)" "building (Started n)"
  by (simp_all add: building_def warning_def split: log_entry.split)

lemma unreleased_simps [simp]:
  "unreleased (CpuMod m1)" "unreleased (MemMod m2)" "unreleased (StorageMod m3)" "unreleased (GpuMod g) \<longleftrightarrow> \<not> shutdown_done g"
  by (simp_all add: unreleased_def)

lemma gpu_New_unreleased:
  assumes "gpu_NewWithCollector i p e intv cap = Inr (m, logs)"
  shows "\<not> shutdown_done m"
  using assms by (cases i) (auto simp: gpu_NewWithCollector_def gpu_collectOnce_def split: sum.splits prod.splits if_splits)

lemma builder_adds_module:
  assumes "b \<in> set (builders cfg hs)" "b (ms, h) = Inr ((ms1, h1), evs)"
  shows "(\<exists>ms2. ms1 = ms @ ms2 \<and> (\<forall>m \<in> set ms2. unreleased m)) \<and> (\<forall>ev \<in> set evs. building ev)"
  using assms gpu_New_unreleased [of "gpu_init hs" "gpu_prof hs" "gpu_first hs" "interval cfg" "capacity cfg"]
  by (auto simp: builders_def build_cpu_def build_memory_def build_gpu_def build_storage_def appendEnabled_def Let_def
      split: if_splits sum.splits prod.splits constructed.splits)

lemma build_events:
  assumes "buildModules cfg hs h = (res, tr)"
  shows "(\<forall>ms h1. res = Inr (ms, h1) \<longrightarrow> (\<forall>m \<in> set ms. unreleased m)) \<and> (\<forall>ev \<in> set tr. building ev)"
proof -
  have "(\<forall>s1. res = Inr s1 \<longrightarrow> (\<forall>m \<in> set (fst s1). unreleased m)) \<and> (\<forall>ev \<in> set tr. building ev)"
  proof (rule buildModules_rule [OF _ _ _ assms])
    fix b s s1 evs
    assume b: "b \<in> set (builders cfg hs)" "b s = Inr (s1, evs)" and s: "\<forall>m \<in> set (fst s). unreleased m"
    show "(\<forall>m \<in> set (fst s1). unreleased m) \<and> (\<forall>ev \<in> set evs. building ev)"
      using builder_adds_module [OF b(1), of "fst s" "snd s" "fst s1" "snd s1" evs] b(2) s by auto
  qed simp_all
  then show ?thesis by auto
qed

lemma storage_last:
  assumes "configured cfg = xs @ ''storage'' # rest"
  shows "rest = []"
proof -
  have "distinct (configured cfg)" "''storage'' \<in> set (configured cfg) \<Longrightarrow> last (configured cfg) = ''storage''"
    by (auto simp: configured_def split: if_splits)
  then show ?thesis using assms by (cases rest rule: rev_cases) auto
qed

lemma configured_storage: "''storage'' \<in> set (configured cfg) \<longleftrightarrow> sEnabled (StorageCfg (Modules cfg))"
  by (simp add: configured_def)

lemma modules_built_facts:
  assumes "Load file = Inr cfg"
  shows "case buildModules cfg hs h of
      (Inl e, tr) \<Rightarrow> configured cfg = constructed_in tr @ [''storage''] \<and> (\<exists>err. e = InitError ''storage'' err)
        \<and> shut_down_in tr = []
    | (Inr (ms, h1), tr) \<Rightarrow> map mod_Name ms = configured cfg \<and> constructed_in tr = configured cfg
        \<and> shut_down_in tr = [] \<and> distinct (map mod_Name ms) \<and> (\<forall>m \<in> set ms. ageable h1 m)
        \<and> distinct (map fst (mux_routes ms))"
proof -
  have "config_ok cfg"
    using assms Validate_config_ok
    by (auto simp: Load_def Let_def split: sum.splits decoded.splits option.splits)
  then have cap: "1 \<le> capacity cfg" by (simp add: config_ok_def)
  let ?specs = "[(CPU_Enabled (Modules cfg), ''cpu''), (Memory_Enabled (Modules cfg), ''memory''),
      (GPU_Enabled (Modules cfg), ''gpu''), (sEnabled (StorageCfg (Modules cfg)), ''storage'')]"
  let ?bs = "[build_cpu cfg hs, build_memory cfg hs, build_gpu cfg hs, build_storage cfg hs]"
  have specs: "map snd (filter fst ?specs) = configured cfg" by (simp add: configured_def)
  have dist: "distinct (configured cfg)" by (simp add: configured_def)
  have "list_all2 (\<lambda>(on, n) b. adds on n b) ?specs ?bs"
    using adds_cpu [OF cap] adds_memory [OF cap] adds_gpu [OF cap] adds_storage [OF cap] by simp
  from run_builds_adds [OF this, of "[]" h]
  have R: "case run_builds ?bs ([], h) of
      (Inl e, tr) \<Rightarrow> (\<exists>rest. configured cfg = constructed_in tr @ ''storage'' # rest)
        \<and> (\<exists>err. e = InitError ''storage'' err) \<and> shut_down_in tr = []
    | (Inr (ms1, h1), tr) \<Rightarrow> map mod_Name ms1 = configured cfg
        \<and> constructed_in tr = configured cfg \<and> shut_down_in tr = [] \<and> (\<forall>m \<in> set ms1. ageable h1 m)"
    unfolding specs list.map append_Nil by simp
  obtain res tr where rb: "run_builds ?bs ([], h) = (res, tr)" by (cases "run_builds ?bs ([], h)")
  show ?thesis
  proof (cases res)
    case (Inl e)
    then obtain rest where "configured cfg = constructed_in tr @ ''storage'' # rest" using R rb by auto
    then have "configured cfg = constructed_in tr @ [''storage'']" using storage_last by simp
    then show ?thesis using R rb Inl by (simp add: buildModules_eq)
  next
    case (Inr st)
    obtain ms h1 where st: "st = (ms, h1)" by (cases st)
    have m: "map mod_Name ms = configured cfg" "constructed_in tr = configured cfg" "shut_down_in tr = []"
      "\<forall>m \<in> set ms. ageable h1 m" using R rb Inr st by simp_all
    then have "distinct (map fst (mux_routes ms))" using dist by (intro mux_patterns_distinct) simp
    then show ?thesis using m dist rb Inr st by (simp add: buildModules_eq)
  qed
qed

text \<open>
  C22. For a configuration \<open>Load\<close> accepts, building the modules never panics. It yields exactly the
  enabled modules, in the order cpu, memory, gpu, storage, each once and each able to report its
  age, or it fails in the storage module's initialisation, all the other enabled modules being built
  by then; the patterns the modules and the aggregate handlers register on the mux are all different,
  so no registration panics.
\<close>

theorem modules_built:
  assumes "Load file = Inr cfg"
  shows "case buildModules cfg hs h of
      (Inl e, tr) \<Rightarrow> configured cfg = constructed_in tr @ [''storage''] \<and> (\<exists>err. e = InitError ''storage'' err)
        \<and> shut_down_in tr = []
    | (Inr (ms, h1), tr) \<Rightarrow> map mod_Name ms = configured cfg \<and> constructed_in tr = configured cfg
        \<and> shut_down_in tr = [] \<and> distinct (map mod_Name ms) \<and> (\<forall>m \<in> set ms. ageable h1 m)
        \<and> distinct (map fst (mux_routes ms))"
  by (rule modules_built_facts [OF assms])

definition demo_host :: host where
  \<comment> \<open>no CPU counter, no GPU library and no partition can be read\<close>
  "demo_host = \<lparr>warmup_overall = None, warmup_per_core = None, cpu_infos = Inl ''none'',
       cpu_first = cpu_reading.make (Inl ''none'') (Inl ''none'') 0 0,
       mem_for_profile = (vm_of 300, zero_sw, None), mem_first = mem_ok_reading 1 300,
       gpu_init = (False, ''no library''), gpu_prof = nop_Profile NewStubCollector,
       gpu_first = gpu_reading.make gpu_zero_sample 0, partitions = Inl ''none'',
       storage_first = storage_reading.make (\<lambda>_. (zero_usage, Some ''none'')) 0 0\<rparr>"

section \<open>Dispatch\<close>

lemma mux_route:
  assumes "distinct (map mod_Name ms)" "(''GET '' @ rpath r, rt) \<in> set (mux_routes ms)" "rmethod r \<in> {''GET'', ''HEAD''}"
  shows "mux se other ms r c = serve_route se rt r c"
proof -
  have "find (\<lambda>(pat, rt). pattern_matches pat r) (mux_routes ms) = Some (''GET '' @ rpath r, rt)"
    using assms by (intro find_unique mux_patterns_distinct) (auto simp: pattern_matches_def)
  then show ?thesis by (simp add: mux_def)
qed

lemma module_named_unique:
  assumes "distinct (map mod_Name ms)" "m \<in> set ms"
  shows "module_named (mod_Name m) ms = Some m"
  using assms
proof (induction ms)
  case (Cons x ms)
  show ?case
  proof (cases "x = m")
    case False
    then have "m \<in> set ms" using Cons.prems(2) by simp
    then have "mod_Name x \<noteq> mod_Name m" using Cons.prems(1) imageI [of m "set ms" mod_Name] by auto
    then show ?thesis using Cons \<open>m \<in> set ms\<close> by (simp add: module_named_def)
  qed (simp add: module_named_def)
qed simp

lemma module_routes_in:
  assumes "m \<in> set ms"
  shows "(''GET /metrics/'' @ mod_Name m, ModuleLatest (mod_Name m)) \<in> set (mux_routes ms)"
    "(''GET /metrics/'' @ mod_Name m @ ''/history'', ModuleHistory (mod_Name m)) \<in> set (mux_routes ms)"
  using assms by (auto simp: mux_routes_def module_routes_def RegisterRoutes_def Let_def)

text \<open>
  C23. The mux dispatches every route to its handler: a GET or HEAD of \<open>/metrics/<name>\<close> or its
  history reaches exactly the module of that name, \<open>/metrics\<close>, \<open>/health\<close> and \<open>/profile\<close> reach the
  aggregate handlers, and every other request gets the standard library's own answer; no module's
  route shadows another's or an aggregate's.
\<close>

theorem mux_dispatch:
  assumes "distinct (map mod_Name ms)" "app_mods (server_state c) = ms"
  shows "(rmethod r \<in> {''GET'', ''HEAD''} \<longrightarrow>
       (\<forall>m \<in> set ms. rpath r = ''/metrics/'' @ mod_Name m \<longrightarrow>
          mux se other ms r c = respond (serve_module_latest (app_heap (server_state c)) m) c)
       \<and> (\<forall>m \<in> set ms. rpath r = ''/metrics/'' @ mod_Name m @ ''/history'' \<longrightarrow>
          mux se other ms r c = respond (serve_module_history (clock_now (env c)) (app_heap (server_state c)) m r) c)
       \<and> (rpath r = ''/metrics'' \<longrightarrow> mux se other ms r c = combined_ServeHTTP (local_format se) r c)
       \<and> (rpath r = ''/health'' \<longrightarrow>
          mux se other ms r c = health_ServeHTTP (start_time se) (age_clock se) (max_staleness se) r c)
       \<and> (rpath r = ''/profile'' \<longrightarrow> mux se other ms r c = profile_ServeHTTP (lclock se) (go_version se) (profile_h se) r c))
    \<and> (rmethod r \<notin> {''GET'', ''HEAD''} \<or> ''GET '' @ rpath r \<notin> fst ` set (mux_routes ms) \<longrightarrow>
       mux se other ms r c = other r c)"
proof (intro conjI impI ballI)
  fix m assume get: "rmethod r \<in> {''GET'', ''HEAD''}" and m: "m \<in> set ms"
  note named = module_named_unique [OF assms(1) m]
  show "mux se other ms r c = respond (serve_module_latest (app_heap (server_state c)) m) c"
    if "rpath r = ''/metrics/'' @ mod_Name m"
    using mux_route [OF assms(1), of r "ModuleLatest (mod_Name m)" se other c] module_routes_in(1) [OF m] get that
    by (simp add: serve_route_def assms(2) named)
  show "mux se other ms r c = respond (serve_module_history (clock_now (env c)) (app_heap (server_state c)) m r) c"
    if "rpath r = ''/metrics/'' @ mod_Name m @ ''/history''"
    using mux_route [OF assms(1), of r "ModuleHistory (mod_Name m)" se other c] module_routes_in(2) [OF m] get that
    by (simp add: serve_route_def assms(2) named)
next
  assume get: "rmethod r \<in> {''GET'', ''HEAD''}"
  have agg: "(''GET /metrics'', MetricsRoute) \<in> set (mux_routes ms)" "(''GET /health'', HealthRoute) \<in> set (mux_routes ms)"
    "(''GET /profile'', ProfileRoute) \<in> set (mux_routes ms)" by (simp_all add: mux_routes_def)
  show "mux se other ms r c = combined_ServeHTTP (local_format se) r c" if "rpath r = ''/metrics''"
    using mux_route [OF assms(1), of r MetricsRoute se other c] agg get that by (simp add: serve_route_def)
  show "mux se other ms r c = health_ServeHTTP (start_time se) (age_clock se) (max_staleness se) r c"
    if "rpath r = ''/health''"
    using mux_route [OF assms(1), of r HealthRoute se other c] agg get that by (simp add: serve_route_def)
  show "mux se other ms r c = profile_ServeHTTP (lclock se) (go_version se) (profile_h se) r c" if "rpath r = ''/profile''"
    using mux_route [OF assms(1), of r ProfileRoute se other c] agg get that by (simp add: serve_route_def)
next
  assume "rmethod r \<notin> {''GET'', ''HEAD''} \<or> ''GET '' @ rpath r \<notin> fst ` set (mux_routes ms)"
  then have "find (\<lambda>(pat, rt). pattern_matches pat r) (mux_routes ms) = None"
    unfolding find_None_iff by (auto simp: pattern_matches_def image_iff)
  then show "mux se other ms r c = other r c" by (simp add: mux_def)
qed

section \<open>A configuration\<close>

definition gpu_file :: config where
  \<comment> \<open>memory and GPU configured\<close>
  "gpu_file = demo_file\<lparr>Modules := \<lparr>CPU_Enabled = False, Memory_Enabled = True, GPU_Enabled = True,
     StorageCfg = \<lparr>sEnabled = False, MountPoints = []\<rparr>\<rparr>\<rparr>"

lemma gpu_file_loads: "Load (Inr (Decoded gpu_file)) = Inr (applyDefaults gpu_file)"
proof -
  let ?cfg = "applyDefaults gpu_file"
  have f: "CORS ?cfg = CORS demo_config" "RateLimitCfg ?cfg = RateLimitCfg demo_config"
    "ServerCfg ?cfg = \<lparr>Host = ''::1'', Port = 8080\<rparr>"
    "config.Sampler ?cfg = sampler_config.make second 60" "sEnabled (StorageCfg (Modules ?cfg)) = False"
    by (simp_all add: gpu_file_def demo_file_def demo_config_def applyDefaults_def default_defs zero_config_def
        sampler_config.make_def Let_def)
  have "config_ok ?cfg"
    by (simp add: config_ok_def f sampler_config.make_def) (simp add: demo_config_def Parse_def f64_le_def Let_def)
  then show ?thesis using Validate_config_ok [of ?cfg] by (simp add: Load_def Let_def)
qed

lemma gpu_file_modules:
  "configured (applyDefaults gpu_file) = [''memory'', ''gpu'']"
  "\<not> sEnabled (StorageCfg (Modules (applyDefaults gpu_file)))"
  by (simp_all add: configured_def gpu_file_def applyDefaults_def)

theorem modules_built_witness:
  "\<exists>ms h1 tr. buildModules (applyDefaults gpu_file) demo_host run3_heap = (Inr (ms, h1), tr)
    \<and> map mod_Name ms = [''memory'', ''gpu'']"
  using modules_built [OF gpu_file_loads, of "demo_host" run3_heap] gpu_file_modules
  by (auto split: prod.splits sum.splits)

theorem mux_dispatch_witness:
  "\<forall>se other. mux se other [MemMod (mem_run []), GpuMod (gpu_run False)] (get_request ''/metrics/memory'' (\<lambda>_. ''''))
      (fresh_conn (demo_app [MemMod (mem_run []), GpuMod (gpu_run False)] run3_heap))
    = respond (mem_serve_latest (mem_run [])) (fresh_conn (demo_app [MemMod (mem_run []), GpuMod (gpu_run False)] run3_heap))"
proof (intro allI)
  fix se :: server_env and other :: "nat app handler"
  let ?ms = "[MemMod (mem_run []), GpuMod (gpu_run False)]"
  let ?r = "get_request ''/metrics/memory'' (\<lambda>_. '''')"
  have 1: "distinct (map mod_Name ?ms)" "app_mods (server_state (fresh_conn (demo_app ?ms run3_heap))) = ?ms"
    by (simp_all add: demo_app_def)
  have 2: "rmethod ?r \<in> {''GET'', ''HEAD''}" "rpath ?r = ''/metrics/'' @ mod_Name (MemMod (mem_run []))"
    "MemMod (mem_run []) \<in> set ?ms" by (simp_all add: get_request_def)
  let ?c = "fresh_conn (demo_app ?ms run3_heap)"
  have "mux se other ?ms ?r ?c = respond (serve_module_latest (app_heap (server_state ?c)) (MemMod (mem_run []))) ?c"
    using mux_dispatch [OF 1, of ?r se other] 2 by blast
  then show "mux se other ?ms ?r ?c = respond (mem_serve_latest (mem_run [])) ?c" by simp
qed

end
