(* ===== verification/Service.thy ===== *)
theory Service
  imports Main_Program
begin

text \<open>
  The running service: the modules' sampling goroutines, the limiter's clean-up goroutine and the
  listener's requests, interleaved. A run is a list of events; an event carries what the outside
  world delivers at it (a reading, the clock, a request with the clock and the random bytes its
  handling reads). One event is one step: the goroutines' accesses to a module go through its ring
  buffer's lock and its atomic pointers, and the table of clients has a lock of its own. A publication
  is one step, which \<open>Publication\<close> justifies for its readers; so are the peak's writes into a sample's
  array, which no lock protects: \<open>Peak_Race\<close> shows what overlapping requests can do there.
\<close>

section \<open>Events\<close>

datatype sampling =
    CpuTick cpu_reading
  | MemTick mem_reading
  | GpuTick gpu_reading
  | StorageTick storage_reading

fun mod_tick :: "sampling \<Rightarrow> app_module \<times> heap \<Rightarrow> app_module \<times> heap" where
  \<comment> \<open>a tick of the goroutine \<open>Start\<close> launched; a disabled GPU module has none\<close>
  "mod_tick (CpuTick e) (CpuMod m, h) = (let (m1, h1) = cpu_collectOnce e (m, h) in (CpuMod m1, h1))"
| "mod_tick (MemTick e) (MemMod m, h) = (MemMod (mem_collectOnce e m), h)"
| "mod_tick (GpuTick e) (GpuMod m, h) = (GpuMod (if gpu_Start m then gpu_collectOnce e m else m), h)"
| "mod_tick (StorageTick e) (StorageMod m, h) = (StorageMod (storage_collectOnce e m), h)"
| "mod_tick t mh = mh"

primrec tick_mods :: "sampling \<Rightarrow> app_module list \<Rightarrow> heap \<Rightarrow> app_module list \<times> heap" where
  "tick_mods t [] h = ([], h)"
| "tick_mods t (m # ms) h =
     (let (m1, h1) = mod_tick t (m, h); (ms1, h2) = tick_mods t ms h1 in (m1 # ms1, h2))"

record arrival =
  \<comment> \<open>a request and what its handling reads from the clock and the random source\<close>
  req :: request
  readings :: env_reading
  age_readings :: "nat \<Rightarrow> instant"

datatype service_event =
    Sampling sampling
  | Cleanup instant
  | Arrival arrival

record 'l service =
  app_of :: "'l app"
  log_of :: "log_line list"

record 'l site =
  \<comment> \<open>what is fixed when the listener starts\<close>
  api_of :: "'l limiter_api"
  cfg_of :: config
  env_of :: server_env
  std_mux :: "'l app handler"
  routed :: "app_module list"

definition serve_arrival :: "'l site \<Rightarrow> arrival \<Rightarrow> 'l service \<Rightarrow> served \<times> 'l app conn" where
  \<comment> \<open>\<open>net/http\<close> calls the handler with a fresh response writer\<close>
  "serve_arrival st a s =
     listener (api_of st) (cfg_of st) ((env_of st)\<lparr>age_clock := age_readings a\<rparr>) (std_mux st) (routed st)
       (req a) \<lparr>server_state = app_of s, resp = response_writer (req a), log_out = log_of s, env = readings a\<rparr>"

primrec service_step :: "'l site \<Rightarrow> service_event \<Rightarrow> 'l service \<Rightarrow> 'l service" where
  "service_step st (Sampling t) s =
     (let (ms, h) = tick_mods t (app_mods (app_of s)) (app_heap (app_of s))
      in s\<lparr>app_of := (app_of s)\<lparr>app_mods := ms, app_heap := h\<rparr>\<rparr>)"
| "service_step st (Cleanup now) s =
     (let rc = rate_of (RateLimitCfg (cfg_of st))
      in if limits rc then s\<lparr>app_of := cleanup now (IdleEvictAfter (with_defaults rc)) (app_of s)\<rparr> else s)"
| "service_step st (Arrival a) s =
     (let (o', c1) = serve_arrival st a s in s\<lparr>app_of := server_state c1, log_of := log_out c1\<rparr>)"

definition service_start :: "app_module list \<Rightarrow> heap \<Rightarrow> log_line list \<Rightarrow> 'l service" where
  "service_start ms h ls = \<lparr>app_of = \<lparr>byIP = Map.empty, limiters = [], app_mods = ms, app_heap = h\<rparr>, log_of = ls\<rparr>"

section \<open>Handlers that return\<close>

text \<open>
  \<open>safe P h\<close>: called in a state that satisfies \<open>P\<close>, the handler returns, logs nothing itself and
  leaves a state that satisfies \<open>P\<close>.
\<close>

definition safe :: "('s \<Rightarrow> bool) \<Rightarrow> 's handler \<Rightarrow> bool" where
  "safe P h \<longleftrightarrow> (\<forall>r c. P (server_state c) \<longrightarrow>
     fst (h r c) = Returned \<and> P (server_state (snd (h r c))) \<and> log_out (snd (h r c)) = log_out c)"

lemma safeD:
  assumes "safe P h" "P (server_state c)"
  shows "fst (h r c) = Returned" "P (server_state (snd (h r c)))" "log_out (snd (h r c)) = log_out c"
  using assms by (simp_all add: safe_def)

lemma safe_cors:
  assumes "safe P h"
  shows "safe P (cors_Middleware cfg h)"
  using safeD [OF assms] by (auto simp: safe_def cors_eq Let_def)

definition table_closed :: "(('l, 'm) rate_limiter_scheme \<Rightarrow> bool) \<Rightarrow> bool" where
  \<comment> \<open>the predicate survives what the limiter does to its table\<close>
  "table_closed P \<longleftrightarrow> (\<forall>s. P s \<longrightarrow>
     (\<forall>api cfg now ip. P (snd (limiterFor api cfg now ip s))) \<and> (\<forall>l b. P (s\<lparr>limiters := (limiters s)[l := b]\<rparr>)))"

lemma safe_RateLimit:
  assumes "safe P h" "table_closed P"
  shows "safe P (RateLimit api cfg h)"
  unfolding safe_def
proof (intro allI impI)
  fix r :: request and c :: "('a, 'b) rate_limiter_scheme conn"
  assume P: "P (server_state c)"
  let ?cfg = "with_defaults cfg" and ?now = "clock_now (env c)"
  obtain l rl1 where rl1: "limiterFor api ?cfg ?now (rate_clientIP ?cfg r) (server_state c) = (l, rl1)"
    by (cases "limiterFor api ?cfg ?now (rate_clientIP ?cfg r) (server_state c)")
  then have "P (snd (limiterFor api ?cfg ?now (rate_clientIP ?cfg r) (server_state c)))"
    using P assms(2) unfolding table_closed_def by blast
  then have upd: "P (rl1\<lparr>limiters := (limiters rl1)[k := b]\<rparr>)" for k b
    using assms(2) rl1 by (simp add: table_closed_def)
  show "fst (RateLimit api cfg h r c) = Returned \<and> P (server_state (snd (RateLimit api cfg h r c)))
      \<and> log_out (snd (RateLimit api cfg h r c)) = log_out c"
    using P upd safeD [OF assms(1)] by (auto simp: RateLimit_def Let_def rl1 split: prod.splits)
qed

section \<open>The invariant\<close>

definition has_base :: "'a base option \<Rightarrow> bool" where
  "has_base p \<longleftrightarrow> (\<exists>b. p = Some b \<and> base_inv b)"

definition mod_ok :: "heap \<Rightarrow> app_module \<Rightarrow> bool" where
  \<comment> \<open>the module has its base, whose latest pointer is the newest retained sample; a CPU module's
     samples own their arrays\<close>
  "mod_ok h m =
     (case m of
        CpuMod x \<Rightarrow> cpu_inv (x, h)
      | MemMod x \<Rightarrow> has_base (mem_base x)
      | GpuMod x \<Rightarrow> has_base (gpu_base x)
      | StorageMod x \<Rightarrow> has_base (storage_base x))"

definition app_ok :: "string list \<Rightarrow> 'l app \<Rightarrow> bool" where
  "app_ok ns s \<longleftrightarrow> map mod_Name (app_mods s) = ns \<and> table_inv s \<and> (\<forall>m \<in> set (app_mods s). mod_ok (app_heap s) m)"

lemma mod_ok_simps [simp]:
  "mod_ok h (CpuMod x) = cpu_inv (x, h)" "mod_ok h (MemMod y) = has_base (mem_base y)"
  "mod_ok h (GpuMod z) = has_base (gpu_base z)" "mod_ok h (StorageMod u) = has_base (storage_base u)"
  by (simp_all add: mod_ok_def)

lemma mod_ok_ageable: "mod_ok h m \<Longrightarrow> ageable h m"
  by (cases m) (auto simp: ageable_def cpu_inv_def)

lemma cpu_inv_grows:
  assumes "cpu_inv (m, h)" "heap_grows h h1"
  shows "cpu_inv (m, h1)"
proof -
  obtain b where b: "cpu_base m = Some b" "base_inv b" "distinct (slots (Snapshot (buf b)))"
    "\<forall>a \<in> set (slots (Snapshot (buf b))). a < next_addr h"
    "\<forall>s \<in> set (Snapshot (buf b)). CoreCount s = int (length (elems h (PerCorePercent s)))"
    using assms(1) by (auto simp: cpu_inv_def)
  have "length (elems h1 (PerCorePercent s)) = length (elems h (PerCorePercent s))" if "s \<in> set (Snapshot (buf b))" for s
  proof -
    have "\<forall>a. PerCorePercent s = Some a \<longrightarrow> a < next_addr h" using that b(4) by (auto simp: set_slots)
    then show ?thesis using assms(2) unfolding heap_grows_def by blast
  qed
  moreover have "\<forall>a \<in> set (slots (Snapshot (buf b))). a < next_addr h1"
    using b(4) assms(2) by (fastforce simp: heap_grows_def)
  ultimately show ?thesis using b by (simp add: cpu_inv_def)
qed

lemma mod_ok_grows: "mod_ok h m \<Longrightarrow> heap_grows h h1 \<Longrightarrow> mod_ok h1 m"
  by (cases m) (simp_all add: cpu_inv_grows)

lemma heap_grows_collect: "cpu_collectOnce e (m, h) = (m1, h1) \<Longrightarrow> heap_grows h h1"
  by (cases rule: collectSample_cases [of e h])
    (auto simp: cpu_collectOnce_def heap_grows_def elems_def split: option.splits)

lemma heap_grows_cpu_Peak: "cpu_Peak now d (m, h) = (v, m1, h1) \<Longrightarrow> heap_grows h h1"
  by (auto simp: cpu_Peak_def Let_def split: option.splits prod.splits dest: heap_grows_fold)

lemma heap_grows_peak: "peak_step now w m (c, h) = (c1, h1) \<Longrightarrow> heap_grows h h1"
  by (cases m)
    (auto simp: peak_step_def Let_def dest: heap_grows_cpu_Peak split: if_splits prod.splits)

lemma heap_grows_peaks: "fold (peak_step now w) ms (c, h) = (c1, h1) \<Longrightarrow> heap_grows h h1"
proof (induction ms arbitrary: c h)
  case (Cons m ms)
  obtain c2 h2 where s: "peak_step now w m (c, h) = (c2, h2)" by (cases "peak_step now w m (c, h)")
  then show ?case using Cons heap_grows_peak [OF s] by (auto intro: heap_grows_trans)
qed simp

lemma mod_tick_ok:
  assumes "mod_tick t (m, h) = (m1, h1)" "mod_ok h m"
  shows "mod_Name m1 = mod_Name m" "heap_grows h h1" "mod_ok h1 m1"
proof -
  have cpu: "cpu_inv (x, h) \<Longrightarrow> cpu_collectOnce e (x, h) = (x1, h2) \<Longrightarrow> cpu_inv (x1, h2)" for x e x1 h2
    using cpu_collectOnce_inv [of "(x, h)" e] by simp
  show "mod_Name m1 = mod_Name m" "heap_grows h h1" "mod_ok h1 m1"
    using assms heap_grows_collect cpu
    by (cases t; cases m;
        auto simp: has_base_def mem_collectOnce_def gpu_collectOnce_def storage_collectOnce_def
          intro: Publish_inv split: prod.splits if_splits)+
qed

lemma tick_mods_ok:
  assumes "tick_mods t ms h = (ms1, h1)" "\<forall>m \<in> set ms. mod_ok h m"
  shows "map mod_Name ms1 = map mod_Name ms \<and> heap_grows h h1 \<and> (\<forall>m \<in> set ms1. mod_ok h1 m)"
  using assms
proof (induction ms arbitrary: h ms1)
  case (Cons m ms)
  obtain m' h' where t: "mod_tick t (m, h) = (m', h')" by (cases "mod_tick t (m, h)")
  obtain ms' where r: "tick_mods t ms h' = (ms', h1)" "ms1 = m' # ms'"
    using Cons.prems(1) by (auto simp: t split: prod.splits)
  have "mod_ok h m" using Cons.prems(2) by simp
  note m = mod_tick_ok [OF t this]
  have "\<forall>m \<in> set ms. mod_ok h' m" using Cons.prems(2) m(2) by (auto intro: mod_ok_grows)
  from Cons.IH [OF r(1) this] show ?case
    using m r(2) by (auto intro: mod_ok_grows heap_grows_trans)
qed simp

section \<open>The mux of a running service\<close>

definition stdlib_answers :: "'l app handler \<Rightarrow> bool" where
  \<comment> \<open>the standard library's own answers (404, 405, redirects) neither panic nor know the modules\<close>
  "stdlib_answers other \<longleftrightarrow> (\<forall>r c. fst (other r c) = Returned \<and> server_state (snd (other r c)) = server_state c
     \<and> log_out (snd (other r c)) = log_out c)"

definition profile_ready :: "server_env \<Rightarrow> bool" where
  "profile_ready se \<longleftrightarrow> profile_response_of (lclock se) (go_version se) (profile_h se) \<noteq> None"

lemma profile_ready_new: "profile_ready ((new_server_env fmt start clk lc v boot hn cfg ms)\<lparr>age_clock := clk'\<rparr>)"
proof -
  obtain pc pm pg ps where "profile_cpu_block (index_mods ms) = Some pc"
    "profile_memory_block (index_mods ms) = Some pm" "profile_gpu_block (index_mods ms) = Some pg"
    "profile_storage_block (index_mods ms) = Some ps" using blocks_total by metis
  then show ?thesis by (simp add: profile_ready_def new_server_env_def profile_response_of_def)
qed

definition heap_closed :: "app_module list \<Rightarrow> (heap \<Rightarrow> bool) \<Rightarrow> bool" where
  \<comment> \<open>a property of the store that survives the peak requests over the modules\<close>
  "heap_closed ms H \<longleftrightarrow> (\<forall>now w c h c1 h1. H h \<longrightarrow> fold (peak_step now w) ms (c, h) = (c1, h1) \<longrightarrow> H h1)"

definition serving_mods :: "app_module list \<Rightarrow> (heap \<Rightarrow> bool) \<Rightarrow> 'l app \<Rightarrow> bool" where
  \<comment> \<open>the invariant with the modules pinned, and a further property of the store\<close>
  "serving_mods ms H s \<longleftrightarrow>
     app_mods s = ms \<and> table_inv s \<and> (\<forall>m \<in> set ms. mod_ok (app_heap s) m) \<and> H (app_heap s)"

lemma table_closed_serving: "table_closed (serving_mods ms H :: 'l app \<Rightarrow> bool)"
proof -
  have "app_mods rl1 = app_mods s \<and> app_heap rl1 = app_heap s \<and> table_inv rl1"
    if "limiterFor api cfg now ip s = (l, rl1)" "table_inv s" for api cfg now ip and s rl1 :: "'l app" and l
    using that limiterFor_props [OF that(2,1)] by (auto simp: limiterFor_def Let_def split: option.splits)
  then show ?thesis
    by (auto simp: table_closed_def serving_mods_def table_inv_update split: prod.split)
      (metis prod.collapse)+
qed

lemma safe_combined:
  assumes "heap_closed ms H"
  shows "safe (serving_mods ms H) (combined_ServeHTTP fmt)"
  unfolding safe_def
proof (intro allI impI)
  fix r :: request and c :: "'a app conn"
  assume P: "serving_mods ms H (server_state c)"
  let ?now = "clock_now (env c)"
  have grown: "serving_mods ms H ((server_state c)\<lparr>app_heap := h1\<rparr>)"
    if "fold (peak_step now w) (app_mods (server_state c)) (out, app_heap (server_state c)) = (out1, h1)" for now w out out1 h1
  proof -
    have ms: "app_mods (server_state c) = ms" using P by (simp add: serving_mods_def)
    have "H h1" using P assms that unfolding heap_closed_def serving_mods_def ms by blast
    then show ?thesis using P heap_grows_peaks [OF that] mod_ok_grows by (auto simp: serving_mods_def table_inv_def)
  qed
  obtain w ok where w: "ParseDurationParam (rquery r ''window'') (60 * second) = (w, ok)"
    by (cases "ParseDurationParam (rquery r ''window'') (60 * second)")
  show "fst (combined_ServeHTTP fmt r c) = Returned \<and> serving_mods ms H (server_state (snd (combined_ServeHTTP fmt r c)))
      \<and> log_out (snd (combined_ServeHTTP fmt r c)) = log_out c"
    using P grown by (auto simp: combined_ServeHTTP_def w Let_def respond_def split: prod.splits)
qed

lemma safe_serve_route:
  assumes "rt \<in> snd ` set (mux_routes ms')" "map mod_Name ms' = map mod_Name ms" "profile_ready se" "heap_closed ms H"
  shows "safe (serving_mods ms H) (serve_route se rt)"
  unfolding safe_def
proof (intro allI impI)
  fix r :: request and c :: "'a app conn"
  assume P: "serving_mods ms H (server_state c)"
  then have ms: "app_mods (server_state c) = ms" and ok: "\<forall>m \<in> set ms. mod_ok (app_heap (server_state c)) m"
    by (simp_all add: serving_mods_def)
  have named: "\<exists>m. module_named n (app_mods (server_state c)) = Some m" if "rt = ModuleLatest n \<or> rt = ModuleHistory n" for n
  proof -
    have "n \<in> set (map mod_Name ms')"
      using assms(1) that by (auto simp: mux_routes_def module_routes_def RegisterRoutes_def Let_def)
    then have "\<exists>m \<in> set ms. mod_Name m = n" unfolding assms(2) by auto
    then show ?thesis unfolding ms module_named_def by (meson find_None_iff not_None_eq)
  qed
  show "fst (serve_route se rt r c) = Returned \<and> serving_mods ms H (server_state (snd (serve_route se rt r c)))
      \<and> log_out (snd (serve_route se rt r c)) = log_out c"
  proof (cases rt)
    case (ModuleLatest n)
    then show ?thesis using named [of n] P by (auto simp: serve_route_def)
  next
    case (ModuleHistory n)
    then show ?thesis using named [of n] P by (auto simp: serve_route_def)
  next
    case MetricsRoute
    then show ?thesis using safeD [OF safe_combined [OF assms(4)], of c "local_format se" r] P by (simp add: serve_route_def)
  next
    case HealthRoute
    have "\<forall>m \<in> set ms. ageable (app_heap (server_state c)) m" using ok mod_ok_ageable by blast
    from health_loop_result [OF this] show ?thesis
      using P HealthRoute by (simp add: serve_route_def health_ServeHTTP_def ms Let_def respond_def)
  next
    case ProfileRoute
    then show ?thesis using P assms(3)
      by (auto simp: serve_route_def profile_ServeHTTP_def profile_ready_def respond_def split: option.split)
  qed
qed

lemma safe_mux:
  assumes "map mod_Name ms' = map mod_Name ms" "profile_ready se" "heap_closed ms H" "stdlib_answers other"
  shows "safe (serving_mods ms H) (mux se other ms')"
proof -
  have route: "safe (serving_mods ms H) (serve_route se rt)"
    if "find (\<lambda>(pat, rt). pattern_matches pat r) (mux_routes ms') = Some (pat, rt)" for r pat rt
  proof (rule safe_serve_route [OF _ assms(1-3)])
    have "(pat, rt) \<in> set (mux_routes ms')" using that by (auto simp: find_Some_iff in_set_conv_nth)
    then show "rt \<in> snd ` set (mux_routes ms')" by force
  qed
  show ?thesis
    unfolding safe_def
  proof (intro allI impI)
    fix r :: request and c :: "'a app conn"
    assume P: "serving_mods ms H (server_state c)"
    show "fst (mux se other ms' r c) = Returned \<and> serving_mods ms H (server_state (snd (mux se other ms' r c)))
        \<and> log_out (snd (mux se other ms' r c)) = log_out c"
    proof (cases "find (\<lambda>(pat, rt). pattern_matches pat r) (mux_routes ms')")
      case None
      then show ?thesis using P assms(4) by (simp add: mux_def stdlib_answers_def)
    next
      case (Some p)
      obtain pat rt where p: "p = (pat, rt)" by (cases p)
      show ?thesis using safeD [OF route [OF Some [unfolded p]], of c r] P Some p by (simp add: mux_def)
    qed
  qed
qed

section \<open>One event\<close>

lemma Build_safe:
  assumes "safe P nxt" "table_closed P" "P (server_state c)"
  shows "\<exists>c1 code body lat. Build api cfg nxt r c = (Returned, c1) \<and> P (server_state c1)
    \<and> log_out c1 = log_out c @ [AccessLine (rmethod r) (logPath (rpath r)) code body lat (request_id r c) (clientIP r)]"
proof -
  have "safe P (inner_chain api cfg nxt)"
    unfolding inner_chain_def by (intro safe_cors safe_RateLimit assms)
  from safeD [OF this, of "snd (entered r c)" "fst (entered r c)"]
  obtain c1 where c1: "inner_chain api cfg nxt (fst (entered r c)) (snd (entered r c)) = (Returned, c1)"
    "P (server_state c1)" "log_out c1 = log_out c" using assms(3) by (metis entered_fields(5,6) prod.collapse)
  from Build_returned [OF c1(1)] show ?thesis using c1(2,3) by auto
qed

definition site_ok :: "'l site \<Rightarrow> bool" where
  "site_ok st \<longleftrightarrow> stdlib_answers (std_mux st) \<and> (\<forall>clk. profile_ready ((env_of st)\<lparr>age_clock := clk\<rparr>))"

lemma serve_arrival_safe:
  assumes "site_ok st" "app_ok (map mod_Name (routed st)) (app_of s)"
    "heap_closed (app_mods (app_of s)) H" "H (app_heap (app_of s))"
  shows "\<exists>c1 code body lat rid. serve_arrival st a s = (Returned, c1)
    \<and> serving_mods (app_mods (app_of s)) H (server_state c1)
    \<and> log_out c1 = log_of s @ [AccessLine (rmethod (req a)) (logPath (rpath (req a))) code body lat rid (clientIP (req a))]"
proof -
  let ?ms = "app_mods (app_of s)"
  let ?c = "\<lparr>server_state = app_of s, resp = response_writer (req a), log_out = log_of s, env = readings a\<rparr>"
  let ?se = "(env_of st)\<lparr>age_clock := age_readings a\<rparr>"
  have names: "map mod_Name (routed st) = map mod_Name ?ms" using assms(2) by (simp add: app_ok_def)
  have "safe (serving_mods ?ms H) (mux ?se (std_mux st) (routed st))"
    using assms(1,3) names by (intro safe_mux) (simp_all add: site_ok_def)
  moreover have "serving_mods ?ms H (server_state ?c)" using assms(2,4) by (simp add: serving_mods_def app_ok_def)
  ultimately show ?thesis
    using Build_safe [OF _ table_closed_serving, of ?ms H "mux ?se (std_mux st) (routed st)" ?c "api_of st" "cfg_of st" "req a"]
    by (fastforce simp: serve_arrival_def listener_def)
qed

lemma heap_closed_True: "heap_closed ms (\<lambda>_. True)"
  by (simp add: heap_closed_def)

definition arrivals_in :: "service_event list \<Rightarrow> arrival list" where
  "arrivals_in evs = List.map_filter (\<lambda>ev. case ev of Arrival a \<Rightarrow> Some a | _ \<Rightarrow> None) evs"

definition line_of :: "log_line \<Rightarrow> (string \<times> string) option" where
  \<comment> \<open>method and path of an access line\<close>
  "line_of l = (case l of AccessLine m p code body lat rid ip \<Rightarrow> Some (m, p) | PanicLine v p m \<Rightarrow> None)"

lemma in_events [simp]:
  "arrivals_in [] = []"
  "arrivals_in (ev # evs) = (case ev of Arrival a \<Rightarrow> a # arrivals_in evs | _ \<Rightarrow> arrivals_in evs)"
  by (simp_all add: arrivals_in_def List.map_filter_def split: service_event.split)

lemma table_inv_modules [simp]: "table_inv (s\<lparr>app_mods := ms, app_heap := h\<rparr>) = table_inv s"
  by (simp add: table_inv_def)

lemma cleanup_app [simp]:
  "app_mods (cleanup now idle s) = app_mods s" "app_heap (cleanup now idle s) = app_heap s"
  by (simp_all add: cleanup_def Let_def)

lemma service_step_ok:
  assumes "site_ok st" "app_ok (map mod_Name (routed st)) (app_of s)"
  shows "app_ok (map mod_Name (routed st)) (app_of (service_step st ev s))
    \<and> map line_of (log_of (service_step st ev s))
       = map line_of (log_of s) @ map (\<lambda>a. Some (rmethod (req a), logPath (rpath (req a)))) (arrivals_in [ev])"
proof (cases ev)
  case (Sampling t)
  obtain ms h where t: "tick_mods t (app_mods (app_of s)) (app_heap (app_of s)) = (ms, h)"
    by (cases "tick_mods t (app_mods (app_of s)) (app_heap (app_of s))")
  then show ?thesis using assms(2) tick_mods_ok [OF t] by (simp add: Sampling app_ok_def)
next
  case (Cleanup now)
  then show ?thesis using assms(2) by (simp add: app_ok_def Let_def table_inv_cleanup)
next
  case (Arrival a)
  obtain c1 code body lat rid where "serve_arrival st a s = (Returned, c1)"
    "serving_mods (app_mods (app_of s)) (\<lambda>_. True) (server_state c1)"
    "log_out c1 = log_of s @ [AccessLine (rmethod (req a)) (logPath (rpath (req a))) code body lat rid (clientIP (req a))]"
    using serve_arrival_safe [OF assms heap_closed_True] by blast
  then show ?thesis using assms(2) by (simp add: Arrival app_ok_def serving_mods_def line_of_def)
qed

lemma service_run_ok:
  assumes "site_ok st" "app_ok (map mod_Name (routed st)) (app_of s)"
  shows "app_ok (map mod_Name (routed st)) (app_of (fold (service_step st) evs s))
    \<and> map line_of (log_of (fold (service_step st) evs s))
       = map line_of (log_of s) @ map (\<lambda>a. Some (rmethod (req a), logPath (rpath (req a)))) (arrivals_in evs)"
  using assms(2)
proof (induction evs arbitrary: s)
  case (Cons ev evs)
  have "arrivals_in (ev # evs) = arrivals_in [ev] @ arrivals_in evs" by (simp split: service_event.split)
  then show ?case
    using service_step_ok [OF assms(1) Cons.prems, of ev] Cons.IH [of "service_step st ev s"]
    by (simp del: service_step.simps in_events)
qed simp

section \<open>The start of the service\<close>

definition builds_ok :: "(mods_heap \<Rightarrow> setup_error + mods_heap \<times> event list) \<Rightarrow> bool" where
  "builds_ok b \<longleftrightarrow> (\<forall>ms h ms1 h1 tr. (\<forall>m \<in> set ms. mod_ok h m) \<longrightarrow> b (ms, h) = Inr ((ms1, h1), tr)
     \<longrightarrow> (\<forall>m \<in> set ms1. mod_ok h1 m))"

lemma has_base_New: "NewBase z i n = Inr b \<Longrightarrow> has_base (Some (Publish t s b))"
  by (auto simp: has_base_def intro: inv_intros)

lemma builds_ok_cpu: "builds_ok (build_cpu cfg hs)"
  unfolding builds_ok_def
proof (intro allI impI)
  fix ms h ms1 h1 tr
  assume ok: "\<forall>m \<in> set ms. mod_ok h m" and b: "build_cpu cfg hs (ms, h) = Inr ((ms1, h1), tr)"
  show "\<forall>m \<in> set ms1. mod_ok h1 m"
  proof (cases "CPU_Enabled (Modules cfg)")
    case False
    then show ?thesis using ok b by (auto simp: build_cpu_def)
  next
    case True
    then obtain m logs where new: "cpu_NewWithCollector (warmup_overall hs) (warmup_per_core hs) (cpu_infos hs) (cpu_first hs)
        (interval cfg) (capacity cfg) h = Inr ((m, h1), logs)" and ms1: "ms1 = ms @ [CpuMod m]"
      using b by (auto simp: build_cpu_def appendEnabled_def Let_def split: sum.splits prod.splits)
    have "heap_grows h h1"
      using new heap_grows_collect by (auto simp: cpu_NewWithCollector_def Let_def split: sum.splits)
    then show ?thesis using ok cpu_New_inv [OF new] mod_ok_grows by (auto simp: ms1)
  qed
qed

lemma builds_ok_others:
  "builds_ok (build_memory cfg hs)" "builds_ok (build_gpu cfg hs)" "builds_ok (build_storage cfg hs)"
  by (auto simp: builds_ok_def build_memory_def build_gpu_def build_storage_def appendEnabled_def Let_def
      mem_NewWithCollector_def gpu_NewWithCollector_def storage_New_def storage_NewWithDeps_def
      mem_collectOnce_def gpu_collectOnce_def storage_collectOnce_def has_base_New
      split: if_splits sum.splits prod.splits constructed.splits)

lemma service_start_ok:
  assumes "Load file = Inr cfg" "buildModules cfg hs h = (Inr (ms, h1), tr)"
  shows "app_ok (configured cfg) (app_of (service_start ms h1 ls))" "map mod_Name ms = configured cfg"
    "distinct (map mod_Name ms)"
proof -
  have facts: "map mod_Name ms = configured cfg" "distinct (map mod_Name ms)"
    using modules_built_facts [OF assms(1), of hs h] unfolding assms(2) prod.case sum.case by blast+
  then show "map mod_Name ms = configured cfg" "distinct (map mod_Name ms)" .
  have "(\<forall>s1. (Inr (ms, h1) :: setup_error + mods_heap) = Inr s1 \<longrightarrow> (\<forall>m \<in> set (fst s1). mod_ok (snd s1) m))
      \<and> (\<forall>ev \<in> set tr. True)"
  proof (rule buildModules_rule [OF _ _ _ assms(2)])
    fix b s s1 evs
    assume b: "b \<in> set (builders cfg hs)" "b s = Inr (s1, evs)" and s: "\<forall>m \<in> set (fst s). mod_ok (snd s) m"
    have "builds_ok b" using b(1) builds_ok_cpu builds_ok_others unfolding builders_def by fastforce
    then show "(\<forall>m \<in> set (fst s1). mod_ok (snd s1) m) \<and> (\<forall>ev \<in> set evs. True)"
      using b(2) s unfolding builds_ok_def by (cases s; cases s1) fastforce
  qed simp_all
  then have "\<forall>m \<in> set ms. mod_ok h1 m" by simp
  then show "app_ok (configured cfg) (app_of (service_start ms h1 ls))"
    using facts by (simp add: app_ok_def service_start_def table_inv_def)
qed

definition running_site ::
  "'l limiter_api \<Rightarrow> config \<Rightarrow> server_env \<Rightarrow> 'l app handler \<Rightarrow> app_module list \<Rightarrow> 'l site" where
  "running_site api cfg se other ms = \<lparr>api_of = api, cfg_of = cfg, env_of = se, std_mux = other, routed = ms\<rparr>"

lemma running_site_ok:
  assumes "stdlib_answers other" "se = new_server_env fmt start clk lc v boot hn cfg ms"
  shows "site_ok (running_site api cfg se other ms)" "routed (running_site api cfg se other ms) = ms"
  using assms profile_ready_new by (simp_all add: site_ok_def running_site_def)

section \<open>Each module on its own\<close>

definition mem_ticks :: "service_event list \<Rightarrow> mem_reading list" where
  "mem_ticks evs = List.map_filter (\<lambda>ev. case ev of Sampling (MemTick e) \<Rightarrow> Some e | _ \<Rightarrow> None) evs"

definition gpu_ticks :: "service_event list \<Rightarrow> gpu_reading list" where
  "gpu_ticks evs = List.map_filter (\<lambda>ev. case ev of Sampling (GpuTick e) \<Rightarrow> Some e | _ \<Rightarrow> None) evs"

definition storage_ticks :: "service_event list \<Rightarrow> storage_reading list" where
  "storage_ticks evs = List.map_filter (\<lambda>ev. case ev of Sampling (StorageTick e) \<Rightarrow> Some e | _ \<Rightarrow> None) evs"

definition cpu_ticks :: "service_event list \<Rightarrow> cpu_reading list" where
  "cpu_ticks evs = List.map_filter (\<lambda>ev. case ev of Sampling (CpuTick e) \<Rightarrow> Some e | _ \<Rightarrow> None) evs"

definition cpu_sampled :: "cpu_op list \<Rightarrow> cpu_reading list" where
  \<comment> \<open>the readings among the operations on the CPU module\<close>
  "cpu_sampled ops = List.map_filter (\<lambda>op. case op of Sampled e \<Rightarrow> Some e | PeakRequest now d \<Rightarrow> None) ops"

lemma ticks_simps [simp]:
  "mem_ticks [] = []" "gpu_ticks [] = []" "storage_ticks [] = []" "cpu_ticks [] = []"
  "mem_ticks (ev # evs) = (case ev of Sampling (MemTick e) \<Rightarrow> e # mem_ticks evs | _ \<Rightarrow> mem_ticks evs)"
  "gpu_ticks (ev # evs) = (case ev of Sampling (GpuTick e) \<Rightarrow> e # gpu_ticks evs | _ \<Rightarrow> gpu_ticks evs)"
  "storage_ticks (ev # evs) = (case ev of Sampling (StorageTick e) \<Rightarrow> e # storage_ticks evs | _ \<Rightarrow> storage_ticks evs)"
  "cpu_ticks (ev # evs) = (case ev of Sampling (CpuTick e) \<Rightarrow> e # cpu_ticks evs | _ \<Rightarrow> cpu_ticks evs)"
  by (simp_all add: mem_ticks_def gpu_ticks_def storage_ticks_def cpu_ticks_def List.map_filter_def
      split: service_event.split sampling.split)

lemma cpu_sampled_simps [simp]:
  "cpu_sampled [] = []" "cpu_sampled (Sampled e # ops) = e # cpu_sampled ops"
  "cpu_sampled (PeakRequest now d # ops) = cpu_sampled ops" "cpu_sampled (ops @ ops') = cpu_sampled ops @ cpu_sampled ops'"
  by (simp_all add: cpu_sampled_def List.map_filter_def)

definition ticked :: "service_event list \<Rightarrow> app_module \<Rightarrow> app_module" where
  \<comment> \<open>a module without a share in the store, after the ticks of its own goroutine\<close>
  "ticked evs m =
     (case m of
        CpuMod x \<Rightarrow> CpuMod x
      | MemMod x \<Rightarrow> MemMod (fold mem_collectOnce (mem_ticks evs) x)
      | GpuMod x \<Rightarrow> GpuMod (if enabled x then fold gpu_collectOnce (gpu_ticks evs) x else x)
      | StorageMod x \<Rightarrow> StorageMod (fold storage_collectOnce (storage_ticks evs) x))"

definition is_cpu :: "app_module \<Rightarrow> bool" where
  "is_cpu m \<longleftrightarrow> (case m of CpuMod x \<Rightarrow> True | _ \<Rightarrow> False)"

lemma is_cpu_simps [simp]:
  "is_cpu (CpuMod x)" "\<not> is_cpu (MemMod y)" "\<not> is_cpu (GpuMod z)" "\<not> is_cpu (StorageMod u)"
  by (simp_all add: is_cpu_def)

lemma enabled_collect [simp]: "enabled (gpu_collectOnce e x) = enabled x"
  by (simp add: gpu_collectOnce_def)

lemma ticked_Cons: "ticked (ev # evs) m = ticked evs (ticked [ev] m)"
  by (cases m) (simp_all add: ticked_def split: service_event.split sampling.split)

lemma ticked_is_cpu [simp]: "is_cpu (ticked evs m) = is_cpu m"
  by (cases m) (simp_all add: ticked_def)

lemma ticked_other [simp]: "ticked [Cleanup now] m = m" "ticked [Arrival a] m = m" "ticked [] m = m"
  by (cases m; simp add: ticked_def)+

lemma map_ticked_other [simp]:
  "map (ticked [Cleanup now]) xs = xs" "map (ticked [Arrival a]) xs = xs" "map (ticked []) xs = xs"
  by (simp_all add: map_idI)

lemma mod_tick_ticked: "\<not> is_cpu m \<Longrightarrow> mod_tick t (m, h) = (ticked [Sampling t] m, h)"
  by (cases m; cases t) (simp_all add: ticked_def gpu_Start_def)

lemma tick_mods_ticked:
  assumes "tick_mods t ms h = (ms1, h1)"
  shows "filter (\<lambda>m. \<not> is_cpu m) ms1 = map (ticked [Sampling t]) (filter (\<lambda>m. \<not> is_cpu m) ms)"
  using assms
proof (induction ms arbitrary: h ms1)
  case (Cons m ms)
  obtain m' h' where t: "mod_tick t (m, h) = (m', h')" by (cases "mod_tick t (m, h)")
  obtain ms' where r: "tick_mods t ms h' = (ms', h1)" "ms1 = m' # ms'"
    using Cons.prems by (auto simp: t split: prod.splits)
  have "is_cpu m' = is_cpu m" using t by (cases m; cases t) (auto split: prod.splits)
  then show ?case using Cons.IH [OF r(1)] mod_tick_ticked [of m t h] t r(2) by auto
qed simp

lemma service_step_ticked:
  assumes "site_ok st" "app_ok (map mod_Name (routed st)) (app_of s)"
  shows "filter (\<lambda>m. \<not> is_cpu m) (app_mods (app_of (service_step st ev s)))
    = map (ticked [ev]) (filter (\<lambda>m. \<not> is_cpu m) (app_mods (app_of s)))"
proof (cases ev)
  case (Sampling t)
  then show ?thesis
    by (cases "tick_mods t (app_mods (app_of s)) (app_heap (app_of s))") (simp add: tick_mods_ticked)
next
  case (Cleanup now)
  then show ?thesis by (simp add: Let_def)
next
  case (Arrival a)
  obtain c1 where "serve_arrival st a s = (Returned, c1)"
    "serving_mods (app_mods (app_of s)) (\<lambda>_. True) (server_state c1)"
    using serve_arrival_safe [OF assms heap_closed_True] by blast
  then show ?thesis by (simp add: Arrival serving_mods_def)
qed

lemma service_run_ticked:
  assumes "site_ok st" "app_ok (map mod_Name (routed st)) (app_of s)"
  shows "filter (\<lambda>m. \<not> is_cpu m) (app_mods (app_of (fold (service_step st) evs s)))
    = map (ticked evs) (filter (\<lambda>m. \<not> is_cpu m) (app_mods (app_of s)))"
  using assms(2)
proof (induction evs arbitrary: s)
  case (Cons ev evs)
  have "app_ok (map mod_Name (routed st)) (app_of (service_step st ev s))"
    using service_step_ok [OF assms(1) Cons.prems] by blast
  from Cons.IH [OF this] show ?case
    using service_step_ticked [OF assms(1) Cons.prems, of ev] by (simp add: comp_def ticked_Cons [symmetric])
qed simp

text \<open>The CPU module shares the store with its peak requests: it goes through a run of its own operations.\<close>

lemma cpu_alone:
  assumes "distinct (map mod_Name ms)" "CpuMod x \<in> set ms"
  shows "filter is_cpu ms = [CpuMod x]"
proof -
  obtain as bs where ms: "ms = as @ CpuMod x # bs" using assms(2) by (meson split_list)
  have "\<not> is_cpu m" if "m \<in> set as \<union> set bs" for m
  proof
    assume "is_cpu m"
    then have "mod_Name m = ''cpu''" by (cases m) simp_all
    then have "''cpu'' \<in> mod_Name ` (set as \<union> set bs)" using that by (metis imageI)
    then show False using assms(1) by (auto simp: ms)
  qed
  then have "filter is_cpu as = []" "filter is_cpu bs = []" by simp_all
  then show ?thesis by (simp add: ms)
qed

lemma peak_heap_other: "\<not> is_cpu m \<Longrightarrow> peak_heap now w h m = h"
  by (cases m) (simp_all add: peak_heap_def)

lemma fold_peak_heap:
  "fold (\<lambda>m h. peak_heap now w h m) ms h = fold (\<lambda>m h. peak_heap now w h m) (filter is_cpu ms) h"
  by (induction ms arbitrary: h) (simp_all add: peak_heap_other)

lemma fold_peak_step_heap: "snd (fold (peak_step now w) ms (c, h)) = fold (\<lambda>m h. peak_heap now w h m) ms h"
proof (induction ms arbitrary: c h)
  case (Cons m ms)
  then show ?case by (simp add: peak_view.step_eq)
qed simp

lemma cpu_peaks_closed:
  assumes "distinct (map mod_Name ms)" "CpuMod x \<in> set ms"
  shows "heap_closed ms (\<lambda>h. \<exists>ops. cpu_sampled ops = es \<and> (x, h) = fold cpu_apply ops (x0, h0))"
  unfolding heap_closed_def
proof (intro allI impI)
  fix now w c h c1 h1
  assume H: "\<exists>ops. cpu_sampled ops = es \<and> (x, h) = fold cpu_apply ops (x0, h0)"
    and p: "fold (peak_step now w) ms (c, h) = (c1, h1)"
  have "h1 = snd (snd (cpu_Peak now w (x, h)))"
    using fold_peak_step_heap [of now w ms c h] fold_peak_heap [of now w ms h] cpu_alone [OF assms] p
    by (simp add: peak_heap_def split: prod.splits)
  moreover have "fst (snd (cpu_Peak now w (x, h))) = x"
    by (auto simp: cpu_Peak_def Let_def split: option.split prod.split)
  ultimately have "(x, h1) = cpu_apply (PeakRequest now w) (x, h)" by (metis cpu_apply.simps(2) prod.collapse)
  moreover obtain ops where "cpu_sampled ops = es" "(x, h) = fold cpu_apply ops (x0, h0)" using H by blast
  ultimately show "\<exists>ops. cpu_sampled ops = es \<and> (x, h1) = fold cpu_apply ops (x0, h0)"
    by (intro exI [of _ "ops @ [PeakRequest now w]"]) simp
qed

lemma tick_mods_cpu:
  assumes "tick_mods t ms h = (ms1, h1)" "distinct (map mod_Name ms)" "CpuMod x \<in> set ms"
  shows "\<exists>ops x1. CpuMod x1 \<in> set ms1 \<and> cpu_sampled ops = cpu_ticks [Sampling t] \<and> (x1, h1) = fold cpu_apply ops (x, h)"
proof -
  have other: "mod_tick t (m, h) = (ticked [Sampling t] m, h)" if "\<not> is_cpu m" for m h
    using that by (rule mod_tick_ticked)
  have skip: "\<forall>m \<in> set as. \<not> is_cpu m \<Longrightarrow> tick_mods t as h = (map (ticked [Sampling t]) as, h)" for as h
    by (induction as) (simp_all add: other)
  have app: "tick_mods t (as @ bs) h = (let (as1, h1) = tick_mods t as h; (bs1, h2) = tick_mods t bs h1 in (as1 @ bs1, h2))" for as bs h
    by (induction as arbitrary: h) (simp_all add: Let_def split: prod.split)
  obtain as bs where ms: "ms = as @ CpuMod x # bs" using assms(3) by (meson split_list)
  have "filter is_cpu as = [] \<and> filter is_cpu bs = []" using cpu_alone [OF assms(2,3)] unfolding ms by (cases "filter is_cpu as") auto
  then have no: "\<forall>m \<in> set as. \<not> is_cpu m" "\<forall>m \<in> set bs. \<not> is_cpu m" by (simp_all add: filter_empty_conv)
  obtain m1 h2 where m1: "mod_tick t (CpuMod x, h) = (m1, h2)" by (cases "mod_tick t (CpuMod x, h)")
  have r: "ms1 = map (ticked [Sampling t]) as @ m1 # map (ticked [Sampling t]) bs" "h1 = h2"
    using assms(1) by (simp_all add: ms app skip [OF no(1)] skip [OF no(2)] m1)
  show ?thesis
  proof (cases t)
    case (CpuTick e)
    then obtain x1 where "m1 = CpuMod x1" "cpu_collectOnce e (x, h) = (x1, h2)" using m1 by (auto split: prod.splits)
    then show ?thesis by (intro exI [of _ "[Sampled e]"] exI [of _ x1]) (simp add: r CpuTick)
  qed (use m1 r in \<open>auto intro!: exI [of _ "[]"] exI [of _ x]\<close>)
qed

lemma service_step_cpu:
  assumes "site_ok st" "app_ok (map mod_Name (routed st)) (app_of s)" "distinct (map mod_Name (routed st))"
    and "CpuMod x \<in> set (app_mods (app_of s))"
  shows "\<exists>ops x1. CpuMod x1 \<in> set (app_mods (app_of (service_step st ev s))) \<and> cpu_sampled ops = cpu_ticks [ev]
    \<and> (x1, app_heap (app_of (service_step st ev s))) = fold cpu_apply ops (x, app_heap (app_of s))"
proof -
  let ?ms = "app_mods (app_of s)" and ?h = "app_heap (app_of s)"
  have d: "distinct (map mod_Name ?ms)" using assms(2,3) by (simp add: app_ok_def)
  show ?thesis
  proof (cases ev)
    case (Sampling t)
    obtain ms1 h1 where t: "tick_mods t ?ms ?h = (ms1, h1)" by (cases "tick_mods t ?ms ?h")
    then show ?thesis using tick_mods_cpu [OF t d assms(4)] by (simp add: Sampling)
  next
    case (Cleanup now)
    then show ?thesis using assms(4) by (intro exI [of _ "[]"] exI [of _ x]) (simp add: Let_def)
  next
    case (Arrival a)
    let ?H = "\<lambda>h. \<exists>ops. cpu_sampled ops = [] \<and> (x, h) = fold cpu_apply ops (x, ?h)"
    have "?H ?h" by (intro exI [of _ "[]"]) simp
    then obtain c1 where "serve_arrival st a s = (Returned, c1)" "serving_mods ?ms ?H (server_state c1)"
      using serve_arrival_safe [OF assms(1,2) cpu_peaks_closed [OF d assms(4)]] by blast
    then show ?thesis using assms(4) by (auto simp: Arrival serving_mods_def)
  qed
qed

lemma service_run_cpu:
  assumes "site_ok st" "app_ok (map mod_Name (routed st)) (app_of s)" "distinct (map mod_Name (routed st))"
    and "CpuMod x \<in> set (app_mods (app_of s))"
  shows "\<exists>ops x1. CpuMod x1 \<in> set (app_mods (app_of (fold (service_step st) evs s))) \<and> cpu_sampled ops = cpu_ticks evs
    \<and> (x1, app_heap (app_of (fold (service_step st) evs s))) = fold cpu_apply ops (x, app_heap (app_of s))"
  using assms(2,4)
proof (induction evs arbitrary: s x)
  case Nil
  then show ?case by (intro exI [of _ "[]"] exI [of _ x]) simp
next
  case (Cons ev evs)
  let ?s1 = "service_step st ev s"
  obtain ops x1 where 1: "CpuMod x1 \<in> set (app_mods (app_of ?s1))" "cpu_sampled ops = cpu_ticks [ev]"
    "(x1, app_heap (app_of ?s1)) = fold cpu_apply ops (x, app_heap (app_of s))"
    using service_step_cpu [OF assms(1) Cons.prems(1) assms(3) Cons.prems(2)] by blast
  have ok: "app_ok (map mod_Name (routed st)) (app_of ?s1)" using service_step_ok [OF assms(1) Cons.prems(1)] by blast
  obtain ops' x2 where 2: "CpuMod x2 \<in> set (app_mods (app_of (fold (service_step st) evs ?s1)))"
    "cpu_sampled ops' = cpu_ticks evs"
    "(x2, app_heap (app_of (fold (service_step st) evs ?s1))) = fold cpu_apply ops' (x1, app_heap (app_of ?s1))"
    using Cons.IH [OF ok 1(1)] by blast
  have "cpu_ticks (ev # evs) = cpu_ticks [ev] @ cpu_ticks evs" by (simp split: service_event.split sampling.split)
  then show ?case
    using 1 2 by (intro exI [of _ "ops @ ops'"] exI [of _ x2]) (simp del: service_step.simps ticks_simps)
qed

section \<open>From the sampler to the client\<close>

lemma RateLimit_admitted:
  assumes "\<not> denied api cfg r c"
  shows "\<exists>s1. RateLimit api cfg nxt r c = nxt r (c\<lparr>server_state := s1\<rparr>)
    \<and> rate_limiter.more s1 = rate_limiter.more (server_state c)"
proof -
  let ?cfg = "with_defaults cfg" and ?now = "clock_now (env c)"
  have ex: "ExemptPaths ?cfg = ExemptPaths cfg" by (simp add: with_defaults_def Let_def)
  obtain l rl1 where rl1: "limiterFor api ?cfg ?now (rate_clientIP ?cfg r) (server_state c) = (l, rl1)"
    by (cases "limiterFor api ?cfg ?now (rate_clientIP ?cfg r) (server_state c)")
  obtain rsv b where b: "Reserve api ?now (limiters rl1 ! l) = (rsv, b)"
    by (cases "Reserve api ?now (limiters rl1 ! l)")
  show ?thesis
  proof (cases "limits cfg \<and> rpath r \<notin> set (ExemptPaths cfg)")
    case True
    then show ?thesis using assms limiterFor_more [OF rl1]
      by (intro exI [of _ "rl1\<lparr>limiters := (limiters rl1)[l := b]\<rparr>"])
        (simp add: RateLimit_def denied_def Let_def ex rl1 b)
  next
    case False
    then show ?thesis by (intro exI [of _ "server_state c"]) (auto simp: RateLimit_def Let_def ex)
  qed
qed

lemma same_more:
  fixes s s' :: "'l app"
  assumes "rate_limiter.more s = rate_limiter.more s'"
  shows "app_mods s = app_mods s'" "app_heap s = app_heap s'"
  using assms by (cases s; cases s'; simp)+

lemma Build_admitted:
  assumes "\<not> denied api (rate_of (RateLimitCfg cfg)) r c" "rmethod r \<noteq> ''OPTIONS''" "unsent (resp c)"
  shows "\<exists>d. inner_chain api cfg nxt (fst (entered r c)) (snd (entered r c)) = nxt (fst (entered r c)) d
    \<and> rate_limiter.more (server_state d) = rate_limiter.more (server_state c) \<and> env d = env c \<and> unsent (resp d)
    \<and> head_only (wire (resp d)) = head_only (wire (resp c))"
proof -
  let ?r = "fst (entered r c)" and ?d = "snd (entered r c)" and ?cc = "cors_of (CORS cfg)"
  obtain d where d: "inner_chain api cfg nxt ?r ?d = RateLimit api (rate_of (RateLimitCfg cfg)) nxt ?r d"
    "server_state d = server_state c" "env d = env c" "unsent (resp d)" "head_only (wire (resp d)) = head_only (wire (resp c))"
  proof (cases "active ?cc \<and> rheader r ''Origin'' \<noteq> '''' \<and> allowed_by ?cc (rheader r ''Origin'')")
    case True
    with assms(2,3) that [of "on_resp (cors_headers ?cc (rheader r ''Origin'')) ?d"] show thesis
      by (simp add: inner_chain_def cors_eq new_observer_def cors_headers_def Let_def)
  next
    case False
    with assms(2,3) that [of ?d] show thesis by (auto simp: inner_chain_def cors_eq new_observer_def)
  qed
  have "\<not> denied api (rate_of (RateLimitCfg cfg)) ?r d" using assms(1) denied_entered [OF d(2,3)] by simp
  from RateLimit_admitted [OF this] obtain s1 where
    "RateLimit api (rate_of (RateLimitCfg cfg)) nxt ?r d = nxt ?r (d\<lparr>server_state := s1\<rparr>)"
    "rate_limiter.more s1 = rate_limiter.more (server_state d)" by blast
  then show ?thesis using d by (intro exI [of _ "d\<lparr>server_state := s1\<rparr>"]) simp
qed

lemma run_builds_ConsE:
  assumes "run_builds (b # bs) s = (Inr r, tr)"
  obtains s1 e tr1 where "b s = Inr (s1, e)" "run_builds bs s1 = (Inr r, tr1)"
  using assms by (auto simp: run_builds.simps split: sum.splits prod.splits)

lemma memory_built:
  assumes "buildModules cfg hs h = (Inr (ms, h1), tr)" "Memory_Enabled (Modules cfg)"
  shows "\<exists>b. NewBase mem_zero_sample (interval cfg) (capacity cfg) = Inr b
    \<and> MemMod (mem_collectOnce (mem_first hs) \<lparr>mem_base = Some b, mem_profile_info = captureProfile (mem_for_profile hs)\<rparr>) \<in> set ms"
proof -
  obtain tr' where "run_builds [build_cpu cfg hs, build_memory cfg hs, build_gpu cfg hs, build_storage cfg hs] ([], h)
      = (Inr (ms, h1), tr')"
    using assms(1) by (auto simp: buildModules_eq split: prod.splits sum.splits)
  then obtain s1 s2 s3 e1 e2 e3 e4 where b: "build_cpu cfg hs ([], h) = Inr (s1, e1)" "build_memory cfg hs s1 = Inr (s2, e2)"
    "build_gpu cfg hs s2 = Inr (s3, e3)" "build_storage cfg hs s3 = Inr ((ms, h1), e4)"
    by (elim run_builds_ConsE) (use that in \<open>simp add: run_builds.simps\<close>)
  obtain ms2 h2 ms3 h3 where s: "s2 = (ms2, h2)" "s3 = (ms3, h3)" by (metis prod.collapse)
  have sub: "set ms2 \<subseteq> set ms"
    using builder_adds_module [of "build_gpu cfg hs" cfg hs ms2 h2 ms3 h3 e3]
      builder_adds_module [of "build_storage cfg hs" cfg hs ms3 h3 ms h1 e4] b(3,4) s by (auto simp: builders_def)
  obtain ms1 g1 where s1: "s1 = (ms1, g1)" by (cases s1)
  obtain b where "NewBase mem_zero_sample (interval cfg) (capacity cfg) = Inr b"
    "ms2 = ms1 @ [MemMod (mem_collectOnce (mem_first hs) \<lparr>mem_base = Some b, mem_profile_info = captureProfile (mem_for_profile hs)\<rparr>)]"
    using b(2) assms(2) by (auto simp: s s1 build_memory_def mem_NewWithCollector_def appendEnabled_def Let_def split: sum.splits)
  then show ?thesis using sub by auto
qed

lemma mem_serve_latest_wire:
  assumes "mem_Latest m = Ptr (Some smp)" "unsent w" "encodable (json_of_mem_sample smp)"
  shows "wire_status (mem_serve_latest m w) = Some 200" "written (mem_serve_latest m w) = [Doc (json_of_mem_sample smp)]"
    "head_only (wire (mem_serve_latest m w)) = head_only (wire w)"
proof -
  obtain b where "mem_base m = Some b" "Base_Latest b = Some smp"
    using assms(1) by (auto simp: mem_Latest_def split: option.splits)
  then have "mem_serve_latest m w = WriteJSON (json_of_mem_sample smp) w"
    by (simp add: mem_serve_latest_def serve_latest_def callDisabled_def)
  then show "wire_status (mem_serve_latest m w) = Some 200" "written (mem_serve_latest m w) = [Doc (json_of_mem_sample smp)]"
    "head_only (wire (mem_serve_latest m w)) = head_only (wire w)"
    using assms(2,3) Encode_wire [of "header_set ''Content-Type'' ''application/json'' w"] by (simp_all add: WriteJSON_def)
qed

lemma route_served:
  fixes st :: "'l site"
  assumes "distinct (map mod_Name (routed st))" "rmethod (req a) = ''GET''"
    and "(''GET '' @ rpath (req a), rt) \<in> set (mux_routes (routed st))"
    and "\<not> denied (api_of st) (rate_of (RateLimitCfg (cfg_of st))) (req a)
       \<lparr>server_state = app_of s, resp = response_writer (req a), log_out = log_of s, env = readings a\<rparr>"
  obtains d :: "'l app conn" where "app_mods (server_state d) = app_mods (app_of s)" "app_heap (server_state d) = app_heap (app_of s)"
    "env d = readings a" "unsent (resp d)" "\<not> head_only (wire (resp d))"
    "\<forall>f. serve_route ((env_of st)\<lparr>age_clock := age_readings a\<rparr>) rt
        ((req a)\<lparr>ctx_request_id := Some (request_id (req a)
           \<lparr>server_state = app_of s, resp = response_writer (req a), log_out = log_of s, env = readings a\<rparr>)\<rparr>) d = respond f d \<longrightarrow>
      (\<exists>c1. serve_arrival st a s = (Returned, c1) \<and> wire (resp c1) = wire (f (resp d)))"
proof -
  let ?c = "\<lparr>server_state = app_of s, resp = response_writer (req a), log_out = log_of s, env = readings a\<rparr>"
  let ?se = "(env_of st)\<lparr>age_clock := age_readings a\<rparr>"
  let ?mux = "mux ?se (std_mux st) (routed st)"
  let ?r = "fst (entered (req a) ?c)"
  obtain d where d: "inner_chain (api_of st) (cfg_of st) ?mux ?r (snd (entered (req a) ?c)) = ?mux ?r d"
    "rate_limiter.more (server_state d) = rate_limiter.more (app_of s)" "env d = readings a" "unsent (resp d)" "\<not> head_only (wire (resp d))"
    using Build_admitted [OF assms(4), of ?mux] assms(2) by auto
  have route: "?mux ?r d = serve_route ?se rt ?r d"
    using assms(2,3) by (intro mux_route [OF assms(1)]) simp_all
  have r: "?r = (req a)\<lparr>ctx_request_id := Some (request_id (req a) ?c)\<rparr>" by (simp add: entered_def)
  show thesis
  proof (rule that [of d])
    show "app_mods (server_state d) = app_mods (app_of s)" "app_heap (server_state d) = app_heap (app_of s)"
      using same_more [OF d(2)] by simp_all
    show "\<forall>f. serve_route ?se rt ((req a)\<lparr>ctx_request_id := Some (request_id (req a) ?c)\<rparr>) d = respond f d \<longrightarrow>
      (\<exists>c1. serve_arrival st a s = (Returned, c1) \<and> wire (resp c1) = wire (f (resp d)))"
    proof (intro allI impI)
      fix f
      assume f: "serve_route ?se rt ((req a)\<lparr>ctx_request_id := Some (request_id (req a) ?c)\<rparr>) d = respond f d"
      have "inner_chain (api_of st) (cfg_of st) ?mux ?r (snd (entered (req a) ?c)) = (Returned, on_resp f d)"
        unfolding d(1) route by (simp only: r f) (simp add: respond_def)
      from Build_returned [OF this] show "\<exists>c1. serve_arrival st a s = (Returned, c1) \<and> wire (resp c1) = wire (f (resp d))"
        by (auto simp: serve_arrival_def listener_def)
    qed
  qed (use d in simp_all)
qed

text \<open>A module of the running service is found by the handlers of its two routes.\<close>

lemma module_found:
  assumes "app_ok (map mod_Name (routed st)) (app_of s)" "distinct (map mod_Name (routed st))"
    and "m \<in> set (app_mods (app_of s))" "app_mods app = app_mods (app_of s)"
  shows "module_named (mod_Name m) (app_mods app) = Some m" "\<exists>m' \<in> set (routed st). mod_Name m' = mod_Name m"
proof -
  have names: "map mod_Name (app_mods (app_of s)) = map mod_Name (routed st)" using assms(1) by (simp add: app_ok_def)
  show "module_named (mod_Name m) (app_mods app) = Some m"
    using module_named_unique [of "app_mods (app_of s)" m] assms(2,3) unfolding assms(4) names by simp
  have "mod_Name m \<in> set (map mod_Name (app_mods (app_of s)))" unfolding set_map using assms(3) by (rule imageI)
  then show "\<exists>m' \<in> set (routed st). mod_Name m' = mod_Name m" unfolding names set_map by (elim imageE) auto
qed

lemma latest_served:
  fixes st :: "'l site"
  assumes ok: "app_ok (map mod_Name (routed st)) (app_of s)" "distinct (map mod_Name (routed st))"
    and m: "m \<in> set (app_mods (app_of s))"
    and get: "rmethod (req a) = ''GET''" "rpath (req a) = ''/metrics/'' @ mod_Name m"
    and adm: "\<not> denied (api_of st) (rate_of (RateLimitCfg (cfg_of st))) (req a)
       \<lparr>server_state = app_of s, resp = response_writer (req a), log_out = log_of s, env = readings a\<rparr>"
  shows "\<exists>c1 w. serve_arrival st a s = (Returned, c1) \<and> unsent w \<and> \<not> head_only (wire w)
    \<and> wire (resp c1) = wire (serve_module_latest (app_heap (app_of s)) m w)"
proof -
  obtain m' where m': "m' \<in> set (routed st)" "mod_Name m' = mod_Name m" using module_found(2) [OF ok m HOL.refl] by blast
  have rt: "(''GET '' @ rpath (req a), ModuleLatest (mod_Name m)) \<in> set (mux_routes (routed st))"
    using module_routes_in(1) [OF m'(1)] by (simp add: get(2) m'(2))
  obtain d :: "'l app conn" where d: "app_mods (server_state d) = app_mods (app_of s)" "app_heap (server_state d) = app_heap (app_of s)"
    "unsent (resp d)" "\<not> head_only (wire (resp d))" and served: "\<forall>f. serve_route ((env_of st)\<lparr>age_clock := age_readings a\<rparr>) (ModuleLatest (mod_Name m))
        ((req a)\<lparr>ctx_request_id := Some (request_id (req a)
           \<lparr>server_state = app_of s, resp = response_writer (req a), log_out = log_of s, env = readings a\<rparr>)\<rparr>) d = respond f d \<longrightarrow>
      (\<exists>c1. serve_arrival st a s = (Returned, c1) \<and> wire (resp c1) = wire (f (resp d)))"
    by (rule route_served [OF ok(2) get(1) rt adm])
  have "\<exists>c1. serve_arrival st a s = (Returned, c1)
      \<and> wire (resp c1) = wire (serve_module_latest (app_heap (app_of s)) m (resp d))"
    by (rule served [rule_format]) (simp add: serve_route_def module_found(1) [OF ok m d(1)] d(2))
  then show ?thesis using d(3,4) by blast
qed

lemma history_served:
  fixes st :: "'l site"
  assumes ok: "app_ok (map mod_Name (routed st)) (app_of s)" "distinct (map mod_Name (routed st))"
    and m: "m \<in> set (app_mods (app_of s))"
    and get: "rmethod (req a) = ''GET''" "rpath (req a) = ''/metrics/'' @ mod_Name m @ ''/history''"
    and adm: "\<not> denied (api_of st) (rate_of (RateLimitCfg (cfg_of st))) (req a)
       \<lparr>server_state = app_of s, resp = response_writer (req a), log_out = log_of s, env = readings a\<rparr>"
  shows "\<exists>c1 w r. serve_arrival st a s = (Returned, c1) \<and> unsent w \<and> \<not> head_only (wire w) \<and> rquery r = rquery (req a)
    \<and> wire (resp c1) = wire (serve_module_history (clock_now (readings a)) (app_heap (app_of s)) m r w)"
proof -
  obtain m' where m': "m' \<in> set (routed st)" "mod_Name m' = mod_Name m" using module_found(2) [OF ok m HOL.refl] by blast
  have rt: "(''GET '' @ rpath (req a), ModuleHistory (mod_Name m)) \<in> set (mux_routes (routed st))"
    using module_routes_in(2) [OF m'(1)] by (simp add: get(2) m'(2))
  let ?r = "(req a)\<lparr>ctx_request_id := Some (request_id (req a)
           \<lparr>server_state = app_of s, resp = response_writer (req a), log_out = log_of s, env = readings a\<rparr>)\<rparr>"
  obtain d :: "'l app conn" where d: "app_mods (server_state d) = app_mods (app_of s)" "app_heap (server_state d) = app_heap (app_of s)"
    "env d = readings a" "unsent (resp d)" "\<not> head_only (wire (resp d))"
    and served: "\<forall>f. serve_route ((env_of st)\<lparr>age_clock := age_readings a\<rparr>) (ModuleHistory (mod_Name m)) ?r d = respond f d \<longrightarrow>
      (\<exists>c1. serve_arrival st a s = (Returned, c1) \<and> wire (resp c1) = wire (f (resp d)))"
    by (rule route_served [OF ok(2) get(1) rt adm])
  have "\<exists>c1. serve_arrival st a s = (Returned, c1)
      \<and> wire (resp c1) = wire (serve_module_history (clock_now (readings a)) (app_heap (app_of s)) m ?r (resp d))"
    by (rule served [rule_format]) (simp add: serve_route_def module_found(1) [OF ok m d(1)] d(2,3))
  moreover have "rquery ?r = rquery (req a)" by simp
  ultimately show ?thesis using d(4,5) by blast
qed

text \<open>The memory module of a running service has taken exactly the readings of its own ticks.\<close>

lemma memory_in_service:
  assumes "Load file = Inr cfg" "buildModules cfg hs h = (Inr (ms, h1), tr)" "stdlib_answers other"
    and se: "se = new_server_env fmt start clk lc v boot hn cfg ms"
    and st: "st = running_site api cfg se other ms"
    and s: "s = fold (service_step st) evs (service_start ms h1 ls)"
    and on: "Memory_Enabled (Modules cfg)"
  obtains b where "NewBase mem_zero_sample (interval cfg) (capacity cfg) = Inr b"
    "app_ok (map mod_Name (routed st)) (app_of s)" "distinct (map mod_Name (routed st))"
    "MemMod (fold mem_collectOnce (mem_first hs # mem_ticks evs)
       \<lparr>mem_base = Some b, mem_profile_info = captureProfile (mem_for_profile hs)\<rparr>) \<in> set (app_mods (app_of s))"
proof -
  note start = service_start_ok [OF assms(1,2)]
  have site: "site_ok st" "routed st = ms" using running_site_ok [OF assms(3) se, of api] by (simp_all add: st)
  have ok0: "app_ok (map mod_Name (routed st)) (app_of (service_start ms h1 ls))" unfolding site(2) start(2) by (rule start(1))
  have ok: "app_ok (map mod_Name (routed st)) (app_of s)" using service_run_ok [OF site(1) ok0, of evs] by (simp add: s)
  obtain b where b: "NewBase mem_zero_sample (interval cfg) (capacity cfg) = Inr b"
    and x: "MemMod (mem_collectOnce (mem_first hs) \<lparr>mem_base = Some b, mem_profile_info = captureProfile (mem_for_profile hs)\<rparr>) \<in> set ms"
    using memory_built [OF assms(2) on] by blast
  let ?fst = "\<lparr>mem_base = Some b, mem_profile_info = captureProfile (mem_for_profile hs)\<rparr>"
  let ?x = "fold mem_collectOnce (mem_first hs # mem_ticks evs) ?fst"
  have "MemMod ?x = ticked evs (MemMod (mem_collectOnce (mem_first hs) ?fst))" by (simp add: ticked_def)
  moreover have "ticked evs (MemMod (mem_collectOnce (mem_first hs) ?fst)) \<in> set (map (ticked evs) (filter (\<lambda>m. \<not> is_cpu m) ms))"
    unfolding set_map by (rule imageI) (use x in simp)
  ultimately have "MemMod ?x \<in> set (filter (\<lambda>m. \<not> is_cpu m) (app_mods (app_of s)))"
    unfolding s service_run_ticked [OF site(1) ok0] by (simp add: service_start_def)
  then have "MemMod ?x \<in> set (app_mods (app_of s))" by simp
  then show thesis using that [OF b ok] start(3) by (simp add: site(2))
qed

section \<open>Properties\<close>

text \<open>
  C1. From the modules \<open>buildModules\<close> makes of a loaded configuration on, whatever ticks, clean-ups and
  requests follow in whatever order: the service's invariant holds (the configured modules in order,
  each with a consistent history, the CPU samples owning their arrays, different clients owning
  different buckets), the next request's handling returns, and the log holds exactly one access
  line per request, in order, and no line of a recovered panic.
\<close>

theorem service_never_panics:
  assumes "Load file = Inr cfg" "buildModules cfg hs h = (Inr (ms, h1), tr)" "stdlib_answers other"
    and se: "se = new_server_env fmt start clk lc v boot hn cfg ms"
    and st: "st = running_site api cfg se other ms"
    and s: "s = fold (service_step st) evs (service_start ms h1 [])"
  shows "app_ok (configured cfg) (app_of s) \<and> fst (serve_arrival st a s) = Returned
    \<and> map line_of (log_of s) = map (\<lambda>a. Some (rmethod (req a), logPath (rpath (req a)))) (arrivals_in evs)"
proof -
  note start = service_start_ok [OF assms(1,2)]
  have site: "site_ok st" "routed st = ms" using running_site_ok [OF assms(3) se, of api] by (simp_all add: st)
  have "app_ok (map mod_Name (routed st)) (app_of (service_start ms h1 []))" unfolding site(2) start(2) by (rule start(1))
  note run = service_run_ok [OF site(1) this, of evs]
  have "log_of (service_start ms h1 [] :: 'a service) = []" by (simp add: service_start_def)
  with run have ok: "app_ok (map mod_Name (routed st)) (app_of s)"
    and log: "map line_of (log_of s) = map (\<lambda>a. Some (rmethod (req a), logPath (rpath (req a)))) (arrivals_in evs)"
    by (simp_all add: s)
  obtain c1 where "serve_arrival st a s = (Returned, c1)"
    using serve_arrival_safe [OF site(1) ok heap_closed_True] by blast
  then show ?thesis using ok log unfolding site(2) start(2) by simp
qed

definition not_found :: "'l app handler" where
  "not_found r = respond (http_Error ''404 page not found'' 404)"

lemma not_found_answers: "stdlib_answers not_found"
  by (simp add: stdlib_answers_def not_found_def)

definition arrives :: "string \<Rightarrow> arrival" where
  "arrives p = \<lparr>req = get_request p (\<lambda>_. ''''), readings = \<lparr>entropy = None, clock_now = 5 * second, elapsed = 0\<rparr>,
     age_readings = (\<lambda>_. 5 * second)\<rparr>"

definition demo_clock :: local_clock where
  "demo_clock = \<lparr>now_utc = 0, zone = (''UTC'', 0), format_local = (\<lambda>_. ''t''), format_utc_nano = (\<lambda>_. ''t'')\<rparr>"

lemma demo_built:
  obtains ms h1 tr where "buildModules (applyDefaults gpu_file) demo_host run3_heap
    = (Inr (ms, h1), tr)"
proof -
  obtain res tr where r: "buildModules (applyDefaults gpu_file) demo_host run3_heap = (res, tr)"
    by (cases "buildModules (applyDefaults gpu_file) demo_host run3_heap")
  have "\<nexists>e. res = Inl e"
    using modules_built_facts [OF gpu_file_loads, of "demo_host" run3_heap]
      gpu_file_modules(1) by (auto simp: r split: sum.splits)
  then show thesis using that r by (cases res) auto
qed

definition demo_site :: "app_module list \<Rightarrow> (instant \<times> int) site" where
  "demo_site ms = running_site toy_api (applyDefaults gpu_file)
     (new_server_env (\<lambda>_. ''now'') 0 (\<lambda>_. 0) demo_clock ''go1.25'' (Inl ''denied'') '''' (applyDefaults gpu_file) ms)
     not_found ms"

definition demo_events :: "service_event list" where
  "demo_events = [Sampling (MemTick (mem_ok_reading 2 350)), Arrival (arrives ''/health''), Cleanup 7,
     Arrival (arrives ''/nowhere'')]"

theorem service_never_panics_witness:
  "\<exists>ms h1 tr. buildModules (applyDefaults gpu_file) demo_host run3_heap = (Inr (ms, h1), tr)
    \<and> map line_of (log_of (fold (service_step (demo_site ms)) demo_events (service_start ms h1 [])))
      = [Some (''GET'', ''/health''), Some (''GET'', ''/nowhere'')]"
proof -
  obtain ms h1 tr where b: "buildModules (applyDefaults gpu_file) demo_host run3_heap
    = (Inr (ms, h1), tr)" by (rule demo_built)
  have "map line_of (log_of (fold (service_step (demo_site ms)) demo_events (service_start ms h1 [])))
      = map (\<lambda>a. Some (rmethod (req a), logPath (rpath (req a)))) (arrivals_in demo_events)"
    using service_never_panics [OF gpu_file_loads b not_found_answers HOL.refl demo_site_def HOL.refl] by blast
  also have "\<dots> = [Some (''GET'', ''/health''), Some (''GET'', ''/nowhere'')]"
    by (simp add: demo_events_def arrives_def get_request_def logPath_def maxLogPathLen_def)
  finally show ?thesis by (intro exI [of _ ms] exI [of _ h1] exI [of _ tr] conjI b)
qed

text \<open>
  C24. The components do not disturb each other: after any interleaving a memory, GPU or storage module
  is in the state its own ticks alone lead to (a disabled GPU module in its first one), whatever was
  requested meanwhile; and the CPU module and its store are in a state that its own ticks, in their
  order, lead to when peak requests are interleaved with them. So what is proved of a module alone
  holds of it in the service.
\<close>

theorem service_modules_independent:
  assumes "site_ok st" "app_ok (map mod_Name (routed st)) (app_of s)" "distinct (map mod_Name (routed st))"
  shows "filter (\<lambda>m. \<not> is_cpu m) (app_mods (app_of (fold (service_step st) evs s)))
      = map (ticked evs) (filter (\<lambda>m. \<not> is_cpu m) (app_mods (app_of s)))
    \<and> (\<forall>x. CpuMod x \<in> set (app_mods (app_of s)) \<longrightarrow>
         (\<exists>ops x1. CpuMod x1 \<in> set (app_mods (app_of (fold (service_step st) evs s))) \<and> cpu_sampled ops = cpu_ticks evs
           \<and> (x1, app_heap (app_of (fold (service_step st) evs s))) = fold cpu_apply ops (x, app_heap (app_of s))))"
  using service_run_ticked [OF assms(1,2), of evs] service_run_cpu [OF assms, of _ evs] by blast

definition demo_mods :: "app_module list" where
  "demo_mods = [CpuMod run3_module, MemMod (mem_run [mem_ok_reading 1 300])]"

definition peak_arrival :: arrival where
  "peak_arrival = \<lparr>req = get_request ''/metrics'' (\<lambda>k. if k = ''mode'' then ''peak'' else ''''),
     readings = \<lparr>entropy = None, clock_now = 5 * second, elapsed = 0\<rparr>, age_readings = (\<lambda>_. 5 * second)\<rparr>"

lemma demo_mods_ok: "app_ok (map mod_Name demo_mods) (app_of (service_start demo_mods run3_heap []))"
proof -
  have "cpu_inv (run3_module, run3_heap)" using run3_inv by (simp add: run3_pair)
  moreover have "has_base (mem_base (mem_run [mem_ok_reading 1 300]))"
    using mem_run_state [of "[mem_ok_reading 1 300]" 0 0] by (auto simp: has_base_def)
  ultimately show ?thesis by (simp add: app_ok_def service_start_def table_inv_def demo_mods_def)
qed

definition mixed_events :: "service_event list" where
  "mixed_events = [Sampling (MemTick (mem_ok_reading 2 350)), Arrival peak_arrival,
     Sampling (CpuTick (reading 5 40 [10, 70]))]"

lemma mixed_ticks:
  "mem_ticks mixed_events = [mem_ok_reading 2 350]" "cpu_ticks mixed_events = [reading 5 40 [10, 70]]"
  by (simp_all add: mixed_events_def)

theorem service_modules_independent_witness:
  "\<exists>s ops x1. s = fold (service_step (demo_site demo_mods)) mixed_events (service_start demo_mods run3_heap [])
    \<and> filter (\<lambda>m. \<not> is_cpu m) (app_mods (app_of s)) = [MemMod (mem_run [mem_ok_reading 1 300, mem_ok_reading 2 350])]
    \<and> CpuMod x1 \<in> set (app_mods (app_of s)) \<and> cpu_sampled ops = [reading 5 40 [10, 70]]
    \<and> (x1, app_heap (app_of s)) = fold cpu_apply ops (run3_module, run3_heap)"
proof -
  let ?st = "demo_site demo_mods"
  have site: "site_ok ?st" "routed ?st = demo_mods"
    using running_site_ok [OF not_found_answers HOL.refl] by (simp_all add: demo_site_def)
  define s0 :: "(instant \<times> int) service" where "s0 = service_start demo_mods run3_heap []"
  have start: "app_mods (app_of s0) = demo_mods" "app_heap (app_of s0) = run3_heap" by (simp_all add: s0_def service_start_def)
  have ok: "app_ok (map mod_Name (routed ?st)) (app_of s0)" unfolding site(2) s0_def by (rule demo_mods_ok)
  have dist: "distinct (map mod_Name (routed ?st))" unfolding site(2) by (simp add: demo_mods_def)
  note I = service_modules_independent [OF site(1) ok dist, of mixed_events]
  have "CpuMod run3_module \<in> set (app_mods (app_of s0))" unfolding start by (simp add: demo_mods_def)
  then obtain ops x1 where c: "CpuMod x1 \<in> set (app_mods (app_of (fold (service_step ?st) mixed_events s0)))"
    "cpu_sampled ops = cpu_ticks mixed_events"
    "(x1, app_heap (app_of (fold (service_step ?st) mixed_events s0))) = fold cpu_apply ops (run3_module, run3_heap)"
    using I unfolding start by blast
  have m: "filter (\<lambda>m. \<not> is_cpu m) demo_mods = [MemMod (mem_run [mem_ok_reading 1 300])]" by (simp add: demo_mods_def)
  have t: "ticked mixed_events (MemMod (mem_run [mem_ok_reading 1 300]))
      = MemMod (mem_run [mem_ok_reading 1 300, mem_ok_reading 2 350])"
    by (simp add: ticked_def mixed_ticks(1) mem_run_def)
  have "filter (\<lambda>m. \<not> is_cpu m) (app_mods (app_of (fold (service_step ?st) mixed_events s0)))
      = [MemMod (mem_run [mem_ok_reading 1 300, mem_ok_reading 2 350])]"
    unfolding conjunct1 [OF I] start m list.map t ..
  then show ?thesis using c unfolding mixed_ticks(2) s0_def by blast
qed

text \<open>
  C2. What the sampler measured is what the client reads: in a running service, a GET of
  \<open>/metrics/memory\<close> that its bucket admits passes every middleware and is answered 200 with the
  document of the sample of the latest tick of the memory module, or of the reading taken at
  start-up when there was none, whatever else happened in between.
\<close>

theorem memory_reaches_client:
  assumes "Load file = Inr cfg" "buildModules cfg hs h = (Inr (ms, h1), tr)" "stdlib_answers other"
    and se: "se = new_server_env fmt start clk lc v boot hn cfg ms"
    and st: "st = running_site api cfg se other ms"
    and s: "s = fold (service_step st) evs (service_start ms h1 [])"
    and e: "e = last (mem_first hs # mem_ticks evs)" "encodable (json_of_mem_sample (mem_sample_of e))"
    and on: "Memory_Enabled (Modules cfg)"
    and get: "rmethod (req a) = ''GET''" "rpath (req a) = ''/metrics/memory''"
    and admitted: "\<not> denied api (rate_of (RateLimitCfg cfg)) (req a)
       \<lparr>server_state = app_of s, resp = response_writer (req a), log_out = log_of s, env = readings a\<rparr>"
  shows "\<exists>c1. serve_arrival st a s = (Returned, c1) \<and> wire_status (resp c1) = Some 200
    \<and> wire_body (resp c1) = [Doc (json_of_mem_sample (mem_sample_of e))]"
proof -
  obtain b where b: "NewBase mem_zero_sample (interval cfg) (capacity cfg) = Inr b"
    and s': "app_ok (map mod_Name (routed st)) (app_of s)" "distinct (map mod_Name (routed st))"
    and x: "MemMod (fold mem_collectOnce (mem_first hs # mem_ticks evs)
        \<lparr>mem_base = Some b, mem_profile_info = captureProfile (mem_for_profile hs)\<rparr>) \<in> set (app_mods (app_of s))"
    by (rule memory_in_service [OF assms(1-6) on])
  have latest: "mem_Latest (fold mem_collectOnce (mem_first hs # mem_ticks evs)
        \<lparr>mem_base = Some b, mem_profile_info = captureProfile (mem_for_profile hs)\<rparr>) = Ptr (Some (mem_sample_of e))"
    using NewBase_inv [OF b] mem.latest_after [of "\<lparr>mem_base = Some b, mem_profile_info = captureProfile (mem_for_profile hs)\<rparr>" b "mem_first hs # mem_ticks evs"]
    by (simp add: mem_samples_map e(1) last_map)
  have adm: "\<not> denied (api_of st) (rate_of (RateLimitCfg (cfg_of st))) (req a)
       \<lparr>server_state = app_of s, resp = response_writer (req a), log_out = log_of s, env = readings a\<rparr>"
    using admitted by (simp add: st running_site_def)
  have path: "rpath (req a) = ''/metrics/'' @ mod_Name (MemMod (fold mem_collectOnce (mem_first hs # mem_ticks evs)
        \<lparr>mem_base = Some b, mem_profile_info = captureProfile (mem_for_profile hs)\<rparr>))"
    by (simp add: get(2))
  obtain c1 w where "serve_arrival st a s = (Returned, c1)" "unsent w" "\<not> head_only (wire w)"
    "wire (resp c1) = wire (mem_serve_latest (fold mem_collectOnce (mem_first hs # mem_ticks evs)
        \<lparr>mem_base = Some b, mem_profile_info = captureProfile (mem_for_profile hs)\<rparr>) w)"
    using latest_served [OF s' x get(1) path adm] by auto
  then show ?thesis
    using mem_serve_latest_wire [OF latest _ e(2)] by (auto simp: wire_status_def wire_body_def written_def)
qed

lemma after_memory_tick:
  "byIP (app_of (fold (service_step st) [Sampling (MemTick e)] (service_start ms h ls))) = Map.empty"
  "limiters (app_of (fold (service_step st) [Sampling (MemTick e)] (service_start ms h ls))) = []"
  by (simp_all add: service_start_def split: prod.split)

lemma first_request_admitted:
  assumes "byIP (server_state c) = Map.empty" "limiters (server_state c) = []" "0 < Burst cfg"
  shows "\<not> denied toy_api cfg r c"
  using assms by (simp add: denied_def limiterFor_def toy_api_def Let_def with_defaults_def)

theorem memory_reaches_client_witness:
  "\<exists>ms h1 tr c1. buildModules (applyDefaults gpu_file) demo_host run3_heap = (Inr (ms, h1), tr)
    \<and> serve_arrival (demo_site ms) (arrives ''/metrics/memory'')
        (fold (service_step (demo_site ms)) [Sampling (MemTick (mem_ok_reading 2 350))] (service_start ms h1 [])) = (Returned, c1)
    \<and> wire_status (resp c1) = Some 200 \<and> wire_body (resp c1) = [Doc (json_of_mem_sample (mem_sample_of (mem_ok_reading 2 350)))]"
proof -
  let ?hs = "demo_host" and ?cfg = "applyDefaults gpu_file"
  obtain ms h1 tr where b: "buildModules ?cfg ?hs run3_heap = (Inr (ms, h1), tr)" by (rule demo_built)
  let ?evs = "[Sampling (MemTick (mem_ok_reading 2 350))]" and ?a = "arrives ''/metrics/memory''"
  define s where "s = fold (service_step (demo_site ms)) ?evs (service_start ms h1 [])"
  have e: "mem_ok_reading 2 350 = last (mem_first ?hs # mem_ticks ?evs)"
    "encodable (json_of_mem_sample (mem_sample_of (mem_ok_reading 2 350)))"
    by (simp_all add: mem_sample_of_def mem_ok_reading_def vm_of_def json_of_mem_sample_def omit_string_def omit_int_def)
  have on: "Memory_Enabled (Modules ?cfg)" by (simp add: gpu_file_def applyDefaults_def)
  have get: "rmethod (req ?a) = ''GET''" "rpath (req ?a) = ''/metrics/memory''"
    by (simp_all add: arrives_def get_request_def)
  have burst: "0 < Burst (rate_of (RateLimitCfg ?cfg))"
    by (simp add: gpu_file_def demo_file_def demo_config_def applyDefaults_def default_defs Let_def)
  have adm: "\<not> denied toy_api (rate_of (RateLimitCfg ?cfg)) (req ?a)
       \<lparr>server_state = app_of s, resp = response_writer (req ?a), log_out = log_of s, env = readings ?a\<rparr>"
    using burst after_memory_tick [of "demo_site ms" "mem_ok_reading 2 350" ms h1 "[]"]
    by (intro first_request_admitted) (simp_all add: s_def)
  have "\<exists>c1. serve_arrival (demo_site ms) ?a s = (Returned, c1) \<and> wire_status (resp c1) = Some 200
      \<and> wire_body (resp c1) = [Doc (json_of_mem_sample (mem_sample_of (mem_ok_reading 2 350)))]"
    by (rule memory_reaches_client [OF gpu_file_loads b not_found_answers HOL.refl demo_site_def s_def e on get adm])
  then show ?thesis using b unfolding s_def by blast
qed

text \<open>
  C39. When the background goroutines end. Suppose the context is cancelled before the \<open>c\<close>-th \<open>select\<close> of a
  loop. \<open>select\<close> picks at random between the context and a waiting tick, so the loop need not stop there;
  but it has stopped by the first \<open>select\<close> from then on that finds no tick waiting, having done the
  work of every tick before the cancellation and of at most those picked after it, each once and in
  order. It returns exactly when the context is picked at some time: a loop that finds a tick
  waiting at every \<open>select\<close> and always picks it never returns. This holds for the sampling loops and
  for the limiter's clean-up loop.
\<close>

theorem background_loops_end:
  assumes "select_obeys (\<lambda>k. ch k = Cancelled) waiting c"
    and "select_obeys (\<lambda>k. cl k = CleanupDone) waiting' c'" "\<forall>k. cl k = CleanupDone \<or> cl k = CleanupTick (ts k)"
  shows "((\<exists>m'. RunLoop collect ch m = Some m') \<longleftrightarrow> (\<exists>k. ch k = Cancelled))
    \<and> (\<forall>k \<ge> c. \<not> waiting k \<longrightarrow> (\<exists>n. c \<le> n \<and> n \<le> k \<and> RunLoop collect ch m = Some (fold collect [0..<n] m)))
    \<and> ((\<exists>rl'. cleanupLoop idle cl rl = Some rl') \<longleftrightarrow> (\<exists>k. cl k = CleanupDone))
    \<and> (\<forall>k \<ge> c'. \<not> waiting' k \<longrightarrow> (\<exists>n. c' \<le> n \<and> n \<le> k
         \<and> cleanupLoop idle cl rl = Some (fold (\<lambda>t. cleanup t idle) (map ts [0..<n]) rl)))"
proof (intro conjI allI impI)
  show "(\<exists>m'. RunLoop collect ch m = Some m') \<longleftrightarrow> (\<exists>k. ch k = Cancelled)"
    "(\<exists>rl'. cleanupLoop idle cl rl = Some rl') \<longleftrightarrow> (\<exists>k. cl k = CleanupDone)"
    by (simp_all add: RunLoop_def cleanupLoop_def until_done_iff)
  show "\<exists>n. c \<le> n \<and> n \<le> k \<and> RunLoop collect ch m = Some (fold collect [0..<n] m)" if late: "c \<le> k" "\<not> waiting k" for k
  proof -
    obtain n where n: "c \<le> n" "n \<le> k" "\<forall>i < n. ch i \<noteq> Cancelled"
      "RunLoop collect ch m = Some (work_of (\<lambda>k. on_tick (collect k) (ch k)) 0 n m)"
      using until_done_ends [of "\<lambda>k. on_tick (collect k) (ch k)" waiting c k m] assms(1) late by (auto simp: RunLoop_def)
    then have "\<forall>i < n. ch i = Tick" by (metis loop_event.exhaust)
    from ticks_work [OF this, of collect m] show ?thesis using n by auto
  qed
  show "\<exists>n. c' \<le> n \<and> n \<le> k \<and> cleanupLoop idle cl rl = Some (fold (\<lambda>t. cleanup t idle) (map ts [0..<n]) rl)"
    if late: "c' \<le> k" "\<not> waiting' k" for k
  proof -
    obtain n where n: "c' \<le> n" "n \<le> k" "\<forall>i < n. cl i \<noteq> CleanupDone"
      "cleanupLoop idle cl rl = Some (work_of (\<lambda>k. on_cleanup_tick idle (cl k)) 0 n rl)"
      using until_done_ends [of "\<lambda>k. on_cleanup_tick idle (cl k)" waiting' c' k rl] assms(2) late by (auto simp: cleanupLoop_def)
    then have "\<forall>i < n. cl i = CleanupTick (ts i)" using assms(3) by blast
    from cleanups_work [OF this, of idle rl] show ?thesis using n by auto
  qed
qed

text \<open>
  A memory module's loop that is cancelled before its second \<open>select\<close>, finds a tick waiting once more and
  takes it; the clean-up loop is cancelled at once.
\<close>

theorem background_loops_end_witness:
  "\<exists>n \<in> {1, 2}. RunLoop (\<lambda>_. mem_collectOnce (mem_ok_reading 2 350)) (\<lambda>k. if k < 2 then Tick else Cancelled) mem_empty
      = Some (fold (\<lambda>_. mem_collectOnce (mem_ok_reading 2 350)) [0..<n] mem_empty)
     \<and> cleanupLoop second (\<lambda>_. CleanupDone) new_table = Some (new_table :: nat rate_limiter)"
proof -
  have "select_obeys (\<lambda>k. (if k < 2 then Tick else Cancelled) = Cancelled) (\<lambda>k. k < 2) 1"
    "select_obeys (\<lambda>_ :: nat. CleanupDone = CleanupDone) (\<lambda>_. False) 0" "\<forall>k :: nat. CleanupDone = CleanupDone \<or> CleanupDone = CleanupTick 0"
    by (auto simp: select_obeys_def)
  note B = background_loops_end [OF this, of "\<lambda>_. mem_collectOnce (mem_ok_reading 2 350)" mem_empty second "new_table :: nat rate_limiter"]
  from B obtain n where "1 \<le> n" "n \<le> 2"
    "RunLoop (\<lambda>_. mem_collectOnce (mem_ok_reading 2 350))
      (\<lambda>k. if k < 2 then Tick else Cancelled) mem_empty = Some (fold (\<lambda>_. mem_collectOnce (mem_ok_reading 2 350)) [0..<n] mem_empty)"
    by (metis (no_types, lifting) less_irrefl one_le_numeral)
  moreover have "cleanupLoop second (\<lambda>_. CleanupDone) new_table = Some (new_table :: nat rate_limiter)"
    using conjunct2 [OF conjunct2 [OF conjunct2 [OF B]], rule_format, of 0] by simp
  moreover have "n \<in> {1, 2}" using calculation(1,2) by auto
  ultimately show ?thesis by blast
qed

end
