(* ===== verification/Run.thy ===== *)
theory Run
  imports Service
begin

text \<open>
  \<open>run\<close> of \<^verbatim>\<open>cmd/monitor/main.go\<close>, from the lock to the exit code, with the running service between the
  start of the listener and the signal. What the outside world does (the flags, the configuration
  file, the host, the requests and ticks, how listening and serving end) is a record; what the
  program does is a trace of events, next to the file system that holds the lock.
\<close>

section \<open>The listener\<close>

definition new_http_server :: "config \<Rightarrow> http_server" where
  "new_http_server cfg =
     \<lparr>ServerAddr = Addr (Host (ServerCfg cfg)) (Port (ServerCfg cfg)),
      ReadHeaderTimeout = 5 * second, ReadTimeout = 10 * second, WriteTimeout = 10 * second,
      IdleTimeout = 60 * second\<rparr>"

datatype serve_return = ReturnedNil | ErrServerClosed | ListenError string

datatype goroutine = NotScheduled | Listening | ListenReturned serve_return
  \<comment> \<open>how far the listening goroutine has come when \<open>select\<close> takes a case\<close>

definition info_record :: "string \<Rightarrow> (string \<times> run_error attr) list \<Rightarrow> event" where
  "info_record msg attrs = Logs \<lparr>rlevel = LevelInfo, rmsg = msg, rattrs = attrs\<rparr>"

definition error_record :: "string \<Rightarrow> (string \<times> run_error attr) list \<Rightarrow> event" where
  "error_record msg attrs = Logs \<lparr>rlevel = LevelError, rmsg = msg, rattrs = attrs\<rparr>"

definition serve_goroutine :: "http_server \<Rightarrow> goroutine \<Rightarrow> event list \<times> string option" where
  \<comment> \<open>what it logs, and what it sends on \<open>serverErr\<close>\<close>
  "serve_goroutine srv g =
     (let listening = [info_record ''http listening'' [(''addr'', AStr (ServerAddr srv))]]
      in case g of
           NotScheduled \<Rightarrow> ([], None)
         | Listening \<Rightarrow> (listening, None)
         | ListenReturned (ListenError e) \<Rightarrow> (listening, Some e)
         | ListenReturned ErrServerClosed \<Rightarrow> (listening, None)
         | ListenReturned ReturnedNil \<Rightarrow> (listening, None))"

datatype wakeup = SignalReceived | ServerFailed string

definition select_end :: "bool \<Rightarrow> string option \<Rightarrow> bool \<Rightarrow> wakeup option" where
  \<comment> \<open>whether \<open>rootCtx\<close> is done, what \<open>serverErr\<close> holds, and the choice when both are ready; \<open>None\<close> blocks\<close>
  "select_end done failure choose_done =
     (case failure of
        None \<Rightarrow> if done then Some SignalReceived else None
      | Some e \<Rightarrow> if done \<and> choose_done then Some SignalReceived else Some (ServerFailed e))"

section \<open>run\<close>

record flags =
  configPath :: string
  pidFile :: string

record 'l world =
  os_state :: os
  our_pid :: int
  config_file :: "string + decoded"
  host_state :: host
  first_heap :: heap
  \<comment> \<open>the libraries, and what the handlers read from the process\<close>
  rate_lib :: "'l limiter_api"
  std_answers :: "'l app handler"
  rfc_time :: "instant \<Rightarrow> string"
  process_start :: instant
  wall_clock :: "nat \<Rightarrow> instant"
  local_zone :: local_clock
  runtime_version :: string
  boot_time :: "string + u64"
  os_hostname :: string
  \<comment> \<open>what happens while \<open>run\<close> waits, and while the server drains\<close>
  happens :: "service_event list"
  draining :: "service_event list"
  signalled :: bool
  goroutine_at :: goroutine
  choose_signal :: bool
  drain_error :: "string option"

datatype exit = ExitCode int | Crashed go_panic | Blocked
  \<comment> \<open>\<open>Blocked\<close>: still waiting in \<open>select\<close>\<close>

definition site_in :: "'l world \<Rightarrow> config \<Rightarrow> app_module list \<Rightarrow> 'l site" where
  "site_in w cfg ms =
     running_site (rate_lib w) cfg
       (new_server_env (rfc_time w) (process_start w) (wall_clock w) (local_zone w) (runtime_version w)
         (boot_time w) (os_hostname w) cfg ms)
       (std_answers w) ms"

definition drained_state :: "'l world \<Rightarrow> 'l site \<Rightarrow> 'l service \<Rightarrow> 'l service" where
  \<comment> \<open>the service after the server's \<open>Shutdown\<close>; its log starts afresh here\<close>
  "drained_state w st s = fold (service_step st) (draining w) (s\<lparr>log_of := []\<rparr>)"

definition run_stopping :: "'l world \<Rightarrow> 'l site \<Rightarrow> 'l service \<Rightarrow> event list" where
  \<comment> \<open>after the signal: drain the server, shut the modules down\<close>
  "run_stopping w st s =
     (let s1 = drained_state w st s
      in info_record ''shutdown signal received'' [] # Drain (10 * second) # map RequestLog (log_of s1)
         @ (case drain_error w of
              None \<Rightarrow> []
            | Some e \<Rightarrow> [error_record ''http shutdown failed'' [(''err'', AErr (DrainFailed e))]])
         @ concat (map shutdown_step (app_mods (app_of s1)))
         @ [info_record ''bye'' []])"

definition waiting_state :: "'l world \<Rightarrow> config \<Rightarrow> app_module list \<Rightarrow> heap \<Rightarrow> 'l service" where
  \<comment> \<open>the service when \<open>select\<close> takes a case, or by now\<close>
  "waiting_state w cfg ms h = fold (service_step (site_in w cfg ms)) (happens w) (service_start ms h [])"

definition run_serving :: "config \<Rightarrow> 'l world \<Rightarrow> app_module list \<Rightarrow> heap \<Rightarrow> exit \<times> event list" where
  \<comment> \<open>from the mux on\<close>
  "run_serving cfg w ms h =
     (let srv = new_http_server cfg;
          (listening, failure) = serve_goroutine srv (goroutine_at w);
          s = waiting_state w cfg ms h;
          tr = Serve srv # listening @ map RequestLog (log_of s)
      in case select_end (signalled w) failure (choose_signal w) of
           None \<Rightarrow> (Blocked, tr)
         | Some (ServerFailed e) \<Rightarrow>
           (ExitCode 1, tr @ [error_record ''http server failed'' [(''err'', AErr (ServeFailed e))]])
         | Some SignalReceived \<Rightarrow> (ExitCode 0, tr @ run_stopping w (site_in w cfg ms) s))"

definition run_configured :: "config \<Rightarrow> 'l world \<Rightarrow> exit \<times> event list" where
  \<comment> \<open>from \<open>buildModules\<close> on\<close>
  "run_configured cfg w =
     (case buildModules cfg (host_state w) (first_heap w) of
        (Inl (Crash p), tr) \<Rightarrow> (Crashed p, tr)
      | (Inl (InitError n e), tr) \<Rightarrow>
        (ExitCode 1, tr @ [error_record ''module setup failed'' [(''err'', AErr (InitFailed n e))]])
      | (Inl (StartError e), tr) \<Rightarrow> (ExitCode 1, tr @ [error_record ''module setup failed'' [(''err'', AErr e)]])
      | (Inr (ms, h), tr) \<Rightarrow> let (ex, tr1) = run_serving cfg w ms h in (ex, tr @ tr1))"

definition config_loaded :: "flags \<Rightarrow> config \<Rightarrow> event" where
  "config_loaded fl cfg =
     info_record ''config loaded''
       [(''path'', AStr (configPath fl)), (''host'', AStr (Host (ServerCfg cfg))), (''port'', AInt (Port (ServerCfg cfg))),
        (''interval'', ADuration (interval cfg)), (''history_capacity'', AInt (capacity cfg))]"

definition proxy_warning_text :: string where
  "proxy_warning_text = ''rate_limit.trust_proxy_headers=true: ensure the service is behind a proxy that strips incoming X-Forwarded-For; otherwise rate limits can be bypassed by client-controlled headers''"

definition proxy_warning :: "config \<Rightarrow> event list" where
  "proxy_warning cfg =
     (if rsEnabled (RateLimitCfg cfg) \<and> rsTrustProxyHeaders (RateLimitCfg cfg)
      then [Logs \<lparr>rlevel = LevelWarn, rmsg = proxy_warning_text, rattrs = []\<rparr>] else [])"

definition announce :: "flags \<Rightarrow> config \<Rightarrow> event list" where
  "announce fl cfg =
     LoggerInstalled (snd (Setup (Level (Logging cfg)) (Format (Logging cfg)))) # config_loaded fl cfg # proxy_warning cfg"

definition run_locked :: "flags \<Rightarrow> 'l world \<Rightarrow> exit \<times> event list" where
  \<comment> \<open>from the check of the flag on, the lock held\<close>
  "run_locked fl w =
     (if configPath fl = '''' then (ExitCode 2, [error_record ''-config is required'' []])
      else case Load (config_file w) of
             Inl e \<Rightarrow> (ExitCode 1, [error_record ''load config failed''
                        [(''err'', AErr (LoadFailed e)), (''path'', AStr (configPath fl))]])
           | Inr cfg \<Rightarrow>
             let (ex, tr) = run_configured cfg w
             in (ex, announce fl cfg @ tr))"

definition run :: "flags \<Rightarrow> 'l world \<Rightarrow> exit \<times> event list \<times> os" where
  \<comment> \<open>the deferred \<open>Release\<close> runs on every way out, a panic included\<close>
  "run fl w =
     (case Acquire (our_pid w) (pidFile fl) (os_state w) of
        (Inl e, s1) \<Rightarrow> (ExitCode 1, [Refused e], s1)
      | (Inr l, s1) \<Rightarrow>
        let (ex, tr) = run_locked fl w
        in if ex = Blocked then (ex, tr, s1)
           else let (ok, l1, s2) = Release (Some l) s1 in (ex, tr @ [LockReleased], s2))"

section \<open>What is written of the log\<close>

datatype line = ProgramLine "run_error log_record" | HandlerLine log_line

primrec line_level :: "line \<Rightarrow> level" where
  "line_level (ProgramLine r) = rlevel r"
| "line_level (HandlerLine l) = (case l of AccessLine m p s b d i a \<Rightarrow> LevelInfo | PanicLine e p m \<Rightarrow> LevelError)"

primrec line_in :: "event \<Rightarrow> line option" where
  "line_in (Refused e) = None"
| "line_in (LoggerInstalled l) = None"
| "line_in (Logs r) = Some (ProgramLine r)"
| "line_in (Constructed n) = None"
| "line_in (Started n) = None"
| "line_in (Serve srv) = None"
| "line_in (RequestLog l) = Some (HandlerLine l)"
| "line_in (Drain d) = None"
| "line_in (ShutDown n) = None"
| "line_in CollectorShutdown = None"
| "line_in LockReleased = None"

fun written :: "level \<Rightarrow> event list \<Rightarrow> line list" where
  \<comment> \<open>the lines that pass the level of the logger in force when they are logged\<close>
  "written lv [] = []"
| "written lv (LoggerInstalled l # tr) = written (log_level l) tr"
| "written lv (ev # tr) =
     (case line_in ev of
        None \<Rightarrow> written lv tr
      | Some l \<Rightarrow> if written_at lv (line_level l) then l # written lv tr else written lv tr)"

section \<open>The ways through run\<close>

definition wakeup_of :: "'l world \<Rightarrow> config \<Rightarrow> wakeup option" where
  "wakeup_of w cfg =
     select_end (signalled w) (snd (serve_goroutine (new_http_server cfg) (goroutine_at w))) (choose_signal w)"

definition serving_events :: "'l world \<Rightarrow> config \<Rightarrow> app_module list \<Rightarrow> heap \<Rightarrow> event list" where
  "serving_events w cfg ms h =
     Serve (new_http_server cfg) # fst (serve_goroutine (new_http_server cfg) (goroutine_at w))
       @ map RequestLog (log_of (waiting_state w cfg ms h))"

lemma run_serving_eq:
  "run_serving cfg w ms h =
     (case wakeup_of w cfg of
        None \<Rightarrow> (Blocked, serving_events w cfg ms h)
      | Some (ServerFailed e) \<Rightarrow>
        (ExitCode 1, serving_events w cfg ms h @ [error_record ''http server failed'' [(''err'', AErr (ServeFailed e))]])
      | Some SignalReceived \<Rightarrow>
        (ExitCode 0, serving_events w cfg ms h @ run_stopping w (site_in w cfg ms) (waiting_state w cfg ms h)))"
  by (simp add: run_serving_def wakeup_of_def serving_events_def Let_def split: prod.split option.split wakeup.split)

abbreviation built_in :: "'l world \<Rightarrow> config \<Rightarrow> (setup_error + mods_heap) \<times> event list" where
  "built_in w cfg \<equiv> buildModules cfg (host_state w) (first_heap w)"

lemma run_locked_cases:
  fixes w :: "'l world"
  obtains
    (no_config) "configPath fl = ''''" "run_locked fl w = (ExitCode 2, [error_record ''-config is required'' []])"
  | (bad_config) e where "configPath fl \<noteq> ''''" "Load (config_file w) = Inl e"
      "run_locked fl w = (ExitCode 1, [error_record ''load config failed''
         [(''err'', AErr (LoadFailed e)), (''path'', AStr (configPath fl))]])"
  | (bad_setup) cfg err tr where "configPath fl \<noteq> ''''" "Load (config_file w) = Inr cfg"
      "built_in w cfg = (Inl (InitError ''storage'' err), tr)"
      "run_locked fl w = (ExitCode 1, announce fl cfg @ tr
         @ [error_record ''module setup failed'' [(''err'', AErr (InitFailed ''storage'' err))]])"
  | (blocked) cfg ms h tr where "configPath fl \<noteq> ''''" "Load (config_file w) = Inr cfg"
      "built_in w cfg = (Inr (ms, h), tr)" "wakeup_of w cfg = None"
      "run_locked fl w = (Blocked, announce fl cfg @ tr @ serving_events w cfg ms h)"
  | (failed) cfg ms h tr e where "configPath fl \<noteq> ''''" "Load (config_file w) = Inr cfg"
      "built_in w cfg = (Inr (ms, h), tr)" "wakeup_of w cfg = Some (ServerFailed e)"
      "run_locked fl w = (ExitCode 1, announce fl cfg @ tr @ serving_events w cfg ms h
         @ [error_record ''http server failed'' [(''err'', AErr (ServeFailed e))]])"
  | (stopped) cfg ms h tr where "configPath fl \<noteq> ''''" "Load (config_file w) = Inr cfg"
      "built_in w cfg = (Inr (ms, h), tr)" "wakeup_of w cfg = Some SignalReceived"
      "run_locked fl w = (ExitCode 0, announce fl cfg @ tr @ serving_events w cfg ms h
         @ run_stopping w (site_in w cfg ms) (waiting_state w cfg ms h))"
proof (cases "configPath fl = ''''")
  case True
  then show thesis by (intro no_config) (simp_all add: run_locked_def)
next
  case path: False
  show thesis
  proof (cases "Load (config_file w)")
    case (Inl e)
    then show thesis using path by (intro bad_config) (simp_all add: run_locked_def)
  next
    case load: (Inr cfg)
    obtain res tr where b: "built_in w cfg = (res, tr)" by (cases "built_in w cfg")
    note M = modules_built_facts [OF load, of "host_state w" "first_heap w", unfolded b]
    show thesis
    proof (cases res)
      case (Inl e)
      then obtain err where "e = InitError ''storage'' err" using M by auto
      then show thesis using path load b Inl by (intro bad_setup) (simp_all add: run_locked_def run_configured_def)
    next
      case (Inr st)
      obtain ms h where st: "built_in w cfg = (Inr (ms, h), tr)" using Inr b by (cases st) simp
      have r: "run_locked fl w = (let (ex, tr1) = run_serving cfg w ms h in (ex, announce fl cfg @ tr @ tr1))"
        using path load st by (simp add: run_locked_def run_configured_def split: prod.split)
      consider "wakeup_of w cfg = None" | "wakeup_of w cfg = Some SignalReceived" | e where "wakeup_of w cfg = Some (ServerFailed e)"
        by (cases "wakeup_of w cfg") (auto intro: wakeup.exhaust)
      then show thesis
      proof cases
        case 1 then show thesis using path load st r by (intro blocked) (simp_all add: run_serving_eq)
      next
        case 2 then show thesis using path load st r by (intro stopped) (simp_all add: run_serving_eq)
      next
        case 3 then show thesis using path load st r by (intro failed) (simp_all add: run_serving_eq)
      qed
    qed
  qed
qed

lemma run_cases:
  obtains
    (refused) e where "fst (Acquire (our_pid w) (pidFile fl) (os_state w)) = Inl e" "run fl w = (ExitCode 1, [Refused e], os_state w)"
  | (locked) l s1 ex tr where "Acquire (our_pid w) (pidFile fl) (os_state w) = (Inr l, s1)"
      "l = \<lparr>path = pidFile fl\<rparr>" "s1 = (os_state w)\<lparr>files := (files (os_state w))(pidFile fl \<mapsto> pid_text (our_pid w))\<rparr>"
      "run_locked fl w = (ex, tr)"
      "run fl w = (if ex = Blocked then (ex, tr, s1) else (ex, tr @ [LockReleased], snd (snd (Release (Some l) s1))))"
proof -
  let ?p = "pidFile fl" and ?s = "os_state w"
  obtain res s1 where a: "Acquire (our_pid w) ?p ?s = (res, s1)" by (cases "Acquire (our_pid w) ?p ?s")
  obtain ex tr where r: "run_locked fl w = (ex, tr)" by (cases "run_locked fl w")
  show thesis
  proof (cases res)
    case (Inl e)
    have "s1 = ?s" using a Inl by (auto simp: Acquire_def WriteFile_def Let_def split: option.splits if_splits)
    then show thesis using a Inl by (intro refused) (simp_all add: run_def)
  next
    case (Inr l)
    have "s1 = ?s\<lparr>files := (files ?s)(?p \<mapsto> pid_text (our_pid w))\<rparr>" "l = \<lparr>path = ?p\<rparr>"
      using a Inr by (auto simp: Acquire_def WriteFile_def Let_def split: option.splits if_splits)
    moreover have "run fl w = (if ex = Blocked then (ex, tr, s1)
        else (ex, tr @ [LockReleased], snd (snd (Release (Some l) s1))))"
      using a Inr r by (cases "ex = Blocked") (simp_all add: run_def split: prod.split)
    ultimately show thesis using a Inr r by (intro locked) simp_all
  qed
qed

section \<open>What the events of a run are\<close>

lemma announce_events [simp]:
  "constructed_in (announce fl cfg) = []" "shut_down_in (announce fl cfg) = []"
  by (simp_all add: announce_def config_loaded_def proxy_warning_def info_record_def)

lemma request_log_events [simp]:
  "constructed_in (map RequestLog ls) = []" "shut_down_in (map RequestLog ls) = []"
  by (induction ls) simp_all

lemma serve_goroutine_events [simp]:
  "constructed_in (fst (serve_goroutine srv g)) = []" "shut_down_in (fst (serve_goroutine srv g)) = []"
  by (simp_all add: serve_goroutine_def Let_def info_record_def split: goroutine.split serve_return.split)

lemma serving_in_events [simp]:
  "constructed_in (serving_events w cfg ms h) = []" "shut_down_in (serving_events w cfg ms h) = []"
  by (simp_all add: serving_events_def)

lemma shutdown_loop_events [simp]:
  "constructed_in (concat (map shutdown_step ms)) = []" "shut_down_in (concat (map shutdown_step ms)) = map mod_Name ms"
proof -
  have r: "constructed_in (replicate k CollectorShutdown) = []" "shut_down_in (replicate k CollectorShutdown) = []" for k
    by (induction k) simp_all
  have "constructed_in (shutdown_step m) = [] \<and> shut_down_in (shutdown_step m) = [mod_Name m]" for m
    by (cases m) (simp_all add: shutdown_step_def shutdown_defs r split: prod.split)
  then show "constructed_in (concat (map shutdown_step ms)) = []" "shut_down_in (concat (map shutdown_step ms)) = map mod_Name ms"
    by (induction ms) simp_all
qed

lemma stopping_in_events [simp]:
  "constructed_in (run_stopping w st s) = []"
  "shut_down_in (run_stopping w st s) = map mod_Name (app_mods (app_of (drained_state w st s)))"
  by (simp_all add: run_stopping_def info_record_def error_record_def Let_def split: option.split)

section \<open>The service inside a run\<close>

lemma waiting_state_ok:
  assumes "Load (config_file w) = Inr cfg" "built_in w cfg = (Inr (ms, h), tr)" "stdlib_answers (std_answers w)"
  shows "site_ok (site_in w cfg ms)" "routed (site_in w cfg ms) = ms"
    "app_ok (configured cfg) (app_of (waiting_state w cfg ms h))"
    "map line_of (log_of (waiting_state w cfg ms h))
      = map (\<lambda>a. Some (rmethod (req a), logPath (rpath (req a)))) (arrivals_in (happens w))"
proof -
  show site: "site_ok (site_in w cfg ms)" "routed (site_in w cfg ms) = ms"
    using running_site_ok [OF assms(3) HOL.refl] by (simp_all add: site_in_def)
  note start = service_start_ok [OF assms(1,2)]
  have "app_ok (map mod_Name (routed (site_in w cfg ms))) (app_of (service_start ms h []))"
    unfolding site(2) start(2) by (rule start(1))
  note run = service_run_ok [OF site(1) this, of "happens w"]
  then show "app_ok (configured cfg) (app_of (waiting_state w cfg ms h))"
    unfolding waiting_state_def site(2) start(2) by blast
  show "map line_of (log_of (waiting_state w cfg ms h))
      = map (\<lambda>a. Some (rmethod (req a), logPath (rpath (req a)))) (arrivals_in (happens w))"
    using run by (simp add: waiting_state_def service_start_def)
qed

lemma drained_state_ok:
  assumes "site_ok st" "app_ok (map mod_Name (routed st)) (app_of s)"
  shows "app_ok (map mod_Name (routed st)) (app_of (drained_state w st s))"
    "map line_of (log_of (drained_state w st s))
      = map (\<lambda>a. Some (rmethod (req a), logPath (rpath (req a)))) (arrivals_in (draining w))"
proof -
  have "app_ok (map mod_Name (routed st)) (app_of (s\<lparr>log_of := []\<rparr>))" using assms(2) by simp
  note run = service_run_ok [OF assms(1) this, of "draining w"]
  show "app_ok (map mod_Name (routed st)) (app_of (drained_state w st s))"
    using run unfolding drained_state_def by blast
  show "map line_of (log_of (drained_state w st s))
      = map (\<lambda>a. Some (rmethod (req a), logPath (rpath (req a)))) (arrivals_in (draining w))"
    using run by (simp add: drained_state_def)
qed

lemma stopping_shuts_down:
  assumes "Load (config_file w) = Inr cfg" "built_in w cfg = (Inr (ms, h), tr)" "stdlib_answers (std_answers w)"
  shows "shut_down_in (run_stopping w (site_in w cfg ms) (waiting_state w cfg ms h)) = configured cfg"
proof -
  note W = waiting_state_ok [OF assms]
  have names: "map mod_Name ms = configured cfg" using service_start_ok(2) [OF assms(1,2)] .
  have "app_ok (map mod_Name (routed (site_in w cfg ms))) (app_of (waiting_state w cfg ms h))"
    unfolding W(2) names by (rule W(3))
  from drained_state_ok(1) [OF W(1) this, of w] show ?thesis unfolding W(2) names by (simp add: app_ok_def)
qed

section \<open>The life cycle\<close>

definition starts :: "'l world \<Rightarrow> config \<Rightarrow> bool" where
  \<comment> \<open>the configuration is loaded and its modules are built\<close>
  "starts w cfg \<longleftrightarrow> Load (config_file w) = Inr cfg \<and> (\<exists>st. fst (built_in w cfg) = Inr st)"

lemma run_locked_outcome:
  assumes "run_locked fl w = (ex, tr)" "stdlib_answers (std_answers w)"
  shows "ex \<in> {ExitCode 0, ExitCode 1, ExitCode 2, Blocked}
    \<and> (ex = ExitCode 0 \<longleftrightarrow> configPath fl \<noteq> '''' \<and> (\<exists>cfg. starts w cfg \<and> wakeup_of w cfg = Some SignalReceived))
    \<and> (ex = Blocked \<longleftrightarrow> configPath fl \<noteq> '''' \<and> (\<exists>cfg. starts w cfg \<and> wakeup_of w cfg = None))
    \<and> (ex = ExitCode 2 \<longleftrightarrow> configPath fl = '''')
    \<and> (ex = ExitCode 0 \<longrightarrow> shut_down_in tr = constructed_in tr)
    \<and> (ex \<noteq> ExitCode 0 \<longrightarrow> shut_down_in tr = [])"
proof (cases rule: run_locked_cases [of fl w])
  case (bad_setup cfg err tr0)
  then show ?thesis using assms(1) modules_built_facts [OF bad_setup(2), of "host_state w" "first_heap w"]
    by (auto simp: starts_def error_record_def)
next
  case (blocked cfg ms h tr0)
  then show ?thesis using assms(1) modules_built_facts [OF blocked(2), of "host_state w" "first_heap w"]
    by (auto simp: starts_def)
next
  case (failed cfg ms h tr0 e)
  then show ?thesis using assms(1) modules_built_facts [OF failed(2), of "host_state w" "first_heap w"]
    by (auto simp: starts_def error_record_def)
next
  case (stopped cfg ms h tr0)
  have "shut_down_in tr0 = []" "constructed_in tr0 = configured cfg"
    using modules_built_facts [OF stopped(2), of "host_state w" "first_heap w"] unfolding stopped(3) by simp_all
  moreover have "tr = announce fl cfg @ tr0 @ serving_events w cfg ms h @ run_stopping w (site_in w cfg ms) (waiting_state w cfg ms h)"
    "ex = ExitCode 0" using assms(1) stopped(5) by simp_all
  ultimately have tr: "shut_down_in tr = constructed_in tr"
    using stopping_shuts_down [OF stopped(2,3) assms(2)] by (simp del: stopping_in_events(2))
  show ?thesis using stopped(1-4) \<open>ex = ExitCode 0\<close> tr by (auto simp: starts_def)
qed (use assms(1) in \<open>auto simp: starts_def error_record_def\<close>)

text \<open>
  C8. \<open>run\<close> with a lock it cannot take ends with code 1, says why on standard error and does nothing
  else. With the lock taken it is either still serving, with the lock file in place, or has removed
  the lock file as its last act; it never ends in a panic. It serves until a signal or a failure of
  the listener: the code is 0 exactly when a configuration was named, loaded, its modules built and
  serving ended by a signal, 2 exactly when none was named; and the constructed modules are shut
  down in the first case only: on every error path they are abandoned without \<open>Shutdown\<close>.
\<close>

theorem run_lifecycle:
  assumes "pidFile fl \<noteq> ''''" "\<not> unremovable (os_state w) (pidFile fl)" "stdlib_answers (std_answers w)"
  shows "case run fl w of (ex, tr, s2) \<Rightarrow>
    (case fst (Acquire (our_pid w) (pidFile fl) (os_state w)) of
       Inl e \<Rightarrow> ex = ExitCode 1 \<and> tr = [Refused e] \<and> s2 = os_state w
     | Inr l \<Rightarrow>
        (if ex = Blocked then files s2 = (files (os_state w))(pidFile fl \<mapsto> pid_text (our_pid w))
         else files s2 = (files (os_state w))(pidFile fl := None) \<and> last tr = LockReleased)
        \<and> ex \<in> {ExitCode 0, ExitCode 1, ExitCode 2, Blocked}
        \<and> (ex = ExitCode 0 \<longleftrightarrow> configPath fl \<noteq> '''' \<and> (\<exists>cfg. starts w cfg \<and> wakeup_of w cfg = Some SignalReceived))
        \<and> (ex = Blocked \<longleftrightarrow> configPath fl \<noteq> '''' \<and> (\<exists>cfg. starts w cfg \<and> wakeup_of w cfg = None))
        \<and> (ex = ExitCode 2 \<longleftrightarrow> configPath fl = '''')
        \<and> (ex = ExitCode 0 \<longrightarrow> shut_down_in tr = constructed_in tr)
        \<and> (ex \<noteq> ExitCode 0 \<longrightarrow> shut_down_in tr = []))"
proof (cases rule: run_cases [of w fl])
  case (refused e)
  then show ?thesis by simp
next
  case (locked l s1 ex tr)
  have "Release (Some l) s1 = (True, Some \<lparr>path = ''''\<rparr>, s1\<lparr>files := (files s1)(pidFile fl := None)\<rparr>)"
    using assms(1,2) by (simp add: locked(2,3) Release_def Remove_def)
  then have r: "run fl w = (if ex = Blocked then (ex, tr, s1)
      else (ex, tr @ [LockReleased], s1\<lparr>files := (files s1)(pidFile fl := None)\<rparr>))"
    using locked(5) by simp
  have f: "files (s1\<lparr>files := (files s1)(pidFile fl := None)\<rparr>) = (files (os_state w))(pidFile fl := None)"
    "files s1 = (files (os_state w))(pidFile fl \<mapsto> pid_text (our_pid w))" by (simp_all add: locked(3))
  have a: "fst (Acquire (our_pid w) (pidFile fl) (os_state w)) = Inr l" using locked(1) by simp
  show ?thesis
    using run_locked_outcome [OF locked(4) assms(3)] f unfolding r a by (cases "ex = Blocked") auto
qed

section \<open>The GPU library over a run\<close>

text \<open>
  The calls a run makes on an NVML-backed collector: its constructor initialises it, the module's
  first \<open>Shutdown\<close> shuts it down. The argument is what the library answers at initialisation.
\<close>

definition gpu_effect :: "'d nvml_init \<Rightarrow> event \<Rightarrow> 'd nvml_collector \<times> nvml_call list \<Rightarrow> 'd nvml_collector \<times> nvml_call list" where
  "gpu_effect a ev = (\<lambda>(c, calls).
     if ev = Constructed ''gpu'' then let (ans, c1, k) = nvml_Init a c in (c1, calls @ k)
     else if ev = CollectorShutdown then let (c1, k) = nvml_Shutdown c in (c1, calls @ k)
     else (c, calls))"

definition library_after :: "'d nvml_init \<Rightarrow> event list \<Rightarrow> 'd nvml_collector \<times> nvml_call list" where
  "library_after a tr = fold (gpu_effect a) tr (NewNVMLCollector, [])"

definition touches_gpu :: "event \<Rightarrow> bool" where
  "touches_gpu ev \<longleftrightarrow> ev = Constructed ''gpu'' \<or> ev = CollectorShutdown"

lemma library_touched: "library_after a tr = fold (gpu_effect a) (filter touches_gpu tr) (NewNVMLCollector, [])"
proof -
  have "fold (gpu_effect a) tr x = fold (gpu_effect a) (filter touches_gpu tr) x" for x
    by (induction tr arbitrary: x) (auto simp: touches_gpu_def gpu_effect_def)
  then show ?thesis by (simp add: library_after_def)
qed

lemma touched_while_building:
  assumes "\<forall>ev \<in> set tr. building ev" "distinct (constructed_in tr)"
  shows "filter touches_gpu tr = (if ''gpu'' \<in> set (constructed_in tr) then [Constructed ''gpu''] else [])"
  using assms
proof (induction tr)
  case (Cons ev tr)
  then show ?case by (cases ev) (auto simp: touches_gpu_def building_def)
qed simp

lemma untouched [simp]:
  "filter touches_gpu (announce fl cfg) = []" "filter touches_gpu (serving_events w cfg ms h) = []"
  "filter touches_gpu (map RequestLog ls) = []" "\<not> touches_gpu (error_record msg as)" "\<not> touches_gpu (info_record msg as)"
  "\<not> touches_gpu (Drain d)" "\<not> touches_gpu LockReleased" "\<not> touches_gpu (Refused e)"
  by (auto simp: touches_gpu_def announce_def config_loaded_def proxy_warning_def info_record_def error_record_def
      serving_events_def serve_goroutine_def Let_def filter_empty_conv split: goroutine.split serve_return.split)

lemma touched_by_shutdown:
  assumes "\<forall>m \<in> set ms. unreleased m" "distinct (map mod_Name ms)"
  shows "filter touches_gpu (concat (map shutdown_step ms))
    = (if ''gpu'' \<in> set (map mod_Name ms) then [CollectorShutdown] else [])"
  using assms
proof (induction ms)
  case (Cons m ms)
  have "filter touches_gpu (shutdown_step m) = (if mod_Name m = ''gpu'' then [CollectorShutdown] else [])"
    using Cons.prems(1) by (cases m) (auto simp: shutdown_step_def shutdown_defs touches_gpu_def gpu_Shutdown_def)
  moreover have "mod_Name m = ''gpu'' \<Longrightarrow> ''gpu'' \<notin> set (map mod_Name ms)" using Cons.prems(2) by simp
  ultimately show ?case using Cons by (auto split: if_splits)
qed simp

lemma unreleased_ticked: "unreleased (ticked evs m) \<longleftrightarrow> unreleased m"
proof (cases m)
  case (GpuMod g)
  have "shutdown_done (fold gpu_collectOnce es g) = shutdown_done g" for es
    by (induction es arbitrary: g) (simp_all add: gpu_collectOnce_def)
  then show ?thesis by (simp add: GpuMod ticked_def)
qed (simp_all add: ticked_def)

lemma unreleased_in_service:
  assumes "site_ok st" "app_ok (map mod_Name (routed st)) (app_of s)" "\<forall>m \<in> set (app_mods (app_of s)). unreleased m"
  shows "\<forall>m \<in> set (app_mods (app_of (fold (service_step st) evs s))). unreleased m"
proof
  fix m assume m: "m \<in> set (app_mods (app_of (fold (service_step st) evs s)))"
  show "unreleased m"
  proof (cases "is_cpu m")
    case True
    then show ?thesis by (cases m) simp_all
  next
    case False
    then have "m \<in> set (filter (\<lambda>m. \<not> is_cpu m) (app_mods (app_of (fold (service_step st) evs s))))" using m by simp
    then obtain m0 where "m0 \<in> set (app_mods (app_of s))" "m = ticked evs m0"
      unfolding service_run_ticked [OF assms(1,2)] by auto
    then show ?thesis using assms(3) by (simp add: unreleased_ticked)
  qed
qed

lemma touched_while_stopping:
  assumes "Load (config_file w) = Inr cfg" "built_in w cfg = (Inr (ms, h), tr)" "stdlib_answers (std_answers w)"
  shows "filter touches_gpu (run_stopping w (site_in w cfg ms) (waiting_state w cfg ms h))
    = (if ''gpu'' \<in> set (configured cfg) then [CollectorShutdown] else [])"
proof -
  note W = waiting_state_ok [OF assms]
  have names: "map mod_Name ms = configured cfg" "distinct (configured cfg)"
    using service_start_ok(2,3) [OF assms(1,2)] by simp_all
  note start = service_start_ok(1) [OF assms(1,2), folded names(1)]
  let ?st = "site_in w cfg ms" and ?s = "waiting_state w cfg ms h"
  let ?ms = "app_mods (app_of (drained_state w ?st ?s))"
  have "\<forall>m \<in> set ms. unreleased m" using build_events [OF assms(2)] by simp
  then have "\<forall>m \<in> set (app_mods (app_of (service_start ms h []))). unreleased m" by (simp add: service_start_def)
  then have "\<forall>m \<in> set (app_mods (app_of ?s)). unreleased m"
    unfolding waiting_state_def by (intro unreleased_in_service W(1)) (simp_all add: W(2) start)
  then have "\<forall>m \<in> set (app_mods (app_of (?s\<lparr>log_of := []\<rparr>))). unreleased m" by simp
  then have un: "\<forall>m \<in> set ?ms. unreleased m"
    unfolding drained_state_def by (intro unreleased_in_service W(1)) (simp_all add: W(2) W(3) names(1))
  have "app_ok (map mod_Name (routed ?st)) (app_of ?s)" unfolding W(2) names(1) by (rule W(3))
  from drained_state_ok(1) [OF W(1) this, of w] have "map mod_Name ?ms = configured cfg"
    unfolding W(2) names(1) by (simp add: app_ok_def)
  then have "filter touches_gpu (concat (map shutdown_step ?ms)) = (if ''gpu'' \<in> set (configured cfg) then [CollectorShutdown] else [])"
    using touched_by_shutdown [OF un] names(2) by simp
  then show ?thesis by (simp add: run_stopping_def Let_def split: option.split)
qed

lemma build_touched:
  assumes "Load (config_file w) = Inr cfg" "built_in w cfg = (res, tr)"
  shows "filter touches_gpu tr = (if ''gpu'' \<in> set (constructed_in tr) then [Constructed ''gpu''] else [])"
proof (rule touched_while_building)
  show "\<forall>ev \<in> set tr. building ev" using build_events [OF assms(2)] by blast
  have "distinct (configured cfg)" by (simp add: configured_def)
  then show "distinct (constructed_in tr)"
    using modules_built_facts [OF assms(1), of "host_state w" "first_heap w"] assms(2) by (auto split: sum.splits)
qed

lemma run_touched:
  assumes "run fl w = (ex, tr, s2)" "stdlib_answers (std_answers w)"
  shows "filter touches_gpu tr = (if ''gpu'' \<in> set (constructed_in tr)
    then Constructed ''gpu'' # (if ex = ExitCode 0 then [CollectorShutdown] else []) else [])"
proof (cases rule: run_cases [of w fl])
  case (refused e)
  then show ?thesis using assms(1) by simp
next
  case (locked l s1 ex1 tr1)
  have run: "ex = ex1" "tr = tr1 \<or> tr = tr1 @ [LockReleased]" using assms(1) locked(5) by (auto split: if_splits)
  have "filter touches_gpu tr1 = (if ''gpu'' \<in> set (constructed_in tr1)
      then Constructed ''gpu'' # (if ex1 = ExitCode 0 then [CollectorShutdown] else []) else [])"
  proof (cases rule: run_locked_cases [of fl w])
    case (bad_setup cfg err tr0)
    then show ?thesis using locked(4) build_touched [OF bad_setup(2,3)] by (auto simp: error_record_def touches_gpu_def)
  next
    case (blocked cfg ms h tr0)
    then show ?thesis using locked(4) build_touched [OF blocked(2,3)] by auto
  next
    case (failed cfg ms h tr0 e)
    then show ?thesis using locked(4) build_touched [OF failed(2,3)] by (auto simp: error_record_def touches_gpu_def)
  next
    case (stopped cfg ms h tr0)
    have "constructed_in tr0 = configured cfg"
      using modules_built_facts [OF stopped(2), of "host_state w" "first_heap w"] unfolding stopped(3) by simp
    then show ?thesis
      using stopped(5) locked(4) build_touched [OF stopped(2,3)] touched_while_stopping [OF stopped(2,3) assms(2)] by auto
  qed (use locked(4) in \<open>auto simp: error_record_def touches_gpu_def\<close>)
  then show ?thesis using run by auto
qed

text \<open>
  C25. Over a whole run the GPU library is handled once: a run that ends with code 0 has made no call
  on it, or initialised it and shut it down, in this order and once each, and leaves it released. On
  every other way out nothing is shut down but what a failed initialisation has itself released: a
  library that the constructor has initialised stays initialised when a later step fails.
\<close>

theorem run_releases_gpu:
  assumes "run fl w = (ex, tr, s2)" "stdlib_answers (std_answers w)"
  shows "(ex = ExitCode 0 \<longrightarrow> \<not> inited (fst (library_after a tr)) \<and> snd (library_after a tr) \<in> {[], [CallInit, CallShutdown]})
    \<and> (ex \<noteq> ExitCode 0 \<longrightarrow> library_after a tr =
         (if ''gpu'' \<in> set (constructed_in tr) then snd (nvml_Init a NewNVMLCollector) else (NewNVMLCollector, [])))"
proof -
  have "library_after a tr = fold (gpu_effect a) (if ''gpu'' \<in> set (constructed_in tr)
      then Constructed ''gpu'' # (if ex = ExitCode 0 then [CollectorShutdown] else []) else []) (NewNVMLCollector, [])"
    unfolding library_touched run_touched [OF assms] ..
  moreover have "\<not> inited (fst (gpu_effect a CollectorShutdown (snd (nvml_Init a NewNVMLCollector))))
      \<and> snd (gpu_effect a CollectorShutdown (snd (nvml_Init a NewNVMLCollector))) \<in> {[], [CallInit, CallShutdown]}"
    by (auto simp: gpu_effect_def nvml_Init_def nvml_Shutdown_def NewNVMLCollector_def Let_def split: option.split sum.split)
  moreover have "gpu_effect a (Constructed ''gpu'') (NewNVMLCollector, []) = snd (nvml_Init a NewNVMLCollector)"
    by (simp add: gpu_effect_def split: prod.split)
  ultimately show ?thesis by (simp add: NewNVMLCollector_def)
qed

section \<open>What a run says\<close>

abbreviation is_error :: "line \<Rightarrow> bool" where
  "is_error l \<equiv> line_level l = LevelError"

definition lines_of :: "event list \<Rightarrow> line list" where
  "lines_of tr = List.map_filter line_in tr"

lemma lines_of_simps [simp]:
  "lines_of [] = []" "lines_of (ev # tr) = (case line_in ev of None \<Rightarrow> lines_of tr | Some l \<Rightarrow> l # lines_of tr)"
  "lines_of (tr @ tr') = lines_of tr @ lines_of tr'"
  by (auto simp: lines_of_def List.map_filter_def split: option.split)

lemma written_filter: "\<forall>l. LoggerInstalled l \<notin> set tr \<Longrightarrow> written lv tr = filter (\<lambda>l. written_at lv (line_level l)) (lines_of tr)"
  by (induction lv tr rule: written.induct) (auto split: option.split)

lemma written_append:
  assumes "\<forall>l. LoggerInstalled l \<notin> set tr"
  shows "written lv (tr @ tr') = written lv tr @ written lv tr'"
  using assms by (induction lv tr rule: written.induct) (auto split: option.split)

lemma errors_written: "filter is_error (written lv tr) = filter is_error (lines_of tr)"
  by (induction lv tr rule: written.induct) (auto split: option.split)

lemma written_error_last:
  "\<exists>pre. written lv (tr @ [error_record msg as, LockReleased]) = pre @ [ProgramLine \<lparr>rlevel = LevelError, rmsg = msg, rattrs = as\<rparr>]"
proof (induction lv tr rule: written.induct)
  case (1 lv)
  then show ?case by (simp add: error_record_def)
qed (auto simp: error_record_def split: option.split)

lemma handler_lines_of [simp]: "lines_of (map RequestLog ls) = map HandlerLine ls"
  by (induction ls) simp_all

lemma lines_records [simp]:
  "line_in (error_record msg as) = Some (ProgramLine \<lparr>rlevel = LevelError, rmsg = msg, rattrs = as\<rparr>)"
  "line_in (info_record msg as) = Some (ProgramLine \<lparr>rlevel = LevelInfo, rmsg = msg, rattrs = as\<rparr>)"
  by (simp_all add: error_record_def info_record_def)

lemma access_line_level: "line_of l \<noteq> None \<Longrightarrow> line_level (HandlerLine l) = LevelInfo"
  by (cases l) (simp_all add: line_of_def)

lemma no_error_simps [simp]:
  "filter is_error (lines_of (announce fl cfg)) = []"
  "filter is_error (lines_of (fst (serve_goroutine srv g))) = []"
  "filter is_error (lines_of (concat (map shutdown_step ms))) = []"
proof -
  show "filter is_error (lines_of (announce fl cfg)) = []"
    by (simp add: announce_def config_loaded_def proxy_warning_def)
  show "filter is_error (lines_of (fst (serve_goroutine srv g))) = []"
    by (simp add: serve_goroutine_def Let_def split: goroutine.split serve_return.split)
  have r: "lines_of (replicate k CollectorShutdown) = []" for k by (induction k) simp_all
  have "lines_of (shutdown_step m) = []" for m by (cases m) (simp_all add: shutdown_step_def shutdown_defs r split: prod.split)
  then show "filter is_error (lines_of (concat (map shutdown_step ms))) = []" by (induction ms) simp_all
qed

lemma building_no_error:
  assumes "\<forall>ev \<in> set tr. building ev"
  shows "filter is_error (lines_of tr) = []"
  using assms
proof (induction tr)
  case (Cons ev tr)
  then show ?case by (cases ev) (simp_all add: building_def)
qed simp

lemma access_lines_no_error:
  assumes "map line_of ls = map (\<lambda>a. Some (f a)) as"
  shows "filter is_error (map HandlerLine ls) = []" "\<forall>l \<in> set ls. line_level (HandlerLine l) = LevelInfo"
proof -
  have "line_of l \<noteq> None" if "l \<in> set ls" for l
  proof -
    have "line_of l \<in> set (map line_of ls)" using that by simp
    then show ?thesis unfolding assms by auto
  qed
  then show lv: "\<forall>l \<in> set ls. line_level (HandlerLine l) = LevelInfo" using access_line_level by blast
  show "filter is_error (map HandlerLine ls) = []" using lv by (simp add: filter_empty_conv del: line_level.simps)
qed

lemma serving_no_error:
  assumes "Load (config_file w) = Inr cfg" "built_in w cfg = (Inr (ms, h), tr)" "stdlib_answers (std_answers w)"
  shows "filter is_error (lines_of (serving_events w cfg ms h)) = []"
  using access_lines_no_error(1) [OF waiting_state_ok(4) [OF assms]]
  by (simp add: serving_events_def del: line_level.simps)

lemma stopping_log:
  assumes "Load (config_file w) = Inr cfg" "built_in w cfg = (Inr (ms, h), tr)" "stdlib_answers (std_answers w)"
  shows "map line_of (log_of (drained_state w (site_in w cfg ms) (waiting_state w cfg ms h)))
    = map (\<lambda>a. Some (rmethod (req a), logPath (rpath (req a)))) (arrivals_in (draining w))"
proof -
  note W = waiting_state_ok [OF assms]
  have "app_ok (map mod_Name (routed (site_in w cfg ms))) (app_of (waiting_state w cfg ms h))"
    unfolding W(2) service_start_ok(2) [OF assms(1,2)] by (rule W(3))
  then show ?thesis by (rule drained_state_ok(2) [OF W(1)])
qed

lemma stopping_errors:
  assumes "Load (config_file w) = Inr cfg" "built_in w cfg = (Inr (ms, h), tr)" "stdlib_answers (std_answers w)"
  shows "filter is_error (lines_of (run_stopping w (site_in w cfg ms) (waiting_state w cfg ms h)))
    = (case drain_error w of None \<Rightarrow> []
       | Some e \<Rightarrow> [ProgramLine \<lparr>rlevel = LevelError, rmsg = ''http shutdown failed'', rattrs = [(''err'', AErr (DrainFailed e))]\<rparr>])"
proof -
  have "filter is_error (map HandlerLine (log_of (drained_state w (site_in w cfg ms) (waiting_state w cfg ms h)))) = []"
    by (rule access_lines_no_error(1) [OF stopping_log [OF assms]])
  then show ?thesis by (simp add: run_stopping_def Let_def split: option.split)
qed

definition names_cause :: "flags \<Rightarrow> 'l world \<Rightarrow> run_error log_record \<Rightarrow> bool" where
  "names_cause fl w r \<longleftrightarrow>
     configPath fl = '''' \<and> rmsg r = ''-config is required''
   \<or> (\<exists>e. Load (config_file w) = Inl e \<and> (''err'', AErr (LoadFailed e)) \<in> set (rattrs r))
   \<or> (\<exists>cfg n e. Load (config_file w) = Inr cfg \<and> fst (built_in w cfg) = Inl (InitError n e)
        \<and> (''err'', AErr (InitFailed n e)) \<in> set (rattrs r))
   \<or> (\<exists>cfg e. starts w cfg \<and> wakeup_of w cfg = Some (ServerFailed e) \<and> (''err'', AErr (ServeFailed e)) \<in> set (rattrs r))"

lemma explained:
  assumes "filter is_error (lines_of tr) = []" "names_cause fl w \<lparr>rlevel = LevelError, rmsg = msg, rattrs = as\<rparr>"
  shows "\<exists>pre r. written lv (tr @ [error_record msg as, LockReleased]) = pre @ [ProgramLine r] \<and> rlevel r = LevelError
    \<and> (\<forall>l \<in> set pre. \<not> is_error l) \<and> names_cause fl w r"
proof -
  let ?r = "\<lparr>rlevel = LevelError, rmsg = msg, rattrs = as\<rparr>"
  obtain pre where w: "written lv (tr @ [error_record msg as, LockReleased]) = pre @ [ProgramLine ?r]"
    using written_error_last by blast
  have "filter is_error (written lv (tr @ [error_record msg as, LockReleased])) = [ProgramLine ?r]"
    unfolding errors_written using assms(1) by simp
  then have "filter is_error pre = []" unfolding w by simp
  then have "\<forall>l \<in> set pre. \<not> is_error l" by (simp add: filter_empty_conv)
  with w assms(2) show ?thesis by (intro exI [of _ pre] exI [of _ ?r]) simp
qed

text \<open>
  C9. Whatever level is configured, a run that fails says so and why. When the lock is refused the
  reason is on standard error; on every other failure exactly one line of level error is written, it
  is the last one, and it carries the cause (the missing flag, the error of the configuration, of a
  module's initialisation or of the listener). A run that ends with code 0 writes an error exactly
  when the server could not be drained in time.
\<close>

theorem run_explains_failure:
  assumes "run fl w = (ExitCode c, tr, s2)" "stdlib_answers (std_answers w)"
  shows "if c = 0
    then filter is_error (written default_level tr) =
      (case drain_error w of None \<Rightarrow> []
       | Some e \<Rightarrow> [ProgramLine \<lparr>rlevel = LevelError, rmsg = ''http shutdown failed'', rattrs = [(''err'', AErr (DrainFailed e))]\<rparr>])
    else (\<exists>e. tr = [Refused e])
      \<or> (\<exists>pre r. written default_level tr = pre @ [ProgramLine r] \<and> rlevel r = LevelError
           \<and> (\<forall>l \<in> set pre. \<not> is_error l) \<and> names_cause fl w r)"
proof (cases rule: run_cases [of w fl])
  case (refused e)
  then show ?thesis using assms(1) by simp
next
  case (locked l s1 ex tr1)
  have run: "ex = ExitCode c" "tr = tr1 @ [LockReleased]" using assms(1) locked(5) by (auto split: if_splits)
  show ?thesis
  proof (cases rule: run_locked_cases [of fl w])
    case no_config
    then have "c = 2" "tr = [] @ [error_record ''-config is required'' [], LockReleased]" using locked(4) run by simp_all
    moreover have "names_cause fl w \<lparr>rlevel = LevelError, rmsg = ''-config is required'', rattrs = []\<rparr>"
      using no_config(1) by (simp add: names_cause_def)
    ultimately show ?thesis using explained [of "[]" fl w "''-config is required''" "[]" default_level] by simp
  next
    case (bad_config e)
    let ?as = "[(''err'', AErr (LoadFailed e)), (''path'', AStr (configPath fl))]"
    have "c = 1" "tr = [] @ [error_record ''load config failed'' ?as, LockReleased]" using bad_config(3) locked(4) run by simp_all
    moreover have "names_cause fl w \<lparr>rlevel = LevelError, rmsg = ''load config failed'', rattrs = ?as\<rparr>"
      using bad_config(2) by (simp add: names_cause_def)
    ultimately show ?thesis using explained [of "[]" fl w "''load config failed''" ?as default_level] by simp
  next
    case (bad_setup cfg err tr0)
    let ?as = "[(''err'', AErr (InitFailed ''storage'' err))]"
    have "c = 1" "tr = (announce fl cfg @ tr0) @ [error_record ''module setup failed'' ?as, LockReleased]"
      using bad_setup(4) locked(4) run by simp_all
    moreover have "names_cause fl w \<lparr>rlevel = LevelError, rmsg = ''module setup failed'', rattrs = ?as\<rparr>"
      using bad_setup(2,3) by (simp add: names_cause_def)
    moreover have "filter is_error (lines_of (announce fl cfg @ tr0)) = []"
      using building_no_error build_events [OF bad_setup(3)] by simp
    ultimately show ?thesis using explained [of "announce fl cfg @ tr0" fl w "''module setup failed''" ?as default_level] by simp
  next
    case (blocked cfg ms h tr0)
    then show ?thesis using locked(4) run(1) by simp
  next
    case (failed cfg ms h tr0 e)
    let ?as = "[(''err'', AErr (ServeFailed e))]" and ?pre = "announce fl cfg @ tr0 @ serving_events w cfg ms h"
    have "c = 1" "tr = ?pre @ [error_record ''http server failed'' ?as, LockReleased]"
      using failed(5) locked(4) run by simp_all
    moreover have "names_cause fl w \<lparr>rlevel = LevelError, rmsg = ''http server failed'', rattrs = ?as\<rparr>"
      using failed(2-4) by (simp add: names_cause_def starts_def)
    moreover have "filter is_error (lines_of ?pre) = []"
      using building_no_error build_events [OF failed(3)] serving_no_error [OF failed(2,3) assms(2)] by simp
    ultimately show ?thesis using explained [of ?pre fl w "''http server failed''" ?as default_level] by simp
  next
    case (stopped cfg ms h tr0)
    have "c = 0" "tr = announce fl cfg @ tr0 @ serving_events w cfg ms h
        @ run_stopping w (site_in w cfg ms) (waiting_state w cfg ms h) @ [LockReleased]"
      using stopped(5) locked(4) run by simp_all
    then show ?thesis
      using building_no_error build_events [OF stopped(3)] serving_no_error [OF stopped(2,3) assms(2)]
        stopping_errors [OF stopped(2,3) assms(2)] by (simp add: errors_written)
  qed
qed

section \<open>The access log of a run\<close>

definition handler_lines :: "line list \<Rightarrow> log_line list" where
  "handler_lines ls = List.map_filter (\<lambda>l. case l of ProgramLine r \<Rightarrow> None | HandlerLine x \<Rightarrow> Some x) ls"

lemma handler_lines_simps [simp]:
  "handler_lines [] = []"
  "handler_lines (l # ls) = (case l of ProgramLine r \<Rightarrow> handler_lines ls | HandlerLine x \<Rightarrow> x # handler_lines ls)"
  "handler_lines (ls @ ls') = handler_lines ls @ handler_lines ls'"
  "handler_lines (map HandlerLine xs) = xs"
proof -
  show "handler_lines (map HandlerLine xs) = xs" by (induction xs) (simp_all add: handler_lines_def)
qed (auto simp: handler_lines_def List.map_filter_def split: line.split)

lemma handler_lines_filter:
  assumes "\<forall>x \<in> set (handler_lines ls). line_level (HandlerLine x) = LevelInfo"
  shows "handler_lines (filter (\<lambda>l. written_at lv (line_level l)) ls) = (if written_at lv LevelInfo then handler_lines ls else [])"
  using assms
proof (induction ls)
  case (Cons l ls)
  then show ?case by (cases l) auto
qed simp

lemma no_handler_lines [simp]:
  "handler_lines (lines_of (announce fl cfg)) = []"
  "handler_lines (lines_of (fst (serve_goroutine srv g))) = []"
  "handler_lines (lines_of (concat (map shutdown_step ms))) = []"
proof -
  show "handler_lines (lines_of (announce fl cfg)) = []"
    by (simp add: announce_def config_loaded_def proxy_warning_def)
  show "handler_lines (lines_of (fst (serve_goroutine srv g))) = []"
    by (simp add: serve_goroutine_def Let_def split: goroutine.split serve_return.split)
  have r: "lines_of (replicate k CollectorShutdown) = []" for k by (induction k) simp_all
  have "lines_of (shutdown_step m) = []" for m by (cases m) (simp_all add: shutdown_step_def shutdown_defs r split: prod.split)
  then show "handler_lines (lines_of (concat (map shutdown_step ms))) = []" by (induction ms) simp_all
qed

lemma building_no_handler:
  assumes "\<forall>ev \<in> set tr. building ev"
  shows "handler_lines (lines_of tr) = []" "\<forall>srv. Serve srv \<notin> set tr" "\<forall>l. LoggerInstalled l \<notin> set tr"
proof -
  show "handler_lines (lines_of tr) = []" using assms
  proof (induction tr)
    case (Cons ev tr)
    then show ?case by (cases ev) (simp_all add: building_def)
  qed simp
  show "\<forall>srv. Serve srv \<notin> set tr" "\<forall>l. LoggerInstalled l \<notin> set tr" using assms by (auto simp: building_def)
qed

lemma no_logger [simp]:
  "LoggerInstalled l \<notin> set (serving_events w cfg ms h)" "LoggerInstalled l \<notin> set (run_stopping w st s)"
  "LoggerInstalled l \<noteq> error_record msg as"
proof -
  have "LoggerInstalled l \<notin> set (shutdown_step m)" for m by (cases m) (simp_all add: shutdown_step_def shutdown_defs split: prod.split)
  then show "LoggerInstalled l \<notin> set (run_stopping w st s)"
    by (auto simp: run_stopping_def info_record_def error_record_def Let_def split: option.split)
qed (auto simp: serving_events_def serve_goroutine_def info_record_def error_record_def Let_def split: goroutine.split serve_return.split)

lemma announced_handlers:
  assumes "\<forall>l. LoggerInstalled l \<notin> set rest"
    and "map line_of (handler_lines (lines_of rest)) = map (\<lambda>a. Some (f a)) as"
  shows "map line_of (handler_lines (written lv (announce fl cfg @ rest)))
    = (if to_lower (TrimSpace (Level (Logging cfg))) \<in> {''warn'', ''warning'', ''error''} then [] else map (\<lambda>a. Some (f a)) as)"
proof -
  let ?lv = "parse_level (Level (Logging cfg))"
  let ?rest = "config_loaded fl cfg # proxy_warning cfg @ rest"
  have "written lv (announce fl cfg @ rest) = written ?lv ?rest" by (simp add: announce_def Setup_def Let_def)
  also have "\<dots> = filter (\<lambda>l. written_at ?lv (line_level l)) (lines_of ?rest)"
    by (rule written_filter) (use assms(1) in \<open>simp add: config_loaded_def proxy_warning_def info_record_def\<close>)
  finally have w: "written lv (announce fl cfg @ rest) = \<dots>" .
  have rest: "handler_lines (lines_of ?rest) = handler_lines (lines_of rest)"
    by (simp add: config_loaded_def proxy_warning_def)
  have "\<forall>x \<in> set (handler_lines (lines_of ?rest)). line_level (HandlerLine x) = LevelInfo"
    unfolding rest by (rule access_lines_no_error(2) [OF assms(2)])
  from handler_lines_filter [OF this, of ?lv] show ?thesis
    unfolding w rest written_at_Info using assms(2) by simp
qed

text \<open>
  C40. The access log of a run follows the configured level: once serving has begun, a run writes one
  access line per request it has served, in order, those served while draining included, and no
  line of a recovered panic; and with the level warn or error it writes no line of a request at all.
\<close>

theorem run_access_log:
  assumes "run fl w = (ex, tr, s2)" "stdlib_answers (std_answers w)" "Load (config_file w) = Inr cfg" "Serve srv \<in> set tr"
  shows "map line_of (handler_lines (written default_level tr)) =
    (if to_lower (TrimSpace (Level (Logging cfg))) \<in> {''warn'', ''warning'', ''error''} then []
     else map (\<lambda>a. Some (rmethod (req a), logPath (rpath (req a))))
            (arrivals_in (happens w) @ (if ex = ExitCode 0 then arrivals_in (draining w) else [])))"
proof (cases rule: run_cases [of w fl])
  case (refused e)
  then show ?thesis using assms(1,4) by simp
next
  case (locked l s1 ex1 tr1)
  define released where "released = (if ex = Blocked then [] else [LockReleased])"
  have run: "ex1 = ex" "tr = tr1 @ released" using assms(1) locked(5) by (auto simp: released_def split: if_splits)
  have rel: "handler_lines (lines_of released) = []" "LoggerInstalled l \<notin> set released" "Serve srv \<notin> set released" for l
    by (simp_all add: released_def)
  note A = announced_handlers [of _ "\<lambda>a. (rmethod (req a), logPath (rpath (req a)))" _ default_level fl cfg]
  have serving: "map line_of (handler_lines (lines_of (serving_events w cfg ms h)))
      = map (\<lambda>a. Some (rmethod (req a), logPath (rpath (req a)))) (arrivals_in (happens w))"
    if "built_in w cfg = (Inr (ms, h), tr0)" for ms h tr0
    using waiting_state_ok(4) [OF assms(3) that assms(2)] by (simp add: serving_events_def)
  show ?thesis
  proof (cases rule: run_locked_cases [of fl w])
    case (bad_setup cfg' err tr0)
    then have "Serve srv \<in> set (announce fl cfg') \<or> Serve srv \<in> set tr0" using assms(4) locked(4) run rel by (auto simp: error_record_def)
    then show ?thesis using building_no_handler(2) build_events [OF bad_setup(3)]
      by (auto simp: announce_def config_loaded_def proxy_warning_def info_record_def split: if_splits)
  next
    case (blocked cfg' ms h tr0)
    then have [simp]: "cfg' = cfg" using assms(3) by simp
    have tr: "ex = Blocked" "tr = announce fl cfg @ tr0 @ serving_events w cfg ms h @ released"
      using blocked(5) locked(4) run by simp_all
    note B = building_no_handler [OF conjunct2 [OF build_events [OF blocked(3)]]]
    show ?thesis unfolding tr(2) using A [of "tr0 @ serving_events w cfg ms h @ released" "arrivals_in (happens w)"] B rel serving blocked(3)
      by (simp add: tr(1))
  next
    case (failed cfg' ms h tr0 e)
    then have [simp]: "cfg' = cfg" using assms(3) by simp
    let ?rest = "tr0 @ serving_events w cfg ms h @ error_record ''http server failed'' [(''err'', AErr (ServeFailed e))] # released"
    have tr: "ex = ExitCode 1" "tr = announce fl cfg @ ?rest" using failed(5) locked(4) run by simp_all
    note B = building_no_handler [OF conjunct2 [OF build_events [OF failed(3)]]]
    show ?thesis unfolding tr(2) using A [of ?rest "arrivals_in (happens w)"] B rel serving failed(3) by (simp add: tr(1))
  next
    case (stopped cfg' ms h tr0)
    then have [simp]: "cfg' = cfg" using assms(3) by simp
    let ?stop = "run_stopping w (site_in w cfg ms) (waiting_state w cfg ms h)"
    let ?rest = "tr0 @ serving_events w cfg ms h @ ?stop @ released"
    have tr: "ex = ExitCode 0" "tr = announce fl cfg @ ?rest" using stopped(5) locked(4) run by simp_all
    note B = building_no_handler [OF conjunct2 [OF build_events [OF stopped(3)]]]
    have "map line_of (handler_lines (lines_of ?stop)) = map (\<lambda>a. Some (rmethod (req a), logPath (rpath (req a)))) (arrivals_in (draining w))"
      using stopping_log [OF assms(3) _ assms(2)] stopped(3) by (simp add: run_stopping_def Let_def split: option.split)
    then show ?thesis unfolding tr(2) using A [of ?rest "arrivals_in (happens w) @ arrivals_in (draining w)"] B rel serving stopped(3)
      by (simp add: tr(1))
  qed (use assms(3,4) locked(4) run rel in \<open>auto simp: error_record_def\<close>)
qed

section \<open>Runs\<close>

definition demo_world :: "bool \<Rightarrow> goroutine \<Rightarrow> (instant \<times> int) world" where
  \<comment> \<open>memory and GPU configured; one request before the signal, one while draining\<close>
  "demo_world stop g =
     \<lparr>os_state = demo_os, our_pid = 7, config_file = Inr (Decoded gpu_file), host_state = demo_host, first_heap = run3_heap,
      rate_lib = toy_api, std_answers = not_found, rfc_time = (\<lambda>_. ''now''), process_start = 0, wall_clock = (\<lambda>_. 0),
      local_zone = demo_clock, runtime_version = ''go1.25'', boot_time = Inl ''denied'', os_hostname = '''',
      happens = [Sampling (MemTick (mem_ok_reading 2 350)), Arrival (arrives ''/health'')],
      draining = [Arrival (arrives ''/nowhere'')],
      signalled = stop, goroutine_at = g, choose_signal = True, drain_error = None\<rparr>"

definition demo_flags :: flags where
  "demo_flags = \<lparr>configPath = ''c.yaml'', pidFile = ''/tmp/monitor.pid''\<rparr>"

lemma demo_world_fields [simp]:
  "os_state (demo_world stop g) = demo_os" "our_pid (demo_world stop g) = 7"
  "config_file (demo_world stop g) = Inr (Decoded gpu_file)" "std_answers (demo_world stop g) = not_found"
  "arrivals_in (happens (demo_world stop g)) = [arrives ''/health'']"
  "arrivals_in (draining (demo_world stop g)) = [arrives ''/nowhere'']"
  "pidFile demo_flags = ''/tmp/monitor.pid''" "configPath demo_flags \<noteq> ''''"
  "host_state (demo_world stop g) = demo_host" "first_heap (demo_world stop g) = run3_heap"
  by (simp_all add: demo_world_def demo_flags_def)

lemma demo_acquired: "\<exists>l. fst (Acquire 7 ''/tmp/monitor.pid'' demo_os) = Inr l"
proof -
  have "holder_of (ReadFile ''/tmp/monitor.pid'' demo_os) = Some 99"
    using holder_pid_text [of 99] by (simp add: ReadFile_def demo_os_def)
  then show ?thesis by (simp add: Acquire_def pidRunning_def WriteFile_def demo_fields)
qed

lemma demo_serving:
  obtains ex tr s2 ms h tr0 where "run demo_flags (demo_world stop g) = (ex, tr, s2)"
    "buildModules (applyDefaults gpu_file) demo_host run3_heap = (Inr (ms, h), tr0)"
    "run_locked demo_flags (demo_world stop g) = (ex, announce demo_flags (applyDefaults gpu_file) @ tr0
        @ snd (run_serving (applyDefaults gpu_file) (demo_world stop g) ms h))"
    "ex = fst (run_serving (applyDefaults gpu_file) (demo_world stop g) ms h)"
    "set tr0 \<union> set (snd (run_serving (applyDefaults gpu_file) (demo_world stop g) ms h)) \<subseteq> set tr"
    "set (constructed_in tr0) \<subseteq> set (constructed_in tr)"
proof -
  let ?w = "demo_world stop g" and ?cfg = "applyDefaults gpu_file"
  obtain ms h tr0 where b: "buildModules ?cfg demo_host run3_heap = (Inr (ms, h), tr0)" by (rule demo_built)
  obtain ex tr1 where r: "run_serving ?cfg ?w ms h = (ex, tr1)" by (cases "run_serving ?cfg ?w ms h")
  have locked: "run_locked demo_flags ?w = (ex, announce demo_flags ?cfg @ tr0 @ tr1)"
    using b r by (simp add: run_locked_def run_configured_def gpu_file_loads)
  show thesis
  proof (cases rule: run_cases [of ?w demo_flags])
    case (refused e)
    then show thesis using demo_acquired by simp
  next
    case (locked l s1 ex' tr')
    obtain tr s2 where "run demo_flags ?w = (ex, tr, s2)" "tr = announce demo_flags ?cfg @ tr0 @ tr1
        \<or> tr = announce demo_flags ?cfg @ tr0 @ tr1 @ [LockReleased]"
      using locked(4,5) \<open>run_locked demo_flags ?w = (ex, announce demo_flags ?cfg @ tr0 @ tr1)\<close> by (cases "ex = Blocked") auto
    then show thesis using b r \<open>run_locked demo_flags ?w = (ex, announce demo_flags ?cfg @ tr0 @ tr1)\<close>
      by (intro that) auto
  qed
qed

lemma demo_starts: "starts (demo_world stop g) (applyDefaults gpu_file)"
proof -
  obtain ms h tr where "buildModules (applyDefaults gpu_file) demo_host run3_heap = (Inr (ms, h), tr)" by (rule demo_built)
  then show ?thesis using gpu_file_loads by (simp add: starts_def)
qed

theorem run_lifecycle_witness:
  "\<exists>tr s2. run demo_flags (demo_world True Listening) = (ExitCode 0, tr, s2)
    \<and> shut_down_in tr = constructed_in tr \<and> files s2 ''/tmp/monitor.pid'' = None"
proof -
  let ?w = "demo_world True Listening"
  have p: "pidFile demo_flags \<noteq> ''''" "\<not> unremovable (os_state ?w) (pidFile demo_flags)" "stdlib_answers (std_answers ?w)"
    by (simp_all add: demo_fields not_found_answers)
  obtain l where a: "fst (Acquire (our_pid ?w) (pidFile demo_flags) (os_state ?w)) = Inr l" using demo_acquired by auto
  obtain ex tr s2 where r: "run demo_flags ?w = (ex, tr, s2)" by (metis prod.collapse)
  have "wakeup_of ?w cfg = Some SignalReceived" for cfg
    by (simp add: wakeup_of_def select_end_def serve_goroutine_def demo_world_def)
  moreover have "starts ?w (applyDefaults gpu_file)"
    by (rule demo_starts)
  ultimately have "ex = ExitCode 0" "shut_down_in tr = constructed_in tr"
    "files s2 = (files (os_state ?w))(pidFile demo_flags := None)"
    using run_lifecycle [OF p] unfolding r a prod.case sum.case by auto
  then show ?thesis using r by simp
qed

definition two_gpus :: "nat nvml_init" where
  "two_gpus = \<lparr>init_result = None, device_count = Inr 2, handle_by_index = Some, get_uuid = (\<lambda>_. ''GPU''),
     get_name = (\<lambda>_. ''card''), get_memory_total = (\<lambda>_. 8)\<rparr>"

theorem run_releases_gpu_witness:
  "\<exists>tr s2. run demo_flags (demo_world False (ListenReturned (ListenError ''in use''))) = (ExitCode 1, tr, s2)
    \<and> inited (fst (library_after two_gpus tr)) \<and> snd (library_after two_gpus tr) = [CallInit]"
proof -
  let ?w = "demo_world False (ListenReturned (ListenError ''in use''))" and ?cfg = "applyDefaults gpu_file"
  obtain ex tr s2 ms h tr0 where r: "run demo_flags ?w = (ex, tr, s2)" "buildModules ?cfg demo_host run3_heap = (Inr (ms, h), tr0)"
    "ex = fst (run_serving ?cfg ?w ms h)" "set (constructed_in tr0) \<subseteq> set (constructed_in tr)" by (rule demo_serving)
  have "wakeup_of ?w ?cfg = Some (ServerFailed ''in use'')"
    by (simp add: wakeup_of_def select_end_def serve_goroutine_def demo_world_def)
  then have ex: "ex = ExitCode 1" using r(3) by (simp add: run_serving_eq)
  have "constructed_in tr0 = [''memory'', ''gpu'']"
    using modules_built_facts [OF gpu_file_loads, of demo_host run3_heap] gpu_file_modules(1) unfolding r(2) by simp
  then have "''gpu'' \<in> set (constructed_in tr)" using r(4) by auto
  then have "library_after two_gpus tr = snd (nvml_Init two_gpus NewNVMLCollector)"
    using run_releases_gpu [OF r(1), of two_gpus] ex not_found_answers by simp
  then show ?thesis using r(1) ex by (simp add: nvml_Init_def two_gpus_def NewNVMLCollector_def Let_def)
qed

theorem run_explains_failure_witness:
  "\<exists>tr s2 pre r. run \<lparr>configPath = '''', pidFile = ''/tmp/monitor.pid''\<rparr> (demo_world True Listening) = (ExitCode 2, tr, s2)
    \<and> written default_level tr = pre @ [ProgramLine r] \<and> rlevel r = LevelError"
proof -
  let ?fl = "\<lparr>configPath = '''', pidFile = ''/tmp/monitor.pid''\<rparr>" and ?w = "demo_world True Listening"
  obtain tr s2 where r: "run ?fl ?w = (ExitCode 2, tr, s2)"
  proof (cases rule: run_cases [of ?w ?fl])
    case (refused e)
    then show thesis using demo_acquired by simp
  next
    case (locked l s1 ex tr1)
    have "ex = ExitCode 2" using locked(4) by (simp add: run_locked_def)
    then show thesis using locked(5) by (intro that) simp
  qed
  have "tr \<noteq> [Refused e]" for e
  proof
    assume "tr = [Refused e]"
    then have "fst (Acquire 7 ''/tmp/monitor.pid'' demo_os) \<noteq> Inr l" for l
      using r by (cases rule: run_cases [of ?w ?fl]) (auto split: if_splits)
    then show False using demo_acquired by blast
  qed
  then show ?thesis using run_explains_failure [OF r] r not_found_answers by auto
qed

theorem run_access_log_witness:
  "\<exists>tr s2. run demo_flags (demo_world True Listening) = (ExitCode 0, tr, s2)
    \<and> map line_of (handler_lines (written default_level tr)) = [Some (''GET'', ''/health''), Some (''GET'', ''/nowhere'')]"
proof -
  let ?w = "demo_world True Listening" and ?cfg = "applyDefaults gpu_file"
  obtain ex tr s2 ms h where r: "run demo_flags ?w = (ex, tr, s2)" "ex = fst (run_serving ?cfg ?w ms h)"
    "set (snd (run_serving ?cfg ?w ms h)) \<subseteq> set tr" by (rule demo_serving) blast
  have "wakeup_of ?w ?cfg = Some SignalReceived"
    by (simp add: wakeup_of_def select_end_def serve_goroutine_def demo_world_def)
  then have ex: "ex = ExitCode 0" and srv: "Serve (new_http_server ?cfg) \<in> set tr"
    using r(2,3) by (auto simp: run_serving_eq serving_events_def)
  have level: "Level (Logging ?cfg) = ''info''"
    by (simp add: gpu_file_def demo_file_def demo_config_def applyDefaults_def default_defs zero_config_def Let_def)
  have "to_lower (TrimSpace ''info'') = ''info''" by code_simp
  then have "map line_of (handler_lines (written default_level tr))
      = map (\<lambda>a. Some (rmethod (req a), logPath (rpath (req a)))) [arrives ''/health'', arrives ''/nowhere'']"
    using run_access_log [OF r(1) _ _ srv, of ?cfg] ex gpu_file_loads not_found_answers by (simp add: level)
  also have "\<dots> = [Some (''GET'', ''/health''), Some (''GET'', ''/nowhere'')]"
    by (simp add: arrives_def get_request_def logPath_def maxLogPathLen_def)
  finally show ?thesis by (intro exI conjI) (rule r(1) [unfolded ex])
qed

end
