(* ===== verification/Publication.thy ===== *)
theory Publication
  imports Metrics_Base
begin

text \<open>
  \<open>Publish\<close> (\<^verbatim>\<open>metrics/base.go\<close>) as other goroutines see it. The sampling goroutine makes three separate
  accesses to the base (the pointer store, the push under the buffer's lock, the stamp); a handler's
  read is one access and can fall between any two of them. The step relation has one rule per access;
  the theorem relates every state a reader can meet to states of whole publications, as all the other
  theories take them.
\<close>

section \<open>The publishing goroutine\<close>

datatype 'a stage = Idle | Stored 'a | Pushed 'a

record 'a publishing =
  shared :: "'a base"
  stage :: "'a stage"
  completed :: "(instant \<times> 'a) list"
  \<comment> \<open>the publications that have returned, with their stamps, oldest first\<close>

definition not_publishing :: "'a base \<Rightarrow> 'a publishing" where
  "not_publishing b = \<lparr>shared = b, stage = Idle, completed = []\<rparr>"

inductive publish_step :: "'a publishing \<Rightarrow> 'a publishing \<Rightarrow> bool" where
  store: "stage s = Idle
     \<Longrightarrow> publish_step s (s\<lparr>shared := publish_latest v (shared s), stage := Stored v\<rparr>)"
| push: "stage s = Stored v
     \<Longrightarrow> publish_step s (s\<lparr>shared := publish_push v (shared s), stage := Pushed v\<rparr>)"
| stamp: "stage s = Pushed v
     \<Longrightarrow> publish_step s (s\<lparr>shared := publish_stamp t (shared s), stage := Idle, completed := completed s @ [(t, v)]\<rparr>)"

inductive publish_run :: "'a publishing \<Rightarrow> 'a publishing \<Rightarrow> bool" for s0 :: "'a publishing" where
  start: "publish_run s0 s0"
| step: "publish_run s0 s \<Longrightarrow> publish_step s s' \<Longrightarrow> publish_run s0 s'"

inductive_cases publish_stepE: "publish_step s s'"

inductive_simps publish_from_idle: "publish_step \<lparr>shared = b, stage = Idle, completed = done\<rparr> s'"
inductive_simps publish_from_stored: "publish_step \<lparr>shared = b, stage = Stored v, completed = done\<rparr> s'"
inductive_simps publish_from_pushed: "publish_step \<lparr>shared = b, stage = Pushed v, completed = done\<rparr> s'"

lemmas publish_from = publish_from_idle publish_from_stored publish_from_pushed

lemma publish_run_trans: "publish_run s1 s2 \<Longrightarrow> publish_run s0 s1 \<Longrightarrow> publish_run s0 s2"
  by (induction rule: publish_run.induct) (auto intro: publish_run.intros)

section \<open>Readers\<close>

definition stored_ahead :: "'a stage \<Rightarrow> 'a list" where
  \<comment> \<open>the sample whose pointer is stored though its publication has not returned\<close>
  "stored_ahead g = (case g of Idle \<Rightarrow> [] | Stored v \<Rightarrow> [v] | Pushed v \<Rightarrow> [v])"

definition pushed_ahead :: "'a stage \<Rightarrow> 'a list" where
  "pushed_ahead g = (case g of Idle \<Rightarrow> [] | Stored v \<Rightarrow> [] | Pushed v \<Rightarrow> [v])"

definition atomic :: "'a base \<Rightarrow> (instant \<times> 'a) list \<Rightarrow> 'a base" where
  \<comment> \<open>whole publications, one after the other\<close>
  "atomic b ps = fold (\<lambda>(t, v). Publish t v) ps b"

lemma atomic_simps [simp]: "atomic b [] = b" "atomic b (ps @ [(t, v)]) = Publish t v (atomic b ps)"
  by (simp_all add: atomic_def)

lemma ahead_simps [simp]:
  "stored_ahead Idle = []" "stored_ahead (Stored v) = [v]" "stored_ahead (Pushed v) = [v]"
  "pushed_ahead Idle = []" "pushed_ahead (Stored v) = []" "pushed_ahead (Pushed v) = [v]"
  by (simp_all add: stored_ahead_def pushed_ahead_def)

definition in_flight :: "'a base \<Rightarrow> 'a stage \<Rightarrow> 'a base" where
  \<comment> \<open>what the accesses made so far have done to the base\<close>
  "in_flight b g = (case g of
      Idle \<Rightarrow> b
    | Stored v \<Rightarrow> publish_latest v b
    | Pushed v \<Rightarrow> publish_push v (publish_latest v b))"

lemma in_flight_simps [simp]:
  "in_flight b Idle = b" "in_flight b (Stored v) = publish_latest v b"
  "in_flight b (Pushed v) = publish_push v (publish_latest v b)"
  by (simp_all add: in_flight_def)

text \<open>The base is always that of the completed publications and the accesses in flight.\<close>

lemma publish_run_shared:
  assumes "publish_run (not_publishing b) s"
  shows "shared s = in_flight (atomic b (completed s)) (stage s)"
  using assms
proof (induction rule: publish_run.induct)
  case (step s s')
  from step.hyps(2) show ?case
    by (cases rule: publish_step.cases) (simp_all add: step.IH Publish_def)
qed (simp add: not_publishing_def)

definition samples_of :: "'a publishing \<Rightarrow> 'a list" where
  \<comment> \<open>the samples whose publication has begun\<close>
  "samples_of s = map snd (completed s) @ stored_ahead (stage s)"

lemma publish_step_samples: "publish_step s s' \<Longrightarrow> \<exists>new. samples_of s' = samples_of s @ new"
  by (elim publish_stepE) (auto simp: samples_of_def)

lemma publish_step_pushed:
  "publish_step s s' \<Longrightarrow> length (completed s) + length (pushed_ahead (stage s)) \<le> length (completed s') + length (pushed_ahead (stage s'))"
  by (elim publish_stepE) auto

lemma publish_run_forward:
  assumes "publish_run s s'"
  shows "(\<exists>new. samples_of s' = samples_of s @ new)
    \<and> length (completed s) + length (pushed_ahead (stage s)) \<le> length (completed s') + length (pushed_ahead (stage s'))"
  using assms
proof (induction rule: publish_run.induct)
  case (step s1 s2)
  obtain new1 where "samples_of s1 = samples_of s @ new1" using step.IH by blast
  moreover obtain new2 where "samples_of s2 = samples_of s1 @ new2" using publish_step_samples [OF step.hyps(2)] by blast
  ultimately have "\<exists>new. samples_of s2 = samples_of s @ new" by simp
  then show ?case using step.IH publish_step_pushed [OF step.hyps(2)] by (blast intro: order_trans)
qed simp

lemma atomic_reads:
  assumes "NewBase zero intv n = Inr b"
  shows "Snapshot (buf (atomic b ps)) = lastn (nat n) (map snd ps)"
    "latest (atomic b ps) = (if ps = [] then None else Some (snd (last ps)))"
proof -
  have b: "ring_inv (buf b)" "Snapshot (buf b) = []" "Cap (buf b) = n" "latest b = None"
    using NewBase_inv [OF assms] NewBase_fields [OF assms] by (simp_all add: base_inv_def Base_Latest_def)
  show "Snapshot (buf (atomic b ps)) = lastn (nat n) (map snd ps)"
    using ring.snap_pushes [OF b(1), of "map snd ps"] by (simp add: atomic_def fold_Publish(1) b(2,3))
  show "latest (atomic b ps) = (if ps = [] then None else Some (snd (last ps)))"
    by (induction ps rule: rev_induct) (auto simp: b(4))
qed

section \<open>Properties\<close>

text \<open>
  C13. Every read of a base that is being published to returns what it would return between two whole
  publications: \<open>Latest\<close> as if the sample in flight were already published, the snapshot as if it
  were exactly when it has been pushed, and the age as if it were not yet; and whenever no
  publication is in flight the base is the one the completed publications lead to as wholes. So one
  step per publication, as the modules and the service are modelled, loses no behaviour of a read.
\<close>

theorem publication_linearizable:
  assumes "publish_run (not_publishing b) s"
  shows "Base_Latest (shared s) = Base_Latest (atomic b (completed s @ map (Pair t) (stored_ahead (stage s))))
    \<and> Snapshot (buf (shared s)) = Snapshot (buf (atomic b (completed s @ map (Pair t) (pushed_ahead (stage s)))))
    \<and> LastSampleAge now (shared s) = LastSampleAge now (atomic b (completed s))
    \<and> (stage s = Idle \<longrightarrow> shared s = atomic b (completed s))"
proof -
  have [simp]: "lastSampleUnix (publish_push v x) = lastSampleUnix x" "lastSampleUnix (publish_latest v x) = lastSampleUnix x"
    for v and x :: "'a base" by (simp_all add: publish_push_def publish_latest_def)
  show ?thesis unfolding publish_run_shared [OF assms]
    by (cases "stage s") (simp_all add: Base_Latest_def LastSampleAge_def)
qed

definition sees :: "nat \<Rightarrow> 'a list \<Rightarrow> nat \<Rightarrow> nat \<Rightarrow> 'a base \<Rightarrow> bool" where
  \<comment> \<open>the history is that of the first \<open>j\<close> samples, the latest one is the \<open>k\<close>-th, at most one ahead\<close>
  "sees cap vs j k b \<longleftrightarrow> j \<le> k \<and> k \<le> j + 1 \<and> k \<le> length vs
     \<and> Snapshot (buf b) = lastn cap (take j vs)
     \<and> Base_Latest b = (if k = 0 then None else Some (vs ! (k - 1)))"

lemma reader_sees:
  assumes "NewBase zero intv n = Inr b" "publish_run (not_publishing b) s"
  shows "sees (nat n) (samples_of s @ new) (length (completed s) + length (pushed_ahead (stage s)))
    (length (samples_of s)) (shared s)"
proof -
  note R = atomic_reads [OF assms(1)]
  have sh: "shared s = in_flight (atomic b (completed s)) (stage s)" by (rule publish_run_shared [OF assms(2)])
  have inv: "ring_inv (buf (atomic b (completed s)))" "nat (Cap (buf (atomic b (completed s)))) = nat n"
    using ring.pushes_ok [of "buf b" "map snd (completed s)"] NewBase_inv [OF assms(1)] NewBase_fields(2) [OF assms(1)]
    by (auto simp: atomic_def fold_Publish(1) base_inv_def)
  show ?thesis
  proof (cases "stage s")
    case Idle
    then show ?thesis by (auto simp: sees_def sh samples_of_def R Base_Latest_def nth_append last_conv_nth)
  next
    case (Stored v)
    then show ?thesis by (simp add: sees_def sh samples_of_def R Base_Latest_def nth_append)
  next
    case (Pushed v)
    then show ?thesis
      using ring.snap_push [OF inv(1), of v] by (simp add: sees_def sh samples_of_def R Base_Latest_def nth_append inv(2) lastn_append_lastn)
  qed
qed

text \<open>
  A reader never goes back: of two reads of a base at any two moments, the later one sees at
  least the samples of the earlier one. At every moment the history is the last capacity samples of
  all but possibly the sample in flight, and the latest sample is at most one ahead of the history.
\<close>

theorem reads_move_forward:
  assumes "NewBase zero intv n = Inr b" "publish_run (not_publishing b) s" "publish_run s s'"
  shows "\<exists>j k j'. sees (nat n) (samples_of s') j k (shared s)
    \<and> sees (nat n) (samples_of s') j' (length (samples_of s')) (shared s') \<and> j \<le> j' \<and> k \<le> length (samples_of s')"
proof -
  obtain new where new: "samples_of s' = samples_of s @ new"
    and le: "length (completed s) + length (pushed_ahead (stage s)) \<le> length (completed s') + length (pushed_ahead (stage s'))"
    using publish_run_forward [OF assms(3)] by blast
  have "publish_run (not_publishing b) s'" by (rule publish_run_trans [OF assms(3,2)])
  from reader_sees [OF assms(1) this, of "[]"] reader_sees [OF assms(1,2), of new] le show ?thesis
    unfolding new [symmetric] append_Nil2 by (metis le_add1 length_append new)
qed

definition demo_base :: "nat base" where
  "demo_base = \<lparr>Interval = second, buf = \<lparr>cap_of = 2, data = [0, 0], head = 0, full = False\<rparr>, latest = None, lastSampleUnix = 0\<rparr>"

definition demo_in_flight :: "nat publishing" where
  \<comment> \<open>7 is published, the pointer of 8 is stored\<close>
  "demo_in_flight = \<lparr>shared = publish_latest 8 (Publish 5 7 demo_base), stage = Stored 8, completed = [(5, 7)]\<rparr>"

lemma demo_base_new: "NewBase 0 second 2 = Inr demo_base"
  by (simp add: NewBase_def NewRingBuffer_def demo_base_def numeral_2_eq_2)

lemma demo_in_flight_run: "publish_run (not_publishing demo_base) demo_in_flight"
proof -
  let ?stored = "\<lparr>shared = publish_latest 7 demo_base, stage = Stored 7, completed = []\<rparr>"
  let ?pushed = "\<lparr>shared = publish_push 7 (publish_latest 7 demo_base), stage = Pushed 7, completed = []\<rparr>"
  let ?done = "\<lparr>shared = Publish 5 7 demo_base, stage = Idle, completed = [(5, 7)]\<rparr>"
  have "publish_step (not_publishing demo_base) ?stored"
    using publish_step.store [of "not_publishing demo_base" 7] by (simp add: not_publishing_def)
  moreover have "publish_step ?stored ?pushed" unfolding publish_from by simp
  moreover have "publish_step ?pushed ?done" unfolding publish_from Publish_def by (rule exI [of _ 5]) simp
  moreover have "publish_step ?done demo_in_flight" unfolding publish_from demo_in_flight_def by (rule exI [of _ 8]) simp
  ultimately show ?thesis by (meson publish_run.start publish_run.step)
qed

theorem publication_linearizable_witness:
  "Base_Latest (shared demo_in_flight) = Some 8 \<and> Snapshot (buf (shared demo_in_flight)) = [7]"
proof -
  have "Base_Latest (shared demo_in_flight) = Base_Latest (atomic demo_base [(5, 7), (0, 8)])"
    "Snapshot (buf (shared demo_in_flight)) = Snapshot (buf (atomic demo_base [(5, 7)]))"
    using publication_linearizable [OF demo_in_flight_run, of 0] by (simp_all add: demo_in_flight_def)
  then show ?thesis by (simp add: atomic_reads [OF demo_base_new] Base_Latest_def lastn_def)
qed

theorem reads_move_forward_witness:
  "\<exists>j. sees 2 [7, 8] j 2 (shared demo_in_flight)"
proof -
  have len: "samples_of demo_in_flight = [7, 8]" "nat 2 = 2" "length [7, 8] = 2" by (simp_all add: samples_of_def demo_in_flight_def)
  from reads_move_forward [OF demo_base_new demo_in_flight_run publish_run.start]
  show ?thesis unfolding len by blast
qed

end
