(* ===== verification/Peak_Race.thy ===== *)
theory Peak_Race
  imports Cpu
begin

text \<open>
  The one access to shared data without a lock: the loop of \<open>Peak\<close> (\<^verbatim>\<open>cpu/module.go\<close>) that merges an
  older sample's per-core values into the backing array of the newest sample. Two requests for peaks
  run on two goroutines and write to the same array. Here each comparison and each write is a step
  of its own (a \<open>float64\<close> is read and written as one word); \<open>Cpu\<close> takes the whole loop as one step.
\<close>

section \<open>Requests in progress\<close>

record race =
  row :: "f64 list"
  todo :: "nat \<Rightarrow> (nat \<times> f64) list"
  decided :: "nat \<Rightarrow> bool"
  \<comment> \<open>the newest sample's array; per request the indices and values it has still to merge, as it
     reads them; whether it has found the first of them larger and not written it yet\<close>

definition larger_at :: "f64 list \<Rightarrow> nat \<Rightarrow> f64 \<Rightarrow> bool" where
  \<comment> \<open>the condition of the loop's body\<close>
  "larger_at a i v \<longleftrightarrow> i < length a \<and> f64_gt v (a ! i)"

inductive race_step :: "race \<Rightarrow> race \<Rightarrow> bool" where
  keep: "todo r t = (i, v) # rest \<Longrightarrow> \<not> decided r t \<Longrightarrow> \<not> larger_at (row r) i v
     \<Longrightarrow> race_step r (r\<lparr>todo := (todo r)(t := rest)\<rparr>)"
| decide: "todo r t = (i, v) # rest \<Longrightarrow> \<not> decided r t \<Longrightarrow> larger_at (row r) i v
     \<Longrightarrow> race_step r (r\<lparr>decided := (decided r)(t := True)\<rparr>)"
| overwrite: "todo r t = (i, v) # rest \<Longrightarrow> decided r t
     \<Longrightarrow> race_step r (r\<lparr>row := (row r)[i := v], todo := (todo r)(t := rest), decided := (decided r)(t := False)\<rparr>)"

inductive_cases race_stepE: "race_step r r'"

inductive race_run :: "race \<Rightarrow> race \<Rightarrow> bool" for r0 :: race where
  start: "race_run r0 r0"
| step: "race_run r0 r \<Longrightarrow> race_step r r' \<Longrightarrow> race_run r0 r'"

definition requests :: "f64 list \<Rightarrow> (nat \<Rightarrow> (nat \<times> f64) list) \<Rightarrow> race" where
  \<comment> \<open>every request before its first comparison\<close>
  "requests a progs = \<lparr>row = a, todo = progs, decided = (\<lambda>_. False)\<rparr>"

section \<open>One request alone\<close>

definition merge_cell :: "nat \<times> f64 \<Rightarrow> f64 list \<Rightarrow> f64 list" where
  "merge_cell = (\<lambda>(i, v) a. if larger_at a i v then a[i := v] else a)"

text \<open>The loop of \<open>Cpu\<close> is the merge of the indexed values.\<close>

lemma max_into_merge:
  "elems (max_into p i vs h) p = fold merge_cell (zip [i..<i + length vs] vs) (elems h p)"
proof (induction p i vs h rule: max_into.induct)
  case (2 p i v vs h)
  have "[i..<i + length (v # vs)] = i # [Suc i..<Suc i + length vs]" using upt_conv_Cons [of i "i + length (v # vs)"] by simp
  moreover have "elems (if i < length (elems h p) \<and> f64_gt v (elems h p ! i) then store_at p i v h else h) p
      = merge_cell (i, v) (elems h p)"
    by (simp add: merge_cell_def larger_at_def elems_store_at)
  ultimately show ?case using 2 by simp
qed simp

definition alone_inv :: "nat \<Rightarrow> f64 list \<Rightarrow> (nat \<times> f64) list \<Rightarrow> race \<Rightarrow> bool" where
  "alone_inv t a prog r \<longleftrightarrow> (\<forall>u. u \<noteq> t \<longrightarrow> todo r u = []) \<and> fold merge_cell (todo r t) (row r) = fold merge_cell prog a
     \<and> (decided r t \<longrightarrow> (\<exists>i v rest. todo r t = (i, v) # rest \<and> larger_at (row r) i v))"

lemma alone_step:
  assumes "race_step r r'" "alone_inv t a prog r"
  shows "alone_inv t a prog r'"
  using assms(1)
proof (cases rule: race_step.cases)
  case (keep u i v rest)
  then have "u = t" using assms(2) by (auto simp: alone_inv_def)
  then show ?thesis using keep assms(2) by (simp add: alone_inv_def merge_cell_def)
next
  case (decide u i v rest)
  then have "u = t" using assms(2) by (auto simp: alone_inv_def)
  then show ?thesis using decide assms(2) by (simp add: alone_inv_def)
next
  case (overwrite u i v rest)
  then have "u = t" using assms(2) by (auto simp: alone_inv_def)
  moreover from this have "larger_at (row r) i v" using overwrite assms(2) by (auto simp: alone_inv_def)
  ultimately show ?thesis using overwrite assms(2) by (simp add: alone_inv_def merge_cell_def)
qed

lemma alone_run:
  assumes "race_run (requests a progs) r" "\<forall>u. u \<noteq> t \<longrightarrow> progs u = []"
  shows "alone_inv t a (progs t) r"
  using assms(1)
proof (induction rule: race_run.induct)
  case start
  then show ?case using assms(2) by (simp add: alone_inv_def requests_def)
next
  case (step r r')
  show ?case by (rule alone_step [OF step.hyps(2) step.IH])
qed

section \<open>Requests that overlap\<close>

definition race_inv :: "f64 list \<Rightarrow> (nat \<Rightarrow> (nat \<times> f64) list) \<Rightarrow> race \<Rightarrow> bool" where
  \<comment> \<open>a cell holds what was measured, or a larger value that some request merges there\<close>
  "race_inv a progs r \<longleftrightarrow> length (row r) = length a
     \<and> (\<forall>i < length a. row r ! i = a ! i \<or> (\<exists>t. (i, row r ! i) \<in> set (progs t)) \<and> f64_gt (row r ! i) (a ! i))
     \<and> (\<forall>t. set (todo r t) \<subseteq> set (progs t))
     \<and> (\<forall>t. decided r t \<longrightarrow> (\<exists>i v rest. todo r t = (i, v) # rest \<and> i < length a \<and> f64_gt v (a ! i)))"

lemma race_step_inv:
  assumes "race_step r r'" "race_inv a progs r"
  shows "race_inv a progs r'"
  using assms(1)
proof (cases rule: race_step.cases)
  case (keep t i v rest)
  have "set ((i, v) # rest) \<subseteq> set (progs t)" using assms(2) unfolding race_inv_def keep(2) [symmetric] by blast
  then show ?thesis using keep assms(2) by (auto simp: race_inv_def)
next
  case (decide t i v rest)
  have "i < length a" "f64_gt v (a ! i)"
    using decide assms(2) by (auto simp: race_inv_def larger_at_def dest: f64_gt_trans)
  then show ?thesis using decide assms(2) by (auto simp: race_inv_def)
next
  case (overwrite t i v rest)
  have sub: "set ((i, v) # rest) \<subseteq> set (progs t)" using assms(2) unfolding race_inv_def overwrite(2) [symmetric] by blast
  have v: "i < length a" "f64_gt v (a ! i)" using overwrite(2,3) assms(2) unfolding race_inv_def by (metis list.inject prod.inject)+
  have "row r' ! j = a ! j \<or> (\<exists>t. (j, row r' ! j) \<in> set (progs t)) \<and> f64_gt (row r' ! j) (a ! j)"
    if "j < length a" for j
  proof (cases "j = i")
    case True
    then have "row r' ! j = v" using overwrite(1) v(1) assms(2) by (simp add: race_inv_def)
    then show ?thesis using v sub True by auto
  next
    case False
    then show ?thesis using overwrite(1) assms(2) that by (simp add: race_inv_def)
  qed
  then show ?thesis using overwrite(1) assms(2) sub by (auto simp: race_inv_def)
qed

lemma race_run_inv: "race_run (requests a progs) r \<Longrightarrow> race_inv a progs r"
proof (induction rule: race_run.induct)
  case (step r r')
  show ?case by (rule race_step_inv [OF step.hyps(2) step.IH])
qed (simp add: race_inv_def requests_def)

section \<open>Properties\<close>

text \<open>
  C14. However peak requests overlap, the array they merge into keeps its length, and every cell holds
  what was measured or a larger value some request merges there: never more than the true maximum,
  and never less than the measurement. A request that has the array to itself leaves exactly what the
  sequential loop computes.
\<close>

theorem racing_peaks_bounded:
  assumes "race_run (requests a progs) r"
  shows "length (row r) = length a
    \<and> (\<forall>i < length a. row r ! i = a ! i \<or> (\<exists>t. (i, row r ! i) \<in> set (progs t)) \<and> f64_gt (row r ! i) (a ! i))
    \<and> (\<forall>t p vs h. (\<forall>u. u \<noteq> t \<longrightarrow> progs u = []) \<and> progs t = zip [0..<length vs] vs \<and> a = elems h p \<and> todo r t = []
         \<longrightarrow> row r = elems (max_into p 0 vs h) p)"
proof (intro conjI allI impI)
  show "length (row r) = length a" using race_run_inv [OF assms] by (simp add: race_inv_def)
  show "row r ! i = a ! i \<or> (\<exists>t. (i, row r ! i) \<in> set (progs t)) \<and> f64_gt (row r ! i) (a ! i)"
    if "i < length a" for i using race_run_inv [OF assms] that by (simp add: race_inv_def)
  show "row r = elems (max_into p 0 vs h) p"
    if "(\<forall>u. u \<noteq> t \<longrightarrow> progs u = []) \<and> progs t = zip [0..<length vs] vs \<and> a = elems h p \<and> todo r t = []" for t p vs h
    using alone_run [OF assms, of t] that by (simp add: alone_inv_def max_into_merge)
qed

text \<open>
  But the maximum can be lost: of two requests one of which merges 50 and the other 90 into a cell
  that holds 10, the first can decide before the second has written and write after it.
\<close>

definition overlap :: "nat \<Rightarrow> (nat \<times> f64) list" where
  "overlap = (\<lambda>_. [])(0 := [(0, Fin 50)], 1 := [(0, Fin 90)])"

lemma peak_lost_update:
  "\<exists>r. race_run (requests [Fin 10] overlap) r \<and> (\<forall>t. todo r t = []) \<and> row r = [Fin 50]"
proof -
  let ?start = "requests [Fin 10] overlap"
  let ?both = "\<lparr>row = [Fin 10], todo = overlap, decided = (\<lambda>_. False)(0 := True)\<rparr>"
  let ?dec = "\<lparr>row = [Fin 10], todo = overlap, decided = (\<lambda>_. False)(0 := True, 1 := True)\<rparr>"
  let ?ninety = "\<lparr>row = [Fin 90], todo = overlap(1 := []), decided = (\<lambda>_. False)(0 := True, 1 := False)\<rparr>"
  let ?fifty = "\<lparr>row = [Fin 50], todo = overlap(1 := [], 0 := []), decided = (\<lambda>_. False)(0 := False, 1 := False)\<rparr>"
  have "race_step ?start ?both"
    using race_step.decide [of ?start 0 0 "Fin 50" "[]"] by (simp add: requests_def overlap_def larger_at_def)
  moreover have "race_step ?both ?dec"
    using race_step.decide [of ?both 1 0 "Fin 90" "[]"] by (simp add: overlap_def larger_at_def)
  moreover have "race_step ?dec ?ninety"
    using race_step.overwrite [of ?dec 1 0 "Fin 90" "[]"] by (simp add: overlap_def)
  moreover have "race_step ?ninety ?fifty"
    using race_step.overwrite [of ?ninety 0 0 "Fin 50" "[]"] by (simp add: overlap_def fun_upd_twist)
  ultimately have "race_run ?start ?fifty" by (meson race_run.start race_run.step)
  then show ?thesis by (intro exI [of _ ?fifty] conjI) (simp_all add: overlap_def)
qed

theorem racing_peaks_bounded_witness:
  "\<exists>r. race_run (requests [Fin 10] overlap) r \<and> (\<forall>t. todo r t = []) \<and> row r = [Fin 50]
    \<and> (\<exists>t. (0, row r ! 0) \<in> set (overlap t)) \<and> f64_gt (row r ! 0) (Fin 10)"
proof -
  obtain r where r: "race_run (requests [Fin 10] overlap) r" "\<forall>t. todo r t = []" "row r = [Fin 50]"
    using peak_lost_update by blast
  have "row r ! 0 = [Fin 10] ! 0 \<or> (\<exists>t. (0, row r ! 0) \<in> set (overlap t)) \<and> f64_gt (row r ! 0) ([Fin 10] ! 0)"
    using racing_peaks_bounded [OF r(1)] by simp
  then show ?thesis by (intro exI [of _ r] conjI r) (simp_all add: r(3))
qed

end
