(* ===== verification/Storage_Poll.thy ===== *)
theory Storage_Poll
  imports Storage Handlers
begin

text \<open>
  A tick of the storage module with the time it takes (\<^verbatim>\<open>storage/module.go\<close> on \<^verbatim>\<open>storage/collector.go\<close>):
  the mounts are polled one after the other, each poll waits for its worker until \<open>perDiskTimeout\<close> has
  passed. When each system call answers, and what, is an argument; one that never answers is a hung
  mount. A worker leaves as soon as it has answered, which \<open>disk_step\<close> allows to take longer.
\<close>

section \<open>One poll\<close>

definition perDiskTimeout :: duration where
  "perDiskTimeout = 500 * millisecond"

record kernel =
  reply :: "nat \<Rightarrow> (instant \<times> (string + usage)) option"
  answer_first :: "nat \<Rightarrow> bool"
  \<comment> \<open>per system call the moment and the result, or \<open>None\<close> when it hangs; which case \<open>select\<close> picks
     when the answer comes at the very deadline\<close>

definition settle_call :: "kernel \<Rightarrow> instant \<Rightarrow> nat \<Rightarrow> disk_state \<Rightarrow> disk_state" where
  \<comment> \<open>the worker of this call, if it has got its answer by now, stores it and leaves\<close>
  "settle_call k now call st =
     (case reply k call of
        None \<Rightarrow> st
      | Some (t, r) \<Rightarrow>
        if t \<le> now \<and> call < length (calls st) \<and> \<not> call_done (calls st ! call)
        then worker_remove call (st\<lparr>calls := (calls st)[call := finish r (calls st ! call)]\<rparr>)
        else st)"

definition settle :: "kernel \<Rightarrow> instant \<Rightarrow> disk_state \<Rightarrow> disk_state" where
  \<comment> \<open>the collector at the moment \<open>now\<close>\<close>
  "settle k now st = fold (settle_call k now) [0..<length (calls st)] st"

definition deadline_error :: "usage \<times> string option" where
  \<comment> \<open>\<open>Usage{}, ctx.Err()\<close>\<close>
  "deadline_error = (zero_usage, Some ''context deadline exceeded'')"

definition told :: "string + usage \<Rightarrow> usage \<times> string option" where
  "told r = (case r of Inl err \<Rightarrow> (zero_usage, Some err) | Inr u \<Rightarrow> (u, None))"

definition Usage :: "kernel \<Rightarrow> instant \<Rightarrow> string \<Rightarrow> disk_state \<Rightarrow> (usage \<times> string option) \<times> instant \<times> disk_state" where
  \<comment> \<open>a call of the method at \<open>now\<close> with a context that expires after \<open>perDiskTimeout\<close>: what it returns,
     when, and the collector it leaves\<close>
  "Usage k now path st =
     (let (call, st1) = callFor path (settle k now st);
          deadline = now + perDiskTimeout
      in case reply k call of
           None \<Rightarrow> (deadline_error, deadline, st1)
         | Some (t, r) \<Rightarrow>
           if t < deadline \<or> t = deadline \<and> answer_first k call
           then (told r, max now t, settle k (max now t) st1)
           else (deadline_error, deadline, st1))"

primrec poll_mounts ::
  "kernel \<Rightarrow> mount_point list \<Rightarrow> instant \<Rightarrow> disk_state \<Rightarrow> (usage \<times> string option) list \<times> instant \<times> disk_state" where
  \<comment> \<open>the loop of \<open>collectOnce\<close>\<close>
  "poll_mounts k [] now st = ([], now, st)"
| "poll_mounts k (mp # mps) now st =
     (let (a, t, st1) = Usage k now (mpPath mp) st;
          (as, t1, st2) = poll_mounts k mps t st1
      in (a # as, t1, st2))"

definition storage_tick_at :: "kernel \<Rightarrow> instant \<Rightarrow> storage_module \<times> disk_state \<Rightarrow> storage_module \<times> instant \<times> disk_state" where
  \<comment> \<open>\<open>collectOnce\<close> begun at \<open>now\<close>; the sample is stamped and published when the loop is through\<close>
  "storage_tick_at k now = (\<lambda>(m, st).
     let (as, t, st1) = poll_mounts k (mounts m) now st
     in (storage_collectOnce \<lparr>answers = (!) as, stamp_clock = t, publish_clock = t\<rparr> m, t, st1))"

section \<open>A timed poll is a run of the collector\<close>

lemma disk_run_append: "disk_run s2 fs s3 \<Longrightarrow> disk_run s1 es s2 \<Longrightarrow> disk_run s1 (es @ fs) s3"
  by (induction rule: disk_run.induct) (auto intro: disk_run.step simp flip: append_assoc)

lemma disk_run_one: "disk_step s e s1 \<Longrightarrow> disk_run s [e] s1"
  using disk_run.step [OF disk_run.refl] by fastforce

lemma settle_call_run:
  assumes "flight_inv st"
  shows "\<exists>es. disk_run st es (settle_call k now call st) \<and> requested es = {}"
proof (cases "\<exists>t r. reply k call = Some (t, r) \<and> t \<le> now \<and> call < length (calls st) \<and> \<not> call_done (calls st ! call)")
  case True
  then obtain t r where r: "reply k call = Some (t, r)" "t \<le> now" "call < length (calls st)" "\<not> call_done (calls st ! call)"
    by blast
  let ?s = "st\<lparr>calls := (calls st)[call := finish r (calls st ! call)]\<rparr>"
  have "calls st ! call \<in> set (calls st)" using r(3) by simp
  then have "\<not> worker_gone (calls st ! call)" using assms r(4) by (auto simp: flight_inv_def)
  then have "disk_step ?s (Remove call) (worker_remove call ?s)" using r(3) by (intro disk_step.remove) simp_all
  with disk_step.answer [OF r(3,4), of r] have "disk_run st [Answer call r, Remove call] (worker_remove call ?s)" by (rule disk_run_two)
  moreover have "settle_call k now call st = worker_remove call ?s" using r by (simp add: settle_call_def)
  moreover have "requested [Answer call r, Remove call] = {}" by (simp add: requested_def)
  ultimately show ?thesis by metis
next
  case False
  then have "settle_call k now call st = st" by (auto simp: settle_call_def split: option.split)
  moreover have "requested [] = {}" by (simp add: requested_def)
  ultimately show ?thesis using disk_run.refl by metis
qed

lemma requested_append [simp]: "requested (es @ fs) = requested es \<union> requested fs"
  by (auto simp: requested_def)

lemma requested_one [simp]: "requested [Request path call] = {path}"
  by (auto simp: requested_def)

lemma settle_run:
  assumes "flight_inv st"
  shows "\<exists>es. disk_run st es (settle k now st) \<and> requested es = {}"
proof -
  have "\<exists>es. disk_run st es (fold (settle_call k now) cs st) \<and> requested es = {}" for cs
    using assms
  proof (induction cs arbitrary: st)
    case Nil
    have "requested [] = {}" by (simp add: requested_def)
    then show ?case using disk_run.refl by auto
  next
    case (Cons c cs)
    obtain es where e: "disk_run st es (settle_call k now c st)" "requested es = {}"
      using settle_call_run [OF Cons.prems] by blast
    have "flight_inv (settle_call k now c st)" by (rule disk_run_inv [OF e(1) Cons.prems])
    from Cons.IH [OF this] obtain fs
      where "disk_run (settle_call k now c st) fs (fold (settle_call k now) cs (settle_call k now c st))" "requested fs = {}"
      by blast
    then have "disk_run st (es @ fs) (fold (settle_call k now) (c # cs) st)" "requested (es @ fs) = {}"
      using disk_run_append [OF _ e(1)] e(2) by simp_all
    then show ?case by blast
  qed
  then show ?thesis by (simp add: settle_def)
qed

lemma callFor_answer:
  assumes "flight_inv st" "callFor path st = (call, st1)"
  shows "disk_run st [Request path call] st1" "call < length (calls st1)" "call_path (calls st1 ! call) = path"
proof -
  show "disk_run st [Request path call] st1" by (rule disk_run_one [OF disk_step.request [OF assms(2)]])
  show "call < length (calls st1)" "call_path (calls st1 ! call) = path"
    using assms by (auto simp: callFor_def Let_def flight_inv_def split: option.splits)
qed

lemma disk_run_keeps_calls:
  assumes "disk_run st es st1" "call < length (calls st)"
  shows "call < length (calls st1) \<and> call_path (calls st1 ! call) = call_path (calls st ! call)"
  using assms
proof (induction rule: disk_run.induct)
  case (step st es st1 e st2)
  have i: "call < length (calls st1)" "call_path (calls st1 ! call) = call_path (calls st ! call)" using step by simp_all
  from step.hyps(2) show ?case
  proof (cases rule: disk_step.cases)
    case (request path c)
    then show ?thesis using i by (auto simp: callFor_def Let_def nth_append split: option.splits)
  next
    case (answer c r)
    then show ?thesis using i by (cases "c = call") simp_all
  next
    case (remove c)
    then show ?thesis using i by (cases "c = call") (simp_all add: worker_remove_calls)
  qed
qed simp

text \<open>
  What one poll does: from its own start it waits for the answer of a call for its path, at most
  \<open>perDiskTimeout\<close>, and is told that answer or the deadline's error; and what it does to the collector
  are steps of \<open>disk_step\<close> with one request.
\<close>

definition due :: "kernel \<Rightarrow> instant \<Rightarrow> nat \<Rightarrow> (usage \<times> string option) \<times> instant" where
  \<comment> \<open>what a poll begun at \<open>start\<close> is to be told of the call, and when: the answer if it comes within the poll's
     own \<open>perDiskTimeout\<close>, when it comes, and else the deadline's error, at the deadline\<close>
  "due k start call =
     (case reply k call of
        None \<Rightarrow> (deadline_error, start + perDiskTimeout)
      | Some (t, r) \<Rightarrow>
        if t < start + perDiskTimeout \<or> t = start + perDiskTimeout \<and> answer_first k call
        then (told r, max start t) else (deadline_error, start + perDiskTimeout))"

definition told_for :: "kernel \<Rightarrow> instant \<Rightarrow> instant \<Rightarrow> string \<Rightarrow> disk_state \<Rightarrow> usage \<times> string option \<Rightarrow> bool" where
  \<comment> \<open>a poll from \<open>start\<close> to \<open>stop\<close> is told \<open>a\<close>, as is due of a call for the path\<close>
  "told_for k start stop path st a \<longleftrightarrow>
     (\<exists>call < length (calls st). call_path (calls st ! call) = path \<and> due k start call = (a, stop))"

lemma told_for_run: "disk_run st es st1 \<Longrightarrow> told_for k start stop path st a \<Longrightarrow> told_for k start stop path st1 a"
  unfolding told_for_def by (elim exE conjE) (rule exI, auto dest: disk_run_keeps_calls)

lemma due_lasts: "due k start call = (a, stop) \<Longrightarrow> start \<le> stop \<and> stop \<le> start + perDiskTimeout"
  by (cases "reply k call") (auto simp: due_def perDiskTimeout_def split: if_splits)

lemma told_for_lasts: "told_for k start stop path st a \<Longrightarrow> start \<le> stop \<and> stop \<le> start + perDiskTimeout"
  unfolding told_for_def using due_lasts by blast

lemma Usage_poll:
  assumes "flight_inv st" "Usage k now path st = (a, t, st1)"
  shows "now \<le> t \<and> t \<le> now + perDiskTimeout" "told_for k now t path st1 a"
    "\<exists>es. disk_run st es st1 \<and> requested es = {path}"
proof -
  obtain es0 where e0: "disk_run st es0 (settle k now st)" "requested es0 = {}" using settle_run [OF assms(1)] by blast
  have inv0: "flight_inv (settle k now st)" by (rule disk_run_inv [OF e0(1) assms(1)])
  obtain call s1 where c: "callFor path (settle k now st) = (call, s1)" by (cases "callFor path (settle k now st)")
  note C = callFor_answer [OF inv0 c]
  have inv1: "flight_inv s1" by (rule disk_run_inv [OF C(1) inv0])
  have e1: "disk_run st (es0 @ [Request path call]) s1" by (rule disk_run_append [OF C(1) e0(1)])
  have req: "requested (es0 @ [Request path call]) = {path}" by (simp add: e0(2))
  let ?answered = "\<exists>u r. reply k call = Some (u, r) \<and> (u < now + perDiskTimeout \<or> u = now + perDiskTimeout \<and> answer_first k call)"
  have both: "told_for k now t path st1 a \<and> (\<exists>es. disk_run st es st1 \<and> requested es = {path})"
  proof (cases ?answered)
    case True
    then obtain u r where u: "reply k call = Some (u, r)" "u < now + perDiskTimeout \<or> u = now + perDiskTimeout \<and> answer_first k call"
      by blast
    then have r: "a = told r" "t = max now u" "st1 = settle k (max now u) s1"
      using assms(2) by (auto simp: Usage_def c split: if_splits)
    obtain es2 where e2: "disk_run s1 es2 st1" "requested es2 = {}" using settle_run [OF inv1] unfolding r(3) by blast
    have "disk_run st ((es0 @ [Request path call]) @ es2) st1" by (rule disk_run_append [OF e2(1) e1])
    moreover have "requested ((es0 @ [Request path call]) @ es2) = {path}"
      unfolding requested_append [of "es0 @ [Request path call]" es2] req e2(2) by simp
    ultimately have "\<exists>es. disk_run st es st1 \<and> requested es = {path}" by blast
    moreover have "told_for k now t path s1 a"
      unfolding told_for_def due_def using C(2,3) u r(1,2) by (intro exI [of _ call]) auto
    then have "told_for k now t path st1 a" by (rule told_for_run [OF e2(1)])
    ultimately show ?thesis by blast
  next
    case False
    then have r: "a = deadline_error" "t = now + perDiskTimeout" "st1 = s1"
      using assms(2) by (auto simp: Usage_def c Let_def split: option.splits prod.splits if_splits)
    moreover have "told_for k now t path s1 a"
      unfolding told_for_def due_def using C(2,3) r(1,2) False by (intro exI [of _ call]) (auto split: option.split)
    moreover have "\<exists>es. disk_run st es st1 \<and> requested es = {path}" using e1 req r(3) by blast
    ultimately show ?thesis by simp
  qed
  then show "told_for k now t path st1 a" "\<exists>es. disk_run st es st1 \<and> requested es = {path}" by simp_all
  show "now \<le> t \<and> t \<le> now + perDiskTimeout" by (rule told_for_lasts [OF conjunct1 [OF both]])
qed

definition polled ::
  "kernel \<Rightarrow> mount_point list \<Rightarrow> instant list \<Rightarrow> disk_state \<Rightarrow> (usage \<times> string option) list \<Rightarrow> bool" where
  \<comment> \<open>one poll per mount, each begun when the one before it was over, at these times\<close>
  "polled k mps ts st as \<longleftrightarrow> length ts = Suc (length mps) \<and> length as = length mps
     \<and> (\<forall>i < length mps. told_for k (ts ! i) (ts ! Suc i) (mpPath (mps ! i)) st (as ! i))"

lemma polled_Cons:
  assumes "told_for k now u (mpPath mp) st a" "polled k mps ts st as" "ts ! 0 = u"
  shows "polled k (mp # mps) (now # ts) st (a # as)"
  using assms by (auto simp: polled_def nth_Cons split: nat.split)

lemma poll_mounts_facts:
  assumes "flight_inv st" "poll_mounts k mps now st = (as, t, st1)"
  shows "now \<le> t" "t \<le> now + int (length mps) * perDiskTimeout"
    "\<exists>ts. polled k mps ts st1 as \<and> ts ! 0 = now \<and> ts ! length mps = t"
    "\<exists>es. disk_run st es st1 \<and> requested es = mpPath ` set mps"
proof -
  have "now \<le> t \<and> t \<le> now + int (length mps) * perDiskTimeout
      \<and> (\<exists>ts. polled k mps ts st1 as \<and> ts ! 0 = now \<and> ts ! length mps = t)
      \<and> (\<exists>es. disk_run st es st1 \<and> requested es = mpPath ` set mps)"
    using assms
  proof (induction mps arbitrary: now st as)
    case Nil
    have "polled k [] [now] st1 as \<and> [now] ! 0 = now \<and> [now] ! length [] = t" using Nil by (simp add: polled_def)
    moreover have "requested [] = {}" by (simp add: requested_def)
    ultimately show ?case using Nil disk_run.refl by auto
  next
    case (Cons mp mps)
    obtain a u s1 where u: "Usage k now (mpPath mp) st = (a, u, s1)" by (metis prod.collapse)
    obtain bs where rest: "poll_mounts k mps u s1 = (bs, t, st1)" "as = a # bs"
      using Cons.prems(2) by (auto simp: u split: prod.splits)
    note U = Usage_poll [OF Cons.prems(1) u]
    obtain es where es: "disk_run st es s1" "requested es = {mpPath mp}" using U(3) by blast
    have inv: "flight_inv s1" by (rule disk_run_inv [OF es(1) Cons.prems(1)])
    obtain fs where fs: "disk_run s1 fs st1" "requested fs = mpPath ` set mps" using Cons.IH [OF inv rest(1)] by blast
    have "disk_run st (es @ fs) st1" by (rule disk_run_append [OF fs(1) es(1)])
    moreover have "requested (es @ fs) = mpPath ` set (mp # mps)" using es(2) fs(2) by simp
    ultimately have run: "\<exists>es. disk_run st es st1 \<and> requested es = mpPath ` set (mp # mps)" by blast
    obtain ts where ts: "polled k mps ts st1 bs" "ts ! 0 = u" "ts ! length mps = t" using Cons.IH [OF inv rest(1)] by blast
    have "polled k (mp # mps) (now # ts) st1 as"
      unfolding rest(2) by (rule polled_Cons [OF told_for_run [OF fs(1) U(2)] ts(1,2)])
    then have "\<exists>ts. polled k (mp # mps) ts st1 as \<and> ts ! 0 = now \<and> ts ! length (mp # mps) = t"
      using ts(3) by (intro exI [of _ "now # ts"]) simp
    then show ?case using run Cons.IH [OF inv rest(1)] U(1) by (auto simp: algebra_simps)
  qed
  then show "now \<le> t" "t \<le> now + int (length mps) * perDiskTimeout"
    "\<exists>ts. polled k mps ts st1 as \<and> ts ! 0 = now \<and> ts ! length mps = t"
    "\<exists>es. disk_run st es st1 \<and> requested es = mpPath ` set mps" by blast+
qed

section \<open>A mount that hangs\<close>

lemma hung_settled:
  assumes "reply k c = None" "inFlight st p = Some c"
  shows "inFlight (settle k now st) p = Some c"
proof -
  have one: "inFlight (settle_call k now i s) p = Some c" if "inFlight s p = Some c" for i s
    using assms(1) that by (cases "i = c") (auto simp: settle_call_def worker_remove_def Let_def split: option.split)
  have "inFlight (fold (settle_call k now) cs s) p = Some c" if "inFlight s p = Some c" for cs s
    using that by (induction cs arbitrary: s) (auto intro: one)
  then show ?thesis using assms(2) by (simp add: settle_def)
qed

lemma hung_polled:
  assumes "reply k c = None" "inFlight st p = Some c" "Usage k now path st = (a, t, st1)"
  shows "inFlight st1 p = Some c" "path = p \<Longrightarrow> a = deadline_error \<and> t = now + perDiskTimeout"
proof -
  obtain call s1 where c: "callFor path (settle k now st) = (call, s1)" by (cases "callFor path (settle k now st)")
  have s: "inFlight (settle k now st) p = Some c" by (rule hung_settled [OF assms(1,2)])
  then have s1: "inFlight s1 p = Some c" using c by (auto simp: callFor_def Let_def split: option.splits if_splits)
  show "inFlight st1 p = Some c"
    using assms(3) s1 hung_settled [OF assms(1) s1] by (auto simp: Usage_def c Let_def split: option.splits prod.splits if_splits)
  show "a = deadline_error \<and> t = now + perDiskTimeout" if "path = p"
    using assms(1,3) c s that by (simp add: Usage_def callFor_def Let_def)
qed

lemma hung_tick_lasts:
  assumes "flight_inv st" "reply k c = None" "inFlight st p = Some c" "p \<in> mpPath ` set mps"
    and "poll_mounts k mps now st = (as, t, st1)"
  shows "now + perDiskTimeout \<le> t"
  using assms
proof (induction mps arbitrary: now st as)
  case (Cons mp mps)
  obtain a u s1 where u: "Usage k now (mpPath mp) st = (a, u, s1)" by (metis prod.collapse)
  obtain bs where rest: "poll_mounts k mps u s1 = (bs, t, st1)" using Cons.prems(5) by (auto simp: u split: prod.splits)
  note U = Usage_poll [OF Cons.prems(1) u] and H = hung_polled [OF Cons.prems(2,3) u]
  have inv: "flight_inv s1" using U(3) disk_run_inv Cons.prems(1) by blast
  show ?case
  proof (cases "mpPath mp = p")
    case True
    then show ?thesis using H(2) poll_mounts_facts(1) [OF inv rest] by simp
  next
    case False
    then show ?thesis using Cons.IH [OF inv Cons.prems(2) H(1) _ rest] Cons.prems(4) U(1) by auto
  qed
qed simp

section \<open>Properties\<close>

text \<open>
  C12. A tick polls the mounts in their order, each poll from the end of the one before it, and is over
  after at most 500 ms per mount. It publishes one entry per mount: what a system call for that
  mount's own path answered, if that came within 500 ms of the start of that very poll, which then
  ends with the answer; and the deadline's error otherwise, 500 ms after the poll's start. So a mount
  that hangs delays the tick by 500 ms and spoils its own entry only; and the workers left behind
  are at most one per path ever polled.
\<close>

theorem storage_tick_bounded:
  assumes "disk_run NewGopsutilDiskCollector es st" "storage_tick_at k now (m, st) = (m1, t, st1)" "storage_base m = Some b"
  shows "now \<le> t \<and> t \<le> now + int (length (mounts m)) * perDiskTimeout
    \<and> (\<exists>s ds ts. storage_Latest m1 = Ptr (Some s) \<and> Timestamp s = t \<and> Disks s = Some ds
        \<and> length ds = length (mounts m) \<and> length ts = Suc (length (mounts m)) \<and> ts ! 0 = now \<and> ts ! length (mounts m) = t
        \<and> (\<forall>i < length (mounts m). ts ! i \<le> ts ! Suc i \<and> ts ! Suc i \<le> ts ! i + perDiskTimeout
             \<and> (\<exists>a. told_for k (ts ! i) (ts ! Suc i) (mpPath (mounts m ! i)) st1 a \<and> disk_entry (mounts m ! i) a (ds ! i))))
    \<and> Finite_Set.card (live_workers st1) \<le> Finite_Set.card (requested es \<union> mpPath ` set (mounts m))"
proof -
  obtain as where p: "poll_mounts k (mounts m) now st = (as, t, st1)"
    and m1: "m1 = storage_collectOnce \<lparr>answers = (!) as, stamp_clock = t, publish_clock = t\<rparr> m"
    using assms(2) by (auto simp: storage_tick_at_def split: prod.splits)
  have inv: "flight_inv st" by (rule disk_run_inv [OF assms(1) flight_inv_init])
  note P = poll_mounts_facts [OF inv p]
  obtain fs where fs: "disk_run st fs st1" "requested fs = mpPath ` set (mounts m)" using P(4) by blast
  have "disk_run NewGopsutilDiskCollector (es @ fs) st1" by (rule disk_run_append [OF fs(1) assms(1)])
  then have workers: "Finite_Set.card (live_workers st1) \<le> Finite_Set.card (requested es \<union> mpPath ` set (mounts m))"
    using live_workers_bounded [of "es @ fs" st1] fs(2) by simp
  let ?e = "\<lparr>answers = (!) as, stamp_clock = t, publish_clock = t\<rparr>"
  let ?ds = "map (\<lambda>i. disk_of (mounts m ! i) (as ! i)) [0..<length (mounts m)]"
  obtain ts where ts: "polled k (mounts m) ts st1 as" "ts ! 0 = now" "ts ! length (mounts m) = t" using P(3) by blast
  have latest: "storage_Latest m1 = Ptr (Some (storage_sample_of ?e m))" "Timestamp (storage_sample_of ?e m) = t"
    "Disks (storage_sample_of ?e m) = Some ?ds"
    using assms(3) by (simp_all add: m1 storage_collectOnce_def storage_Latest_def Base_Latest_def storage_sample_of_def Let_def)
  have entry: "ts ! i \<le> ts ! Suc i \<and> ts ! Suc i \<le> ts ! i + perDiskTimeout
      \<and> (\<exists>a. told_for k (ts ! i) (ts ! Suc i) (mpPath (mounts m ! i)) st1 a \<and> disk_entry (mounts m ! i) a (?ds ! i))"
    if i: "i < length (mounts m)" for i
  proof -
    have "told_for k (ts ! i) (ts ! Suc i) (mpPath (mounts m ! i)) st1 (as ! i)" using ts(1) i by (simp add: polled_def)
    moreover have "disk_entry (mounts m ! i) (as ! i) (?ds ! i)"
      using i disk_of_entry [of "mounts m ! i" "as ! i"] by simp
    ultimately show ?thesis using told_for_lasts by blast
  qed
  have "length ?ds = length (mounts m)" "length ts = Suc (length (mounts m))" using ts(1) by (simp_all add: polled_def)
  then show ?thesis using P(1,2) workers latest ts(2,3) entry by blast
qed

text \<open>
  C15. A single hung mount makes the service report itself as degraded when twice the sampling interval
  is below 500 ms, which a valid configuration allows: the storage module's next sample comes no
  earlier than 500 ms after the last one, and every request for \<open>/health\<close> whose clock readings fall
  between the staleness limit and that sample is answered 503; there is such a moment in every tick.
\<close>

theorem hung_mount_degrades_health:
  assumes hung: "flight_inv st" "reply k call = None" "inFlight st p = Some call" "p \<in> mpPath ` set (mounts x)"
    and tick: "storage_tick_at k now (x, st) = (x1, t, st1)" "storage_base x = Some b"
      "0 < lastSampleUnix b" "lastSampleUnix b \<le> now"
    and served: "StorageMod x \<in> set (app_mods (server_state c))" "distinct (map mod_Name (app_mods (server_state c)))"
      "\<forall>m \<in> set (app_mods (server_state c)). ageable (app_heap (server_state c)) m" "unsent (resp c)"
    and limit: "0 \<le> mx" "mx < perDiskTimeout"
  shows "lastSampleUnix b + mx < t
    \<and> (\<forall>clk. (\<forall>i. lastSampleUnix b + mx < clk i \<and> clk i \<le> t) \<longrightarrow>
         (\<exists>c1. health_ServeHTTP begun clk mx r c = (Returned, c1) \<and> wire_status (resp c1) = Some 503))"
proof (intro conjI allI impI)
  obtain as where p: "poll_mounts k (mounts x) now st = (as, t, st1)"
    using tick(1) by (auto simp: storage_tick_at_def split: prod.splits)
  have "now + perDiskTimeout \<le> t" by (rule hung_tick_lasts [OF hung p])
  then show "lastSampleUnix b + mx < t" using tick(4) limit by simp
  fix clk :: "nat \<Rightarrow> instant" assume clk: "\<forall>i. lastSampleUnix b + mx < clk i \<and> clk i \<le> t"
  let ?ms = "app_mods (server_state c)" and ?h = "app_heap (server_state c)"
  obtain j where j: "j < length ?ms" "?ms ! j = StorageMod x" using served(1) by (auto simp: in_set_conv_nth)
  have "mx < sat64 (clk (2 * j + 1) - lastSampleUnix b)"
    using clk [rule_format, of "2 * j + 1"] limit by (simp add: sat64_def perDiskTimeout_def)
  then have "stale clk mx ?h j (?ms ! j)"
    using tick(2,3) by (simp add: j(2) stale_def age_at_def storage_LastSampleAge_def LastSampleAge_def since_def)
  then have st: "\<exists>j < length ?ms. stale clk mx ?h j (?ms ! j)" using j(1) by blast
  show "\<exists>c1. health_ServeHTTP begun clk mx r c = (Returned, c1) \<and> wire_status (resp c1) = Some 503"
    using health_answer [OF HOL.refl HOL.refl served(2-4), of begun clk mx r] unfolding if_P [OF st] by blast
qed

definition demo_kernel :: kernel where
  \<comment> \<open>the call on the network mount hangs, the one on the root answers at 12\<close>
  "demo_kernel = \<lparr>reply = (\<lambda>call. if call = 1 then Some (12, Inl ''io error'') else None), answer_first = (\<lambda>_. True)\<rparr>"

theorem storage_tick_bounded_witness:
  "\<exists>m1 t st1 s ds. storage_tick_at demo_kernel 10 (demo_storage, hung_state) = (m1, t, st1) \<and> t \<le> 10 + perDiskTimeout
    \<and> storage_Latest m1 = Ptr (Some s) \<and> Disks s = Some ds \<and> length ds = 1 \<and> Finite_Set.card (live_workers st1) \<le> 2"
proof -
  obtain m1 t st1 where tick: "storage_tick_at demo_kernel 10 (demo_storage, hung_state) = (m1, t, st1)" by (metis prod.collapse)
  have base: "storage_base demo_storage = Some (projr (NewBase storage_zero_sample second 2))" by (simp add: demo_storage_def)
  have req: "requested hung_polls \<union> mpPath ` set (mounts demo_storage) = {''/mnt/nfs'', ''/''}"
    by (auto simp: requested_def hung_polls_def demo_storage_def)
  note T = storage_tick_bounded [OF hung_run tick base, unfolded req]
  have "length (mounts demo_storage) = 1" by (simp add: demo_storage_def)
  with T obtain s ds where "t \<le> 10 + perDiskTimeout" "storage_Latest m1 = Ptr (Some s)" "Disks s = Some ds" "length ds = 1"
    by auto
  then show ?thesis using tick T by auto
qed

definition nfs_storage :: storage_module where
  \<comment> \<open>the network mount alone, last published at 5\<close>
  "nfs_storage = \<lparr>mounts = [\<lparr>mpPath = ''/mnt/nfs'', mpAlias = ''nfs'', mpDevice = ''server:/'', mpFSType = ''nfs''\<rparr>],
     storage_base = Some (Publish 5 storage_zero_sample (projr (NewBase storage_zero_sample (100 * millisecond) 2)))\<rparr>"

theorem hung_mount_degrades_health_witness:
  "\<exists>c1. health_ServeHTTP 0 (\<lambda>_. 5 + 300 * millisecond) (200 * millisecond) (get_request ''/health'' (\<lambda>_. ''''))
      (fresh_conn (demo_app [StorageMod nfs_storage] run3_heap)) = (Returned, c1)
    \<and> wire_status (resp c1) = Some 503"
proof -
  let ?c = "fresh_conn (demo_app [StorageMod nfs_storage] run3_heap)"
  obtain x1 t st1 where tick: "storage_tick_at demo_kernel 6 (nfs_storage, hung_state) = (x1, t, st1)" by (metis prod.collapse)
  have inv: "flight_inv hung_state" using hung_run disk_run_explained by blast
  have hung: "reply demo_kernel 0 = None" "inFlight hung_state ''/mnt/nfs'' = Some 0"
    "''/mnt/nfs'' \<in> mpPath ` set (mounts nfs_storage)"
    by (simp_all add: demo_kernel_def hung_state_def nfs_storage_def)
  let ?b = "Publish 5 storage_zero_sample (projr (NewBase storage_zero_sample (100 * millisecond) 2))"
  have base: "storage_base nfs_storage = Some ?b" "0 < lastSampleUnix ?b" "lastSampleUnix ?b \<le> 6"
    by (simp_all add: nfs_storage_def)
  have served: "StorageMod nfs_storage \<in> set (app_mods (server_state ?c))" "distinct (map mod_Name (app_mods (server_state ?c)))"
    "\<forall>m \<in> set (app_mods (server_state ?c)). ageable (app_heap (server_state ?c)) m" "unsent (resp ?c)"
    by (simp_all add: demo_app_def ageable_def)
  note H = hung_mount_degrades_health [OF inv hung tick base served, where mx = "200 * millisecond"]
  obtain as where p: "poll_mounts demo_kernel (mounts nfs_storage) 6 hung_state = (as, t, st1)"
    using tick by (auto simp: storage_tick_at_def split: prod.splits)
  have "6 + perDiskTimeout \<le> t" by (rule hung_tick_lasts [OF inv hung p])
  then have "lastSampleUnix ?b + 200 * millisecond < 5 + 300 * millisecond \<and> 5 + 300 * millisecond \<le> t"
    by (simp add: perDiskTimeout_def)
  then show ?thesis using H by (auto simp: perDiskTimeout_def)
qed

end
