(* ===== verification/Rate_Bound.thy ===== *)
theory Rate_Bound
  imports Rate_Limit
begin

text \<open>
  What the limiter of \<^verbatim>\<open>internal/middleware/ratelimit.go\<close> promises over a whole run: how many requests of
  one client it lets through in a stretch of time, across clean-ups and new buckets, and that a denied
  client that waits as told is served. The token bucket is still an argument; what its documentation
  says ("a token bucket of size b, initially full and refilled at rate r tokens per second", a
  reservation that reports the wait, a cancellation that gives the token back) is the predicate
  \<open>token_bucket\<close>. Everything between two calls of the bucket is the code's own.
\<close>

section \<open>The documented bucket\<close>

definition grain :: "rat \<Rightarrow> rat" where
  \<comment> \<open>what flows in during a nanosecond; delays are whole nanoseconds\<close>
  "grain q = q / of_int second"

definition answers_well ::
  "'l limiter_api \<Rightarrow> rat \<Rightarrow> ('l \<Rightarrow> instant \<Rightarrow> rat) \<Rightarrow> ('l \<Rightarrow> instant \<Rightarrow> bool) \<Rightarrow> 'l \<Rightarrow> instant \<Rightarrow> bool" where
  \<comment> \<open>a token is taken at once or promised for later, and cancelling the promise changes nothing\<close>
  "answers_well api q tok ok l t \<longleftrightarrow>
     (case Reserve api t l of (rsv, l') \<Rightarrow>
        rsv_OK rsv \<and>
        (if rsv_Delay rsv \<le> 0 then ok l' t \<and> tok l' t = tok l t - 1
         else tok l t < 1 \<and> grain q * of_int (rsv_Delay rsv) \<le> 1 - tok l t
           \<and> 1 \<le> tok l (t + rsv_Delay rsv + 1)
           \<and> ok (Cancel api t rsv l') t \<and> (\<forall>t' \<ge> t. tok (Cancel api t rsv l') t' = tok l t')))"

definition token_bucket ::
  "'l limiter_api \<Rightarrow> rat \<Rightarrow> int \<Rightarrow> ('l \<Rightarrow> instant \<Rightarrow> rat) \<Rightarrow> ('l \<Rightarrow> instant \<Rightarrow> bool) \<Rightarrow> bool" where
  \<comment> \<open>\<open>tok l t\<close>: the tokens of \<open>l\<close> at time \<open>t\<close>; \<open>ok l t\<close>: \<open>l\<close> came from the functions of the package,
     which were last called on it at \<open>t\<close> or before\<close>
  "token_bucket api q b tok ok \<longleftrightarrow>
     (\<forall>t. ok (NewLimiter api (Fin q) b) t \<and> tok (NewLimiter api (Fin q) b) t = of_int b)
     \<and> (\<forall>l t. ok l t \<longrightarrow> - grain q \<le> tok l t \<and> tok l t \<le> of_int b)
     \<and> (\<forall>l t t'. ok l t \<longrightarrow> t \<le> t' \<longrightarrow>
          ok l t' \<and> tok l t \<le> tok l t' \<and> tok l t' \<le> tok l t + grain q * of_int (t' - t))
     \<and> (\<forall>l t. ok l t \<longrightarrow> answers_well api q tok ok l t)"

lemma token_bucketD:
  assumes "token_bucket api q b tok ok"
  shows tb_new: "ok (NewLimiter api (Fin q) b) t" "tok (NewLimiter api (Fin q) b) t = of_int b"
    and tb_low: "ok l t \<Longrightarrow> - grain q \<le> tok l t" and tb_cap: "ok l t \<Longrightarrow> tok l t \<le> of_int b"
    and tb_later: "ok l t \<Longrightarrow> t \<le> t' \<Longrightarrow> ok l t'"
    and tb_mono: "ok l t \<Longrightarrow> t \<le> t' \<Longrightarrow> tok l t \<le> tok l t'"
    and tb_refill: "ok l t \<Longrightarrow> t \<le> t' \<Longrightarrow> tok l t' \<le> tok l t + grain q * of_int (t' - t)"
    and tb_answers: "ok l t \<Longrightarrow> answers_well api q tok ok l t"
  using assms by (simp_all add: token_bucket_def)

lemma tb_grant:
  assumes "token_bucket api q b tok ok" "ok l t" "Reserve api t l = (rsv, l')"
  shows "rsv_OK rsv" and "rsv_Delay rsv \<le> 0 \<Longrightarrow> ok l' t \<and> tok l' t = tok l t - 1"
    and "1 \<le> tok l t \<Longrightarrow> rsv_Delay rsv \<le> 0"
  using tb_answers [OF assms(1,2)] by (auto simp: answers_well_def assms(3) split: if_splits)

lemma tb_refuse:
  assumes "token_bucket api q b tok ok" "ok l t" "Reserve api t l = (rsv, l')" "0 < rsv_Delay rsv"
  shows "ok (Cancel api t rsv l') t" and "t \<le> t' \<Longrightarrow> tok (Cancel api t rsv l') t' = tok l t'"
    and "grain q * of_int (rsv_Delay rsv) \<le> 1 - tok l t" and "1 \<le> tok l (t + rsv_Delay rsv + 1)"
  using tb_answers [OF assms(1,2)] assms(4) by (simp_all add: answers_well_def assms(3))

section \<open>A run of requests and clean-ups\<close>

record 'l counted = "'l rate_limiter" +
  passed :: "(request \<times> instant) list"
  \<comment> \<open>the requests that reached the handler behind the limiter, newest first\<close>

definition count_pass :: "'l counted handler" where
  "count_pass r c = respond id
     (c\<lparr>server_state := (server_state c)\<lparr>passed := (r, clock_now (env c)) # passed (server_state c)\<rparr>\<rparr>)"

datatype traffic = Ask request instant | Evict instant
  \<comment> \<open>a request at a time; a tick of the clean-up loop at a time\<close>

primrec time_of :: "traffic \<Rightarrow> instant" where
  "time_of (Ask r t) = t"
| "time_of (Evict t) = t"

definition arriving :: "instant \<Rightarrow> 's \<Rightarrow> 's conn" where
  "arriving now s = (fresh_conn s)\<lparr>env := \<lparr>entropy = None, clock_now = now, elapsed = 0\<rparr>\<rparr>"

primrec play :: "'l limiter_api \<Rightarrow> rate_config \<Rightarrow> traffic \<Rightarrow> 'l counted \<Rightarrow> 'l counted" where
  "play api cfg (Ask r now) s = server_state (snd (RateLimit api cfg count_pass r (arriving now s)))"
| "play api cfg (Evict now) s = cleanup now (IdleEvictAfter (with_defaults cfg)) s"

definition no_traffic :: "'l counted" where
  "no_traffic = rate_limiter.extend new_table \<lparr>passed = []\<rparr>"

definition limited :: "rate_config \<Rightarrow> string \<Rightarrow> request \<Rightarrow> bool" where
  \<comment> \<open>the requests the client \<open>ip\<close> spends a token on\<close>
  "limited cfg ip r \<longleftrightarrow> rpath r \<notin> set (ExemptPaths cfg) \<and> rate_clientIP cfg r = ip"

definition passes :: "rate_config \<Rightarrow> string \<Rightarrow> instant \<Rightarrow> instant \<Rightarrow> 'l counted \<Rightarrow> nat" where
  \<comment> \<open>of those, how many passed from \<open>t1\<close> to \<open>t2\<close>\<close>
  "passes cfg ip t1 t2 s = length (filter (\<lambda>(r, t). limited cfg ip r \<and> t1 \<le> t \<and> t \<le> t2) (passed s))"

lemma arriving_fields [simp]:
  "server_state (arriving now s) = s" "resp (arriving now s) = fresh_writer" "clock_now (env (arriving now s)) = now"
  by (simp_all add: arriving_def)

lemma no_traffic_fields [simp]: "byIP no_traffic = Map.empty" "limiters no_traffic = []" "passed no_traffic = []"
  by (simp_all add: no_traffic_def new_table_def rate_limiter.defs)

lemma table_inv_no_traffic: "table_inv no_traffic"
  by (simp add: table_inv_def)

lemma with_defaults_fields [simp]:
  "ExemptPaths (with_defaults cfg) = ExemptPaths cfg" "RequestsPerSecond (with_defaults cfg) = RequestsPerSecond cfg"
  "Burst (with_defaults cfg) = Burst cfg" "TrustProxyHeaders (with_defaults cfg) = TrustProxyHeaders cfg"
  by (simp_all add: with_defaults_def Let_def)

lemma rate_clientIP_defaults [simp]: "rate_clientIP (with_defaults cfg) r = rate_clientIP cfg r"
  by (simp add: rate_clientIP_def)

lemma limiterFor_passed: "passed (snd (limiterFor api cfg now ip s)) = passed s"
  by (simp add: limiterFor_def Let_def split: option.splits)

lemma cleanup_passed [simp]: "passed (cleanup now idle s) = passed s"
  by (simp add: cleanup_def Let_def)

lemma passed_update [simp]:
  "table_inv (s\<lparr>passed := ps\<rparr>) = table_inv s" "client_limiter (s\<lparr>passed := ps\<rparr>) ip = client_limiter s ip"
  by (simp_all add: table_inv_def client_limiter_def)

section \<open>One event\<close>

definition bucket_of :: "'l limiter_api \<Rightarrow> rate_config \<Rightarrow> ('l, 'm) rate_limiter_scheme \<Rightarrow> string \<Rightarrow> 'l" where
  \<comment> \<open>the bucket the next request of \<open>ip\<close> is charged to\<close>
  "bucket_of api cfg s ip =
     (case client_limiter s ip of Some l \<Rightarrow> l | None \<Rightarrow> NewLimiter api (RequestsPerSecond cfg) (Burst cfg))"

lemma play_Ask:
  assumes "limits cfg" "limited cfg ip r" "table_inv s" "Reserve api now (bucket_of api cfg s ip) = (rsv, l)" "rsv_OK rsv"
  obtains i s1 where
    "RateLimit api cfg count_pass r (arriving now s) =
       (if 0 < rsv_Delay rsv
        then respond (\<lambda>w. rate_deny (header_set ''Retry-After'' (Itoa (int_Seconds (rsv_Delay rsv) + 1)) w))
               (arriving now (s1\<lparr>limiters := (limiters s1)[i := Cancel api now rsv l]\<rparr>))
        else count_pass r (arriving now (s1\<lparr>limiters := (limiters s1)[i := l]\<rparr>)))"
    "passed s1 = passed s" "\<And>b. table_inv (s1\<lparr>limiters := (limiters s1)[i := b]\<rparr>)"
    "byIP s1 ip = Some \<lparr>lim_ptr = i, lastSeen = now\<rparr>"
    "\<And>b. client_limiter (s1\<lparr>limiters := (limiters s1)[i := b]\<rparr>) ip = Some b"
    "\<And>b ip'. ip' \<noteq> ip \<Longrightarrow> byIP s1 ip' = byIP s ip'
       \<and> client_limiter (s1\<lparr>limiters := (limiters s1)[i := b]\<rparr>) ip' = client_limiter s ip'"
proof -
  let ?cfg = "with_defaults cfg"
  have ip: "rate_clientIP cfg r = ip" and ex: "rpath r \<notin> set (ExemptPaths cfg)"
    using assms(2) by (simp_all add: limited_def)
  obtain i s1 where lf: "limiterFor api ?cfg now ip s = (i, s1)" by (cases "limiterFor api ?cfg now ip s")
  note P = limiterFor_props [OF assms(3) lf]
  have b: "limiters s1 ! i = bucket_of api cfg s ip"
    using P by (cases "client_limiter s ip") (simp_all add: bucket_of_def)
  have e: "byIP s1 ip = Some \<lparr>lim_ptr = i, lastSeen = now\<rparr>" using P by blast
  show ?thesis
  proof (rule that [of s1 i])
    show "RateLimit api cfg count_pass r (arriving now s) =
       (if 0 < rsv_Delay rsv
        then respond (\<lambda>w. rate_deny (header_set ''Retry-After'' (Itoa (int_Seconds (rsv_Delay rsv) + 1)) w))
               (arriving now (s1\<lparr>limiters := (limiters s1)[i := Cancel api now rsv l]\<rparr>))
        else count_pass r (arriving now (s1\<lparr>limiters := (limiters s1)[i := l]\<rparr>)))"
      using assms(1,4,5) by (simp add: RateLimit_def Let_def ip ex lf b) (simp add: arriving_def fresh_conn_def)
    show "passed s1 = passed s" using limiterFor_passed [of api ?cfg now ip s] by (simp add: lf)
    show "table_inv (s1\<lparr>limiters := (limiters s1)[i := b]\<rparr>)" for b using P by (simp add: table_inv_update)
    show "byIP s1 ip = Some \<lparr>lim_ptr = i, lastSeen = now\<rparr>" by (rule e)
    show "client_limiter (s1\<lparr>limiters := (limiters s1)[i := b]\<rparr>) ip = Some b" for b
      using P by (simp add: client_limiter_def)
    show "byIP s1 ip' = byIP s ip' \<and> client_limiter (s1\<lparr>limiters := (limiters s1)[i := b]\<rparr>) ip' = client_limiter s ip'"
      if "ip' \<noteq> ip" for b ip'
      using P that client_limiter_update [of s1 ip' i b] by auto
  qed
qed


definition healthy ::
  "'l limiter_api \<Rightarrow> rate_config \<Rightarrow> ('l \<Rightarrow> instant \<Rightarrow> bool) \<Rightarrow> instant \<Rightarrow> 'l counted \<Rightarrow> bool" where
  "healthy api cfg ok now s \<longleftrightarrow> table_inv s \<and> (\<forall>ip. ok (bucket_of api cfg s ip) now)"

lemma healthy_later:
  "token_bucket api q b tok ok \<Longrightarrow> healthy api cfg ok t s \<Longrightarrow> t \<le> t' \<Longrightarrow> healthy api cfg ok t' s"
  using tb_later by (fastforce simp: healthy_def)

definition spends :: "rate_config \<Rightarrow> string \<Rightarrow> traffic \<Rightarrow> bool" where
  "spends cfg ip e \<longleftrightarrow> (\<exists>r now. e = Ask r now \<and> limited cfg ip r)"

lemma bucket_of_eqI: "client_limiter s ip = client_limiter s' ip \<Longrightarrow> bucket_of api cfg s ip = bucket_of api cfg s' ip"
  by (simp add: bucket_of_def)

lemma play_exempt:
  "rpath r \<in> set (ExemptPaths cfg) \<Longrightarrow> limits cfg \<Longrightarrow>
     play api cfg (Ask r now) s = s\<lparr>passed := (r, now) # passed s\<rparr>"
  by (simp add: RateLimit_def Let_def count_pass_def respond_def on_resp_def)

text \<open>A request of a client at its own bucket: it is charged one token, or turned away for free.\<close>

lemma play_own:
  fixes now :: instant
  assumes tb: "token_bucket api q b tok ok" and cfg: "limits cfg" and r: "limited cfg ip r"
    and s: "healthy api cfg ok now s"
  defines "s1 \<equiv> play api cfg (Ask r now) s"
  shows "table_inv s1" "\<exists>i. byIP s1 ip = Some \<lparr>lim_ptr = i, lastSeen = now\<rparr>" "ok (bucket_of api cfg s1 ip) now"
    and "passed s1 = (r, now) # passed s \<and> tok (bucket_of api cfg s1 ip) now = tok (bucket_of api cfg s ip) now - 1
       \<or> passed s1 = passed s \<and> tok (bucket_of api cfg s ip) now < 1
          \<and> (\<forall>t \<ge> now. tok (bucket_of api cfg s1 ip) t = tok (bucket_of api cfg s ip) t)"
    and "ip' \<noteq> ip \<Longrightarrow> byIP s1 ip' = byIP s ip' \<and> bucket_of api cfg s1 ip' = bucket_of api cfg s ip'"
proof -
  obtain rsv l where rs: "Reserve api now (bucket_of api cfg s ip) = (rsv, l)"
    by (cases "Reserve api now (bucket_of api cfg s ip)")
  have inv: "table_inv s" and ok: "ok (bucket_of api cfg s ip) now" using s by (simp_all add: healthy_def)
  note grant = tb_grant [OF tb ok rs] and refuse = tb_refuse [OF tb ok rs]
  obtain i s2 where P: "RateLimit api cfg count_pass r (arriving now s) =
       (if 0 < rsv_Delay rsv
        then respond (\<lambda>w. rate_deny (header_set ''Retry-After'' (Itoa (int_Seconds (rsv_Delay rsv) + 1)) w))
               (arriving now (s2\<lparr>limiters := (limiters s2)[i := Cancel api now rsv l]\<rparr>))
        else count_pass r (arriving now (s2\<lparr>limiters := (limiters s2)[i := l]\<rparr>)))"
    and Q: "passed s2 = passed s" "\<And>b. table_inv (s2\<lparr>limiters := (limiters s2)[i := b]\<rparr>)"
      "byIP s2 ip = Some \<lparr>lim_ptr = i, lastSeen = now\<rparr>"
      "\<And>b. client_limiter (s2\<lparr>limiters := (limiters s2)[i := b]\<rparr>) ip = Some b"
      "\<And>b ip'. ip' \<noteq> ip \<Longrightarrow> byIP s2 ip' = byIP s ip'
         \<and> client_limiter (s2\<lparr>limiters := (limiters s2)[i := b]\<rparr>) ip' = client_limiter s ip'"
    by (rule play_Ask [OF cfg r inv rs grant(1)]) blast
  define l' where "l' = (if 0 < rsv_Delay rsv then Cancel api now rsv l else l)"
  have s1: "byIP s1 = byIP s2" "table_inv s1"
      "client_limiter s1 = client_limiter (s2\<lparr>limiters := (limiters s2)[i := l']\<rparr>)"
      "passed s1 = (if 0 < rsv_Delay rsv then passed s2 else (r, now) # passed s2)"
    using Q(2) by (auto simp: s1_def P l'_def respond_def count_pass_def on_resp_def fun_eq_iff)
  have empty: "tok (bucket_of api cfg s ip) now < 1" if "0 < rsv_Delay rsv" using grant(3) that by force
  have own: "bucket_of api cfg s1 ip = l'" by (simp add: bucket_of_def s1(3) Q(4))
  show "table_inv s1" by (rule s1(2))
  show "\<exists>i. byIP s1 ip = Some \<lparr>lim_ptr = i, lastSeen = now\<rparr>" using Q(3) by (simp add: s1(1))
  show "ok (bucket_of api cfg s1 ip) now"
    using grant(2) refuse(1) by (simp add: own l'_def)
  show "passed s1 = (r, now) # passed s \<and> tok (bucket_of api cfg s1 ip) now = tok (bucket_of api cfg s ip) now - 1
       \<or> passed s1 = passed s \<and> tok (bucket_of api cfg s ip) now < 1
          \<and> (\<forall>t \<ge> now. tok (bucket_of api cfg s1 ip) t = tok (bucket_of api cfg s ip) t)"
    using grant(2) refuse(2) empty by (cases "rsv_Delay rsv \<le> 0") (auto simp: own l'_def s1(4) Q(1))
  show "byIP s1 ip' = byIP s ip' \<and> bucket_of api cfg s1 ip' = bucket_of api cfg s ip'" if "ip' \<noteq> ip"
    using Q(5) [OF that] by (simp add: s1(1) bucket_of_def s1(3))
qed

text \<open>A clean-up drops a client or leaves it alone; either way its next bucket is a good one.\<close>

lemma bucket_of_cleanup:
  "bucket_of api cfg (cleanup now idle s) ip =
     (if byIP (cleanup now idle s) ip = None then NewLimiter api (RequestsPerSecond cfg) (Burst cfg)
      else bucket_of api cfg s ip)"
proof (cases "byIP (cleanup now idle s) ip")
  case (Some e)
  then have "byIP s ip = Some e" by (simp add: cleanup_byIP)
  then show ?thesis using Some by (simp add: bucket_of_def client_limiter_def)
qed (simp add: bucket_of_def client_limiter_def)

lemma healthy_play:
  assumes tb: "token_bucket api q b tok ok" and cfg: "limits cfg" "RequestsPerSecond cfg = Fin q" "Burst cfg = b"
    and s: "healthy api cfg ok (time_of e) s"
  shows "healthy api cfg ok (time_of e) (play api cfg e s)"
proof (cases e)
  case (Ask r now)
  then have s: "healthy api cfg ok now s" using s by simp
  show ?thesis
  proof (cases "rpath r \<in> set (ExemptPaths cfg)")
    case True
    then show ?thesis
      using s by (simp add: Ask play_exempt [OF True cfg(1)] healthy_def bucket_of_def del: play.simps)
  next
    case False
    then have l: "limited cfg (rate_clientIP cfg r) r" by (simp add: limited_def)
    note P = play_own [OF tb cfg(1) l s]
    show ?thesis
      using P(1,3) P(5) s unfolding healthy_def Ask time_of.simps by metis
  qed
next
  case (Evict now)
  then show ?thesis
    using s tb_new(1) [OF tb] cfg(2,3) table_inv_cleanup by (auto simp: healthy_def bucket_of_cleanup)
qed

lemma healthy_plays:
  assumes "token_bucket api q b tok ok" "limits cfg" "RequestsPerSecond cfg = Fin q" "Burst cfg = b"
  shows "healthy api cfg ok t0 s \<Longrightarrow> sorted (t0 # map time_of es @ [t]) \<Longrightarrow>
    healthy api cfg ok t (fold (play api cfg) es s)"
proof (induction es arbitrary: s t0)
  case (Cons e es)
  have "healthy api cfg ok (time_of e) (play api cfg e s)"
    using Cons.prems by (intro healthy_play [OF assms] healthy_later [OF assms(1) Cons.prems(1)]) simp_all
  then show ?case using Cons by (simp del: play.simps)
qed (simp add: healthy_later [OF assms(1)])

lemma healthy_no_traffic:
  "token_bucket api q b tok ok \<Longrightarrow> RequestsPerSecond cfg = Fin q \<Longrightarrow> Burst cfg = b \<Longrightarrow> healthy api cfg ok t no_traffic"
  by (simp add: healthy_def table_inv_no_traffic bucket_of_def client_limiter_def tb_new)

lemma play_others:
  fixes now :: instant
  assumes tb: "token_bucket api q b tok ok" and cfg: "limits cfg" and s: "healthy api cfg ok now s"
    and e: "\<not> spends cfg ip (Ask r now)"
  shows "byIP (play api cfg (Ask r now) s) ip = byIP s ip"
    "bucket_of api cfg (play api cfg (Ask r now) s) ip = bucket_of api cfg s ip"
proof -
  have "byIP (play api cfg (Ask r now) s) ip = byIP s ip
    \<and> bucket_of api cfg (play api cfg (Ask r now) s) ip = bucket_of api cfg s ip"
  proof (cases "rpath r \<in> set (ExemptPaths cfg)")
    case True
    then show ?thesis by (simp add: play_exempt [OF True cfg] bucket_of_def del: play.simps)
  next
    case False
    then have l: "limited cfg (rate_clientIP cfg r) r" and "ip \<noteq> rate_clientIP cfg r"
      using e by (auto simp: limited_def spends_def)
    then show ?thesis using play_own(5) [OF tb cfg l s] by blast
  qed
  then show "byIP (play api cfg (Ask r now) s) ip = byIP s ip"
    "bucket_of api cfg (play api cfg (Ask r now) s) ip = bucket_of api cfg s ip" by simp_all
qed


section \<open>The budget of a client\<close>

definition spent :: "rate_config \<Rightarrow> string \<Rightarrow> instant \<Rightarrow> 'l counted \<Rightarrow> nat" where
  "spent cfg ip t1 s = length (filter (\<lambda>(r, t). limited cfg ip r \<and> t1 \<le> t) (passed s))"

text \<open>
  The passes since \<open>t1\<close> and the tokens left never exceed the burst and what flowed in since; an entry
  old enough to be dropped has, with what flowed in meanwhile, paid for the full bucket that replaces it.
\<close>

definition in_budget ::
  "'l limiter_api \<Rightarrow> rate_config \<Rightarrow> rat \<Rightarrow> int \<Rightarrow> ('l \<Rightarrow> instant \<Rightarrow> rat) \<Rightarrow> string \<Rightarrow> instant \<Rightarrow> instant
     \<Rightarrow> 'l counted \<Rightarrow> bool" where
  "in_budget api cfg q b tok ip t1 now s \<longleftrightarrow>
     (\<forall>t \<ge> now. t1 \<le> t \<longrightarrow>
        of_nat (spent cfg ip t1 s) + tok (bucket_of api cfg s ip) t \<le> of_int b + grain q * of_int (t - t1))
     \<and> (now < t1 \<longrightarrow> spent cfg ip t1 s = 0)
     \<and> (case byIP s ip of None \<Rightarrow> True
        | Some e \<Rightarrow> lastSeen e \<le> now \<and> (spent cfg ip t1 s = 0 \<or> t1 \<le> lastSeen e
            \<and> of_nat (spent cfg ip t1 s) \<le> of_int b + grain q * of_int (lastSeen e + 1 - t1)))"

lemma in_budget_later:
  "in_budget api cfg q b tok ip t1 t s \<Longrightarrow> t \<le> t' \<Longrightarrow> in_budget api cfg q b tok ip t1 t' s"
  unfolding in_budget_def by (fastforce split: option.splits)

lemma in_budget_cong:
  "byIP s' ip = byIP s ip \<Longrightarrow> bucket_of api cfg s' ip = bucket_of api cfg s ip \<Longrightarrow> spent cfg ip t1 s' = spent cfg ip t1 s \<Longrightarrow>
     in_budget api cfg q b tok ip t1 now s' = in_budget api cfg q b tok ip t1 now s"
  unfolding in_budget_def by (simp only:)

lemma spent_Cons:
  "passed s' = (r, now) # passed s \<Longrightarrow>
     spent cfg ip t1 s' = spent cfg ip t1 s + (if limited cfg ip r \<and> t1 \<le> now then 1 else 0)"
  by (simp add: spent_def)

lemma spent_same: "passed s' = passed s \<Longrightarrow> spent cfg ip t1 s' = spent cfg ip t1 s"
  by (simp add: spent_def)

lemma passed_play_Ask:
  fixes now :: instant
  assumes "token_bucket api q b tok ok" "limits cfg" "healthy api cfg ok now s"
  shows "passed (play api cfg (Ask r now) s) \<in> {passed s, (r, now) # passed s}"
proof (cases "rpath r \<in> set (ExemptPaths cfg)")
  case True
  then show ?thesis by (simp add: play_exempt [OF True assms(2)] del: play.simps)
next
  case False
  then have l: "limited cfg (rate_clientIP cfg r) r" by (simp add: limited_def)
  show ?thesis using play_own(4) [OF assms(1,2) l assms(3)] by blast
qed

lemma in_budget_own:
  assumes tb: "token_bucket api q b tok ok" and cfg: "limits cfg" and l: "limited cfg ip r"
    and s: "healthy api cfg ok now s" and now: "in_budget api cfg q b tok ip t1 now s" and q: "0 \<le> grain q"
  shows "in_budget api cfg q b tok ip t1 now (play api cfg (Ask r now) s)"
proof -
  let ?s = "play api cfg (Ask r now) s"
  let ?l = "bucket_of api cfg s ip" and ?l' = "bucket_of api cfg ?s ip"
  note P = play_own [OF tb cfg l s]
  obtain i where e: "byIP ?s ip = Some \<lparr>lim_ptr = i, lastSeen = now\<rparr>" using P(2) by blast
  have before: "of_nat (spent cfg ip t1 s) + tok ?l t \<le> of_int b + grain q * of_int (t - t1)" if "now \<le> t" "t1 \<le> t" for t
    using now that by (simp add: in_budget_def)
  have none: "spent cfg ip t1 s = 0" if "now < t1" using now that by (simp add: in_budget_def)
  have zero: "spent cfg ip t1 ?s = 0" if "now < t1"
    using P(4)
  proof (elim disjE conjE)
    assume "passed ?s = (r, now) # passed s"
    from spent_Cons [OF this, of cfg ip t1] show ?thesis using none that by simp
  next
    assume "passed ?s = passed s"
    from spent_same [OF this, of cfg ip t1] show ?thesis using none that by simp
  qed
  have step: "of_nat (spent cfg ip t1 ?s) + tok ?l' t \<le> of_int b + grain q * of_int (t - t1)"
    if t: "now \<le> t" "t1 \<le> t" for t
  proof (cases "now < t1")
    case True
    have "0 \<le> grain q * of_int (t - t1)" using q t by simp
    then show ?thesis using zero [OF True] tb_cap [OF tb tb_later [OF tb P(3) t(1)]] by simp
  next
    case False
    from P(4) show ?thesis
    proof
      assume g: "passed ?s = (r, now) # passed s \<and> tok ?l' now = tok ?l now - 1"
      have "of_nat (spent cfg ip t1 ?s) = (of_nat (spent cfg ip t1 s) + 1 :: rat)"
        using False l g by (simp add: spent_Cons [of ?s r now s] del: play.simps)
      moreover have "tok ?l' t \<le> tok ?l now - 1 + grain q * of_int (t - now)"
        using tb_refill [OF tb P(3) t(1)] g by simp
      moreover have "of_nat (spent cfg ip t1 s) + tok ?l now \<le> of_int b + grain q * of_int (now - t1)"
        using before [of now] False by simp
      ultimately show ?thesis by (simp add: algebra_simps)
    next
      assume "passed ?s = passed s \<and> tok ?l now < 1 \<and> (\<forall>t \<ge> now. tok ?l' t = tok ?l t)"
      then show ?thesis using before [OF t] t by (simp add: spent_same [of ?s s] del: play.simps)
    qed
  qed
  have "spent cfg ip t1 ?s = 0 \<or> t1 \<le> now \<and> of_nat (spent cfg ip t1 ?s) \<le> of_int b + grain q * of_int (now + 1 - t1)"
    using zero step [of now] tb_low [OF tb P(3)] by (fastforce simp: algebra_simps simp del: play.simps)
  then show ?thesis
    using zero step by (simp add: in_budget_def e del: play.simps)
qed

lemma cleanup_drops: "byIP (cleanup now idle s) ip = None \<or> byIP (cleanup now idle s) ip = byIP s ip"
  by (simp add: cleanup_def Let_def split: option.split)

lemma in_budget_evict:
  assumes tb: "token_bucket api q b tok ok" and cfg: "RequestsPerSecond cfg = Fin q" "Burst cfg = b"
    and now: "in_budget api cfg q b tok ip t1 now s" and q: "0 \<le> grain q"
    and b: "of_int b \<le> grain q * of_int idle"
  shows "in_budget api cfg q b tok ip t1 now (cleanup now idle s)"
proof (cases "\<exists>e. byIP s ip = Some e \<and> byIP (cleanup now idle s) ip = None")
  case True
  then obtain e where e: "byIP s ip = Some e" "byIP (cleanup now idle s) ip = None" by blast
  then have old: "lastSeen e + 1 \<le> now - idle"
    using cleanup_byIP [of now idle s ip e] by auto
  have sp: "spent cfg ip t1 s = 0 \<or> t1 \<le> lastSeen e
      \<and> of_nat (spent cfg ip t1 s) \<le> of_int b + grain q * of_int (lastSeen e + 1 - t1)"
    and none: "now < t1 \<longrightarrow> spent cfg ip t1 s = 0"
    using now e(1) by (simp_all add: in_budget_def)
  have "of_nat (spent cfg ip t1 s) \<le> grain q * of_int (t - t1)" if t: "now \<le> t" "t1 \<le> t" for t
  proof (cases "spent cfg ip t1 s = 0")
    case False
    then have "of_nat (spent cfg ip t1 s) \<le> of_int b + grain q * of_int (lastSeen e + 1 - t1)" using sp by simp
    also have "\<dots> \<le> grain q * of_int (idle + (lastSeen e + 1 - t1))" using b by (simp add: algebra_simps)
    also have "\<dots> \<le> grain q * of_int (t - t1)"
      using old t by (intro mult_left_mono q) (simp only: of_int_le_iff)
    finally show ?thesis .
  qed (use q t in simp)
  then show ?thesis
    using none by (auto simp: in_budget_def e bucket_of_cleanup cfg tb_new [OF tb] spent_same [of "cleanup now idle s" s])
next
  case False
  then have same: "byIP (cleanup now idle s) ip = byIP s ip"
    using cleanup_drops [of now idle s ip] by (cases "byIP s ip") auto
  have "bucket_of api cfg (cleanup now idle s) ip = bucket_of api cfg s ip"
    by (simp add: bucket_of_def client_limiter_def same)
  then show ?thesis
    using now in_budget_cong [OF same _ spent_same] by simp
qed


lemma limits_positive: "limits cfg \<Longrightarrow> RequestsPerSecond cfg = Fin q \<Longrightarrow> Burst cfg = b \<Longrightarrow> 0 < q \<and> 0 < b"
  by (auto simp: limits_def f64_le_def)

lemma in_budget_play:
  assumes tb: "token_bucket api q b tok ok" and cfg: "limits cfg" "RequestsPerSecond cfg = Fin q" "Burst cfg = b"
    and b: "of_int b \<le> grain q * of_int (IdleEvictAfter (with_defaults cfg))"
    and s: "healthy api cfg ok (time_of e) s" and now: "in_budget api cfg q b tok ip t1 (time_of e) s"
  shows "in_budget api cfg q b tok ip t1 (time_of e) (play api cfg e s)"
proof -
  have q: "0 \<le> grain q" using limits_positive [OF cfg] by (simp add: grain_def)
  show ?thesis
  proof (cases e)
    case (Evict t)
    then show ?thesis using in_budget_evict [OF tb cfg(2,3) _ q b] now by simp
  next
    case (Ask r t)
    have t: "in_budget api cfg q b tok ip t1 t s" and s: "healthy api cfg ok t s" using now s Ask by simp_all
    show ?thesis
    proof (cases "limited cfg ip r")
      case True
      then show ?thesis using in_budget_own [OF tb cfg(1) True s t q] by (simp add: Ask del: play.simps)
    next
      case False
      then have f: "\<not> spends cfg ip (Ask r t)" by (simp add: spends_def)
      note same = play_others [OF tb cfg(1) s f]
      have "spent cfg ip t1 (play api cfg (Ask r t) s) = spent cfg ip t1 s"
        using passed_play_Ask [OF tb cfg(1) s, of r] False by (auto simp: spent_def simp del: play.simps)
      then show ?thesis using in_budget_cong [OF same] t by (simp add: Ask del: play.simps)
    qed
  qed
qed

lemma in_budget_plays:
  assumes tb: "token_bucket api q b tok ok" and cfg: "limits cfg" "RequestsPerSecond cfg = Fin q" "Burst cfg = b"
    and b: "of_int b \<le> grain q * of_int (IdleEvictAfter (with_defaults cfg))"
  shows "healthy api cfg ok t0 s \<Longrightarrow> in_budget api cfg q b tok ip t1 t0 s \<Longrightarrow> sorted (t0 # map time_of es @ [t2]) \<Longrightarrow>
    in_budget api cfg q b tok ip t1 t2 (fold (play api cfg) es s)"
proof (induction es arbitrary: s t0)
  case (Cons e es)
  have now: "healthy api cfg ok (time_of e) s"
    using Cons.prems by (intro healthy_later [OF tb Cons.prems(1)]) simp
  have "in_budget api cfg q b tok ip t1 (time_of e) (play api cfg e s)"
    using Cons.prems by (intro in_budget_play [OF assms now] in_budget_later [OF Cons.prems(2)]) simp
  then show ?case
    using Cons healthy_play [OF tb cfg now] by (simp del: play.simps)
qed (simp add: in_budget_later)

text \<open>Requests after a time are not passes before it.\<close>

lemma passed_play:
  assumes "token_bucket api q b tok ok" "limits cfg" "healthy api cfg ok (time_of e) s"
  shows "\<exists>ps. passed (play api cfg e s) = ps @ passed s \<and> snd ` set ps \<subseteq> {time_of e}"
proof (cases e)
  case (Ask r now)
  then have "healthy api cfg ok now s" using assms(3) by simp
  from passed_play_Ask [OF assms(1,2) this, of r] show ?thesis
  proof (elim insertE emptyE)
    assume "passed (play api cfg (Ask r now) s) = passed s"
    then show ?thesis by (intro exI [of _ "[]"]) (simp add: Ask del: play.simps)
  next
    assume "passed (play api cfg (Ask r now) s) = (r, now) # passed s"
    then show ?thesis by (intro exI [of _ "[(r, now)]"]) (simp add: Ask del: play.simps)
  qed
qed simp

lemma passed_plays:
  assumes "token_bucket api q b tok ok" "limits cfg" "RequestsPerSecond cfg = Fin q" "Burst cfg = b"
  shows "healthy api cfg ok t s \<Longrightarrow> sorted (t # map time_of es) \<Longrightarrow>
    \<exists>ps. passed (fold (play api cfg) es s) = ps @ passed s \<and> snd ` set ps \<subseteq> time_of ` set es"
proof (induction es arbitrary: s t)
  case (Cons e es)
  have now: "healthy api cfg ok (time_of e) s"
    using Cons.prems by (intro healthy_later [OF assms(1) Cons.prems(1)]) simp
  obtain qs where q: "passed (play api cfg e s) = qs @ passed s" "snd ` set qs \<subseteq> {time_of e}"
    using passed_play [OF assms(1,2) now] by blast
  obtain ps where "passed (fold (play api cfg) (e # es) s) = ps @ passed (play api cfg e s)"
      "snd ` set ps \<subseteq> time_of ` set es"
    using Cons.IH [OF healthy_play [OF assms now]] Cons.prems(2) by auto
  then show ?case using q by (intro exI [of _ "ps @ qs"]) auto
qed simp

lemma passes_later:
  assumes "passed s' = ps @ passed s" "\<forall>t \<in> snd ` set ps. t2 < t"
  shows "passes cfg ip t1 t2 s' = passes cfg ip t1 t2 s"
proof -
  have "filter (\<lambda>(r, t). limited cfg ip r \<and> t1 \<le> t \<and> t \<le> t2) ps = []"
    using assms(2) by (force simp: filter_empty_conv)
  then show ?thesis by (simp add: passes_def assms(1))
qed

lemma passes_le_spent: "passes cfg ip t1 t2 s \<le> spent cfg ip t1 s"
proof -
  have "filter (\<lambda>(r, t). limited cfg ip r \<and> t1 \<le> t \<and> t \<le> t2) (passed s)
      = filter (\<lambda>(r, t). t \<le> t2) (filter (\<lambda>(r, t). limited cfg ip r \<and> t1 \<le> t) (passed s))"
    unfolding filter_filter by (rule filter_cong) auto
  then show ?thesis unfolding passes_def spent_def by (simp only: length_filter_le)
qed

lemma sorted_split_at:
  fixes f :: "'a \<Rightarrow> 'b :: linorder"
  shows "sorted (map f xs) \<Longrightarrow> \<exists>ys zs. xs = ys @ zs \<and> (\<forall>y \<in> set ys. f y \<le> t) \<and> (\<forall>z \<in> set zs. t < f z)"
proof (induction xs)
  case (Cons x xs)
  show ?case
  proof (cases "f x \<le> t")
    case True
    obtain ys zs where "xs = ys @ zs" "\<forall>y \<in> set ys. f y \<le> t" "\<forall>z \<in> set zs. t < f z" using Cons by auto
    then show ?thesis using True by (intro exI [of _ "x # ys"] exI [of _ zs]) simp
  next
    case False
    then have "\<forall>z \<in> set (x # xs). t < f z" using Cons.prems by fastforce
    then show ?thesis by (intro exI [of _ "[]"] exI [of _ "x # xs"]) simp
  qed
qed simp

section \<open>Properties\<close>

text \<open>
  Whatever requests and clean-ups arrive, in order of time, a client gets at most its burst and
  what the bucket refills through the limiter in any stretch of time, also across clean-ups
  that forget it, provided the idle time before a clean-up forgets a client is long enough to refill
  its bucket.
\<close>

theorem rate_is_bounded:
  assumes tb: "token_bucket api q b tok ok"
    and cfg: "limits cfg" "RequestsPerSecond cfg = Fin q" "Burst cfg = b"
    and idle: "of_int b * of_int second \<le> q * of_int (IdleEvictAfter (with_defaults cfg))"
    and es: "sorted (map time_of es)" and "t1 \<le> t2"
  shows "of_nat (passes cfg ip t1 t2 (fold (play api cfg) es no_traffic))
    \<le> of_int b + q * of_int (t2 - t1 + 1) / of_int second"
proof -
  obtain es1 es2 where split: "es = es1 @ es2" "\<forall>e \<in> set es1. time_of e \<le> t2" "\<forall>e \<in> set es2. t2 < time_of e"
    using sorted_split_at [OF es] by blast
  let ?s1 = "fold (play api cfg) es1 no_traffic"
  define t0 where "t0 = (case es1 of [] \<Rightarrow> t2 | e # _ \<Rightarrow> time_of e)"
  have order: "sorted (t0 # map time_of es1 @ [t2])"
    using es split(2) by (auto simp: split(1) t0_def sorted_append split: list.split)
  note h0 = healthy_no_traffic [OF tb cfg(2,3)]
  have h: "healthy api cfg ok t2 ?s1" by (rule healthy_plays [OF tb cfg h0 order])
  have "sorted (t2 # map time_of es2)" using es split(3) by (auto simp: split(1) sorted_append)
  then obtain ps where "passed (fold (play api cfg) es2 ?s1) = ps @ passed ?s1" "snd ` set ps \<subseteq> time_of ` set es2"
    using passed_plays [OF tb cfg h] by blast
  then have early: "passes cfg ip t1 t2 (fold (play api cfg) es no_traffic) = passes cfg ip t1 t2 ?s1"
    using split(3) unfolding split(1) fold_append o_apply by (intro passes_later) auto
  have b: "of_int b \<le> grain q * of_int (IdleEvictAfter (with_defaults cfg))"
    using idle by (simp add: grain_def)
  have "in_budget api cfg q b tok ip t1 t0 no_traffic"
    using limits_positive [OF cfg]
    by (simp add: in_budget_def spent_def bucket_of_def client_limiter_def cfg tb_new [OF tb] grain_def)
  then have "in_budget api cfg q b tok ip t1 t2 ?s1"
    by (rule in_budget_plays [OF tb cfg b h0 _ order])
  then have "of_nat (spent cfg ip t1 ?s1) + tok (bucket_of api cfg ?s1 ip) t2 \<le> of_int b + grain q * of_int (t2 - t1)"
    using assms(7) by (simp add: in_budget_def)
  moreover have "- grain q \<le> tok (bucket_of api cfg ?s1 ip) t2"
    using h by (intro tb_low [OF tb]) (simp add: healthy_def)
  ultimately have "of_nat (spent cfg ip t1 ?s1) \<le> of_int b + grain q * of_int (t2 - t1 + 1)"
    by (simp add: algebra_simps)
  moreover have "of_nat (passes cfg ip t1 t2 ?s1) \<le> (of_nat (spent cfg ip t1 ?s1) :: rat)"
    by (simp add: passes_le_spent)
  ultimately show ?thesis by (simp add: early grain_def)
qed


text \<open>A client whose bucket holds a token at a later time is served then, whatever happens in between.\<close>

lemma ready_play:
  assumes tb: "token_bucket api q b tok ok" and cfg: "limits cfg" "RequestsPerSecond cfg = Fin q" "Burst cfg = b"
    and s: "healthy api cfg ok (time_of e) s" and e: "\<not> spends cfg ip e" and ready: "1 \<le> tok (bucket_of api cfg s ip) t"
  shows "1 \<le> tok (bucket_of api cfg (play api cfg e s) ip) t"
proof (cases e)
  case (Ask r now)
  then show ?thesis
    using play_others(2) [OF tb cfg(1), of now s ip r] s e ready by (simp del: play.simps)
next
  case (Evict now)
  then show ?thesis
    using ready limits_positive [OF cfg] by (simp add: bucket_of_cleanup cfg tb_new [OF tb])
qed

lemma ready_plays:
  assumes tb: "token_bucket api q b tok ok" and cfg: "limits cfg" "RequestsPerSecond cfg = Fin q" "Burst cfg = b"
  shows "healthy api cfg ok t0 s \<Longrightarrow> sorted (t0 # map time_of es @ [t]) \<Longrightarrow> \<forall>e \<in> set es. \<not> spends cfg ip e \<Longrightarrow>
    1 \<le> tok (bucket_of api cfg s ip) t \<Longrightarrow> 1 \<le> tok (bucket_of api cfg (fold (play api cfg) es s) ip) t"
proof (induction es arbitrary: s t0)
  case (Cons e es)
  have now: "healthy api cfg ok (time_of e) s"
    using Cons.prems by (intro healthy_later [OF tb Cons.prems(1)]) simp
  show ?case
    using Cons ready_play [OF tb cfg now] healthy_play [OF tb cfg now] by (simp del: play.simps)
qed simp

lemma ready_served:
  assumes tb: "token_bucket api q b tok ok" and cfg: "limits cfg" "RequestsPerSecond cfg = Fin q" "Burst cfg = b"
    and s: "healthy api cfg ok t0 s" and es: "sorted (t0 # map time_of es @ [t])" "\<forall>e \<in> set es. \<not> spends cfg ip e"
    and ready: "1 \<le> tok (bucket_of api cfg s ip) t" and r: "limited cfg ip r"
  shows "passed (fold (play api cfg) (es @ [Ask r t]) s) = (r, t) # passed (fold (play api cfg) es s)"
  using ready_plays [OF tb cfg s es ready] play_own(4) [OF tb cfg(1) r healthy_plays [OF tb cfg s es(1)]]
  by (auto simp del: play.simps)

lemma Retry_After_waits_enough:
  assumes tb: "token_bucket api q b tok ok" and l: "ok l t" "Reserve api t l = (rsv, l')" "0 < rsv_Delay rsv"
    and q: "1 / 8000000 \<le> q"
  shows "rsv_Delay rsv < (int_Seconds (rsv_Delay rsv) + 1) * second"
proof -
  let ?d = "rsv_Delay rsv"
  have "grain q * of_int ?d \<le> 1 + grain q"
    using tb_refuse(3) [OF tb l] tb_low [OF tb l(1)] by simp
  then have "q * of_int ?d \<le> of_int second + q" by (simp add: grain_def field_simps)
  then have "q * (of_int ?d - 1) \<le> of_int second" by (simp add: algebra_simps)
  moreover have "1 / 8000000 * (of_int ?d - 1) \<le> q * (of_int ?d - 1)" using q l(3) by (intro mult_right_mono) simp_all
  ultimately have "(of_int ?d :: rat) \<le> of_int (8000000 * second + 1)" by simp
  then have "?d \<le> 8000000 * second + 1" by (simp only: of_int_le_iff)
  then have "int_Seconds ?d = ?d div second" using l(3) by (intro int_Seconds_exact) simp_all
  then show ?thesis by simp
qed


text \<open>
  C30. A client that is turned away and comes back, not before the seconds it was told have passed and
  without asking in between, is served then, whatever the other clients and the clean-up did meanwhile.
  The rate must be at least one token per 8,000,000 seconds, so that the seconds are computed exactly.
\<close>

theorem denied_client_is_served_later:
  assumes tb: "token_bucket api q b tok ok"
    and cfg: "limits cfg" "RequestsPerSecond cfg = Fin q" "Burst cfg = b" and q: "1 / 8000000 \<le> q"
    and es: "sorted (map time_of es @ [now])" and r: "limited cfg ip r"
  shows "let s = fold (play api cfg) es no_traffic;
             c = snd (RateLimit api cfg count_pass r (arriving now s))
    in passed (server_state c) = (r, now) # passed s
     \<or> (\<exists>secs. 0 < secs \<and> wire_status (resp c) = Some 429 \<and> wire_header (resp c) ''Retry-After'' = [Itoa secs]
          \<and> passed (server_state c) = passed s
          \<and> (\<forall>es' r' t. sorted (now # map time_of es' @ [t]) \<and> (\<forall>e \<in> set es'. \<not> spends cfg ip e)
               \<and> limited cfg ip r' \<and> now + secs * second \<le> t \<longrightarrow>
             passed (fold (play api cfg) (es' @ [Ask r' t]) (server_state c))
               = (r', t) # passed (fold (play api cfg) es' (server_state c))))"
proof -
  define s where "s = fold (play api cfg) es no_traffic"
  define c where "c = snd (RateLimit api cfg count_pass r (arriving now s))"
  define t0 where "t0 = (case es of [] \<Rightarrow> now | e # _ \<Rightarrow> time_of e)"
  have "sorted (t0 # map time_of es @ [now])"
    using es by (auto simp: t0_def sorted_append split: list.split)
  then have s: "healthy api cfg ok now s"
    unfolding s_def by (rule healthy_plays [OF tb cfg healthy_no_traffic [OF tb cfg(2,3)]])
  have play: "server_state c = play api cfg (Ask r now) s" by (simp add: c_def)
  have s': "healthy api cfg ok now (server_state c)" using healthy_play [OF tb cfg, of "Ask r now" s] s by (simp add: play)
  obtain rsv l where rs: "Reserve api now (bucket_of api cfg s ip) = (rsv, l)"
    by (cases "Reserve api now (bucket_of api cfg s ip)")
  have inv: "table_inv s" and ok: "ok (bucket_of api cfg s ip) now" using s by (simp_all add: healthy_def)
  have "passed (server_state c) = (r, now) # passed s
     \<or> (\<exists>secs. 0 < secs \<and> wire_status (resp c) = Some 429 \<and> wire_header (resp c) ''Retry-After'' = [Itoa secs]
          \<and> passed (server_state c) = passed s
          \<and> (\<forall>t. now + secs * second \<le> t \<longrightarrow> 1 \<le> tok (bucket_of api cfg (server_state c) ip) t))"
  proof (rule play_Ask [OF cfg(1) r inv rs tb_grant(1) [OF tb ok rs]])
    fix i s1
    assume P: "RateLimit api cfg count_pass r (arriving now s) =
       (if 0 < rsv_Delay rsv
        then respond (\<lambda>w. rate_deny (header_set ''Retry-After'' (Itoa (int_Seconds (rsv_Delay rsv) + 1)) w))
               (arriving now (s1\<lparr>limiters := (limiters s1)[i := Cancel api now rsv l]\<rparr>))
        else count_pass r (arriving now (s1\<lparr>limiters := (limiters s1)[i := l]\<rparr>)))"
      and Q: "passed s1 = passed s" "\<And>b. client_limiter (s1\<lparr>limiters := (limiters s1)[i := b]\<rparr>) ip = Some b"
    let ?secs = "int_Seconds (rsv_Delay rsv) + 1"
    show ?thesis
    proof (cases "0 < rsv_Delay rsv")
      case True
      have c: "c = on_resp (\<lambda>w. rate_deny (header_set ''Retry-After'' (Itoa ?secs) w))
          (arriving now (s1\<lparr>limiters := (limiters s1)[i := Cancel api now rsv l]\<rparr>))"
        using True by (simp add: c_def P respond_def)
      have b: "bucket_of api cfg (server_state c) ip = Cancel api now rsv l"
        by (simp add: c bucket_of_def Q(2))
      have "1 \<le> tok (bucket_of api cfg (server_state c) ip) t" if "now + ?secs * second \<le> t" for t
      proof -
        have t: "now + rsv_Delay rsv + 1 \<le> t"
          using Retry_After_waits_enough [OF tb ok rs True q] that by simp
        have "1 \<le> tok (bucket_of api cfg s ip) (now + rsv_Delay rsv + 1)" by (rule tb_refuse(4) [OF tb ok rs True])
        also have "\<dots> \<le> tok (bucket_of api cfg s ip) t"
          using True t by (intro tb_mono [OF tb tb_later [OF tb ok]]) simp_all
        also have "\<dots> = tok (bucket_of api cfg (server_state c) ip) t"
          using True t by (simp add: b tb_refuse(2) [OF tb ok rs True])
        finally show ?thesis .
      qed
      moreover have "0 < ?secs" using Retry_After_waits_enough [OF tb ok rs True q] True by (simp add: zero_less_mult_iff)
      moreover have "wire_status (resp c) = Some 429" "wire_header (resp c) ''Retry-After'' = [Itoa ?secs]"
        by (simp_all add: c rate_deny_wire)
      moreover have "passed (server_state c) = passed s" by (simp add: c Q(1))
      ultimately show ?thesis by blast
    qed (simp add: c_def P count_pass_def respond_def Q(1))
  qed
  then show ?thesis
    using ready_served [OF tb cfg s'] unfolding Let_def s_def [symmetric] c_def [symmetric] by blast
qed

section \<open>A bucket with these laws\<close>

type_synonym bucket = "rat \<times> int \<times> rat \<times> instant"
  \<comment> \<open>rate, size, tokens at the last call, time of the last call\<close>

fun level :: "bucket \<Rightarrow> instant \<Rightarrow> rat" where
  "level (q, b, k, t0) t = (if t \<le> t0 then k else min (of_int b) (k + grain q * of_int (t - t0)))"

definition bucket_api :: "bucket limiter_api" where
  "bucket_api = \<lparr>
     NewLimiter = (\<lambda>rps b. (case rps of Fin q \<Rightarrow> (q, b, of_int b, 0) | _ \<Rightarrow> (0, b, of_int b, 0))),
     Reserve = (\<lambda>t l. case l of (q, b, k, t0) \<Rightarrow>
       let v = level l t; d = \<lfloor>(1 - v) / grain q\<rfloor>
       in (\<lparr>rsv_OK = True, rsv_Delay = (if d \<le> 0 then 0 else d), rsv_Act = t + (if d \<le> 0 then 0 else d)\<rparr>,
           (q, b, v - 1, t))),
     Cancel = (\<lambda>t rsv l. case l of (q, b, k, t0) \<Rightarrow> (q, b, k + 1, t0))\<rparr>"

fun good_bucket :: "rat \<Rightarrow> int \<Rightarrow> bucket \<Rightarrow> instant \<Rightarrow> bool" where
  "good_bucket q b (q', b', k, t0) t \<longleftrightarrow>
     q' = q \<and> b' = b \<and> - grain q \<le> k \<and> k \<le> of_int b \<and> (t0 \<le> t \<or> k = of_int b)"

lemma level_min: "t0 \<le> t \<Longrightarrow> k \<le> of_int b \<Longrightarrow> level (q, b, k, t0) t = min (of_int b) (k + grain q * of_int (t - t0))"
  by (cases "t = t0") simp_all

lemma level_later:
  assumes q: "0 < grain q" and l: "good_bucket q b l t" and t: "t \<le> t'"
  shows "level l t' = min (of_int b) (level l t + grain q * of_int (t' - t))"
proof -
  obtain k t0 where l': "l = (q, b, k, t0)" and k: "k \<le> of_int b" "t0 \<le> t \<or> k = of_int b" using l by (cases l) auto
  have x: "0 \<le> grain q * of_int (t' - t)" using q t by simp
  show ?thesis
  proof (cases "t0 \<le> t")
    case True
    have "grain q * of_int (t' - t0) = grain q * of_int (t - t0) + grain q * of_int (t' - t)" by (simp add: algebra_simps)
    then show ?thesis
      using True t k(1) x by (simp only: l' level_min [OF True k(1)] level_min [OF order_trans [OF True t] k(1)])
  next
    case False
    then have "level l s = of_int b" for s using k(2) q by (simp add: l')
    then show ?thesis using x by simp
  qed
qed

lemma level_cap: "0 < grain q \<Longrightarrow> 0 < b \<Longrightarrow> good_bucket q b l t \<Longrightarrow> - grain q \<le> level l t \<and> level l t \<le> of_int b"
  by (cases l) (auto simp: min_def add_increasing2)

lemma bucket_answers:
  assumes q: "0 < grain q" and b: "0 < b" and l: "good_bucket q b l t"
  shows "answers_well bucket_api q level (good_bucket q b) l t"
proof -
  obtain k t0 where l': "l = (q, b, k, t0)" using l by (cases l) auto
  define v d where "v = level l t" and "d = \<lfloor>(1 - v) / grain q\<rfloor>"
  have v: "- grain q \<le> v" "v \<le> of_int b" using level_cap [OF q b l] by (simp_all add: v_def)
  have future: "level l t' = level (q, b, v, t) t'" if "t \<le> t'" for t'
    unfolding level_later [OF q l that] v_def [symmetric] by (rule level_min [OF that v(2), symmetric])
  have d: "of_int d * grain q \<le> 1 - v" "1 - v < (of_int d + 1) * grain q"
    using q by (simp_all add: d_def floor_divide_lower floor_divide_upper)
  have r: "Reserve bucket_api t l = (\<lparr>rsv_OK = True, rsv_Delay = (if d \<le> 0 then 0 else d), rsv_Act = t + (if d \<le> 0 then 0 else d)\<rparr>,
      (q, b, v - 1, t))"
    by (simp add: bucket_api_def Let_def l' v_def d_def)
  have can: "Cancel bucket_api t rsv (q, b, v - 1, t) = (q, b, v, t)" for rsv by (simp add: bucket_api_def)
  show ?thesis
  proof (cases "d \<le> 0")
    case True
    then have "(of_int d + 1) * grain q \<le> 1 * grain q" using q by (intro mult_right_mono) simp_all
    then have "- grain q \<le> v - 1" using d(2) by simp
    then show ?thesis using True v by (simp add: answers_well_def r v_def [symmetric])
  next
    case False
    then have "0 < of_int d * grain q" using q by simp
    then have "v < 1" using d(1) by linarith
    moreover have "1 \<le> level l (t + d + 1)"
      using future [of "t + d + 1"] False d(2) b by (simp add: algebra_simps)
    ultimately show ?thesis
      using False v d(1) future by (simp add: answers_well_def r can v_def [symmetric] mult.commute)
  qed
qed

lemma bucket_api_token_bucket:
  assumes "0 < q" "0 < b"
  shows "token_bucket bucket_api q b level (good_bucket q b)"
proof -
  have q: "0 < grain q" using assms(1) by (simp add: grain_def)
  have "good_bucket q b l t' \<and> level l t \<le> level l t' \<and> level l t' \<le> level l t + grain q * of_int (t' - t)"
    if "good_bucket q b l t" "t \<le> t'" for l t t'
  proof -
    have "0 \<le> grain q * of_int (t' - t)" using q that(2) by simp
    moreover have "good_bucket q b l t'" using that by (cases l) auto
    ultimately show ?thesis
      using level_cap [OF q assms(2) that(1)] by (simp only: level_later [OF q that]) (simp add: min_def)
  qed
  then show ?thesis
    using assms q bucket_answers [OF q assms(2)] level_cap [OF q assms(2)]
    by (simp add: token_bucket_def) (simp add: bucket_api_def)
qed


section \<open>Witnesses\<close>

abbreviation demo_get :: request where
  "demo_get \<equiv> demo_request ''GET'' ''''"

definition demo_traffic :: "traffic list" where
  "demo_traffic = [Ask demo_get 0, Ask demo_get 0, Evict (60 * second), Ask demo_get (700 * second),
     Evict (1400 * second), Ask demo_get (1400 * second), Ask demo_get (1400 * second)]"

lemma demo_bucket: "token_bucket bucket_api 1 1 level (good_bucket 1 1)"
  by (rule bucket_api_token_bucket) simp_all

lemma demo_rate_fields: "RequestsPerSecond demo_rate = Fin 1" "Burst demo_rate = 1"
  "IdleEvictAfter (with_defaults demo_rate) = 600 * second"
  by (simp_all add: demo_rate_def with_defaults_def Let_def)

theorem rate_is_bounded_witness:
  "passes demo_rate ''10.0.0.9'' (1400 * second) (1400 * second) (fold (play bucket_api demo_rate) demo_traffic no_traffic) \<le> 1
   \<and> passes demo_rate ''10.0.0.9'' 0 (1400 * second) (fold (play bucket_api demo_rate) demo_traffic no_traffic) = 3"
proof
  let ?n = "passes demo_rate ''10.0.0.9'' (1400 * second) (1400 * second) (fold (play bucket_api demo_rate) demo_traffic no_traffic)"
  have "of_nat ?n \<le> of_int 1 + 1 * of_int (1400 * second - 1400 * second + 1) / (of_int second :: rat)"
    by (rule rate_is_bounded [OF demo_bucket demo_limits demo_rate_fields(1,2)])
      (simp_all add: demo_rate_fields demo_traffic_def)
  then have "of_nat ?n < (of_nat 2 :: rat)" by simp
  then show "?n \<le> 1" by (simp only: of_nat_less_iff)
qed code_simp

theorem denied_client_is_served_later_witness:
  "\<exists>secs c. snd (RateLimit bucket_api demo_rate count_pass demo_get (arriving 0 (play bucket_api demo_rate (Ask demo_get 0) no_traffic))) = c
     \<and> wire_status (resp c) = Some 429 \<and> wire_header (resp c) ''Retry-After'' = [Itoa secs]
     \<and> passed (play bucket_api demo_rate (Ask demo_get (secs * second)) (server_state c))
         = (demo_get, secs * second) # passed (server_state c)"
proof -
  let ?s = "play bucket_api demo_rate (Ask demo_get 0) no_traffic"
  define c where "c = snd (RateLimit bucket_api demo_rate count_pass demo_get (arriving 0 ?s))"
  have ip: "limited demo_rate ''10.0.0.9'' demo_get"
    using demo_ip [of "''GET''" "''''"] by (simp add: limited_def demo_rate_def demo_request_def)
  have "length (passed (play bucket_api demo_rate (Ask demo_get 0) ?s)) = length (passed ?s)" by code_simp
  then have no: "passed (server_state c) \<noteq> (demo_get, 0) # passed ?s" by (auto simp: c_def)
  have "let s = fold (play bucket_api demo_rate) [Ask demo_get 0] no_traffic;
             c = snd (RateLimit bucket_api demo_rate count_pass demo_get (arriving 0 s))
    in passed (server_state c) = (demo_get, 0) # passed s
     \<or> (\<exists>secs. 0 < secs \<and> wire_status (resp c) = Some 429 \<and> wire_header (resp c) ''Retry-After'' = [Itoa secs]
          \<and> passed (server_state c) = passed s
          \<and> (\<forall>es' r' t. sorted (0 # map time_of es' @ [t]) \<and> (\<forall>e \<in> set es'. \<not> spends demo_rate ''10.0.0.9'' e)
               \<and> limited demo_rate ''10.0.0.9'' r' \<and> 0 + secs * second \<le> t \<longrightarrow>
             passed (fold (play bucket_api demo_rate) (es' @ [Ask r' t]) (server_state c))
               = (r', t) # passed (fold (play bucket_api demo_rate) es' (server_state c))))"
    by (rule denied_client_is_served_later [OF demo_bucket demo_limits demo_rate_fields(1,2) _ _ ip]) simp_all
  then obtain secs where secs: "0 < secs" "wire_status (resp c) = Some 429" "wire_header (resp c) ''Retry-After'' = [Itoa secs]"
      "\<forall>es' r' t. sorted (0 # map time_of es' @ [t]) \<and> (\<forall>e \<in> set es'. \<not> spends demo_rate ''10.0.0.9'' e)
               \<and> limited demo_rate ''10.0.0.9'' r' \<and> 0 + secs * second \<le> t \<longrightarrow>
             passed (fold (play bucket_api demo_rate) (es' @ [Ask r' t]) (server_state c))
               = (r', t) # passed (fold (play bucket_api demo_rate) es' (server_state c))"
    using no unfolding Let_def fold_simps c_def [symmetric] by blast
  have "passed (play bucket_api demo_rate (Ask demo_get (secs * second)) (server_state c))
      = (demo_get, secs * second) # passed (server_state c)"
    using secs(4) [rule_format, of "[]" "secs * second" demo_get] secs(1) ip by (simp del: play.simps)
  then show ?thesis using secs(2,3) unfolding c_def [symmetric] by blast
qed

text \<open>
  The condition on the idle time is needed. A thousandth of a request per second with a burst of two is a
  configuration that \<open>Validate\<close> accepts; its bucket takes 2000 seconds to fill, a clean-up forgets it after 600,
  and a client that pauses that long gets its whole burst again.
\<close>

definition slow_rate :: rate_config where
  "slow_rate = demo_rate\<lparr>RequestsPerSecond := Fin (1 / 1000), Burst := 2\<rparr>"

definition slow_traffic :: "traffic list" where
  "slow_traffic = [Ask demo_get 0, Ask demo_get 0, Ask demo_get 0, Evict (601 * second),
     Ask demo_get (601 * second), Ask demo_get (601 * second)]"

theorem eviction_renews_burst:
  "token_bucket bucket_api (1 / 1000) 2 level (good_bucket (1 / 1000) 2)"
  "limits slow_rate \<and> RequestsPerSecond slow_rate = Fin (1 / 1000) \<and> Burst slow_rate = 2"
  "of_int 2 + 1 / 1000 * of_int (601 * second - 0 + 1) / of_int second
    < (of_nat (passes slow_rate ''10.0.0.9'' 0 (601 * second) (fold (play bucket_api slow_rate) slow_traffic no_traffic)) :: rat)"
proof -
  show "token_bucket bucket_api (1 / 1000) 2 level (good_bucket (1 / 1000) 2)"
    by (rule bucket_api_token_bucket) simp_all
  show "limits slow_rate \<and> RequestsPerSecond slow_rate = Fin (1 / 1000) \<and> Burst slow_rate = 2"
    by (simp add: slow_rate_def demo_rate_def limits_def f64_le_def)
  have "passes slow_rate ''10.0.0.9'' 0 (601 * second) (fold (play bucket_api slow_rate) slow_traffic no_traffic) = 4"
    by code_simp
  then show "of_int 2 + 1 / 1000 * of_int (601 * second - 0 + 1) / of_int second
    < (of_nat (passes slow_rate ''10.0.0.9'' 0 (601 * second) (fold (play bucket_api slow_rate) slow_traffic no_traffic)) :: rat)"
    by simp
qed

end
