(* ===== verification/Rate_Race.thy ===== *)
theory Rate_Race
  imports Rate_Bound "HOL-Library.Multiset"
begin

text \<open>
  The limiter of \<^verbatim>\<open>internal/middleware/ratelimit.go\<close> under requests that overlap. \<open>rl.mu\<close> guards the table
  and every \<open>rate.Limiter\<close> locks itself, but nothing holds a request's look-up, its reservation and the
  cancellation of that reservation together: other requests, of the same client too, and the clean-up can come
  between any two of them. One move below is one of these accesses.
\<close>

section \<open>Requests in progress\<close>

datatype job =
    Arrived request
  | Looked request nat instant  \<comment> \<open>\<open>limiterFor\<close> returned this limiter, at this time\<close>
  | Owing request nat reservation  \<comment> \<open>\<open>Reserve\<close> asks to wait, \<open>Cancel\<close> is still to come\<close>
  | Passed_on request
  | Turned_away request

record 'l race_state =
  clients :: "'l rate_limiter"
  jobs :: "job list"
  wall :: instant
  let_through :: "(request \<times> instant) list"

definition race_start :: "request list \<Rightarrow> instant \<Rightarrow> 'l race_state" where
  "race_start rs t = \<lparr>clients = new_table, jobs = map Arrived rs, wall = t, let_through = []\<rparr>"

datatype move = Look nat | Take nat | Give_back nat | Clean | Wait duration
  \<comment> \<open>an access of a request, a tick of the clean-up loop, the clock\<close>

definition look :: "'l limiter_api \<Rightarrow> rate_config \<Rightarrow> nat \<Rightarrow> request \<Rightarrow> 'l race_state \<Rightarrow> 'l race_state" where
  "look api cfg j r s =
     (if rpath r \<in> set (ExemptPaths cfg)
      then s\<lparr>jobs := (jobs s)[j := Passed_on r], let_through := (r, wall s) # let_through s\<rparr>
      else let cfg = with_defaults cfg; (l, c1) = limiterFor api cfg (wall s) (rate_clientIP cfg r) (clients s)
           in s\<lparr>clients := c1, jobs := (jobs s)[j := Looked r l (wall s)]\<rparr>)"

definition set_limiter :: "nat \<Rightarrow> 'l \<Rightarrow> 'l race_state \<Rightarrow> 'l race_state" where
  "set_limiter l b s = s\<lparr>clients := (clients s)\<lparr>limiters := (limiters (clients s))[l := b]\<rparr>\<rparr>"

definition take_token :: "'l limiter_api \<Rightarrow> nat \<Rightarrow> request \<Rightarrow> nat \<Rightarrow> 'l race_state \<Rightarrow> 'l race_state" where
  "take_token api j r l s =
     (let (rsv, b) = Reserve api (wall s) (limiters (clients s) ! l);
          s1 = set_limiter l b s
      in if \<not> rsv_OK rsv then s1\<lparr>jobs := (jobs s)[j := Turned_away r]\<rparr>
         else if 0 < rsv_Delay rsv then s1\<lparr>jobs := (jobs s)[j := Owing r l rsv]\<rparr>
         else s1\<lparr>jobs := (jobs s)[j := Passed_on r], let_through := (r, wall s) # let_through s\<rparr>)"

definition give_back :: "'l limiter_api \<Rightarrow> nat \<Rightarrow> request \<Rightarrow> nat \<Rightarrow> reservation \<Rightarrow> 'l race_state \<Rightarrow> 'l race_state" where
  "give_back api j r l rsv s =
     (set_limiter l (Cancel api (wall s) rsv (limiters (clients s) ! l)) s)\<lparr>jobs := (jobs s)[j := Turned_away r]\<rparr>"

definition job_at :: "nat \<Rightarrow> 'l race_state \<Rightarrow> job option" where
  "job_at j s = (if j < length (jobs s) then Some (jobs s ! j) else None)"

primrec race_move :: "'l limiter_api \<Rightarrow> rate_config \<Rightarrow> duration \<Rightarrow> move \<Rightarrow> 'l race_state \<Rightarrow> 'l race_state option" where
  \<comment> \<open>\<open>None\<close> when the move is not the request's next one, or when it comes more than \<open>lag\<close> after the look-up\<close>
  "race_move api cfg lag (Look j) s = (case job_at j s of Some (Arrived r) \<Rightarrow> Some (look api cfg j r s) | _ \<Rightarrow> None)"
| "race_move api cfg lag (Take j) s =
     (case job_at j s of
        Some (Looked r l t) \<Rightarrow> if wall s \<le> t + lag then Some (take_token api j r l s) else None
      | _ \<Rightarrow> None)"
| "race_move api cfg lag (Give_back j) s =
     (case job_at j s of Some (Owing r l rsv) \<Rightarrow> Some (give_back api j r l rsv s) | _ \<Rightarrow> None)"
| "race_move api cfg lag Clean s =
     Some (s\<lparr>clients := cleanup (wall s) (IdleEvictAfter (with_defaults cfg)) (clients s)\<rparr>)"
| "race_move api cfg lag (Wait d) s = (if 0 \<le> d then Some (s\<lparr>wall := wall s + d\<rparr>) else None)"

primrec race_run :: "'l limiter_api \<Rightarrow> rate_config \<Rightarrow> duration \<Rightarrow> move list \<Rightarrow> 'l race_state \<Rightarrow> 'l race_state option" where
  "race_run api cfg lag [] s = Some s"
| "race_run api cfg lag (m # ms) s = Option.bind (race_move api cfg lag m s) (race_run api cfg lag ms)"

section \<open>A request that is not interrupted\<close>

text \<open>The accesses of one request in a row are the handler \<open>RateLimit\<close> of the sequential model.\<close>

lemma uninterrupted:
  fixes s :: "'l race_state"
  assumes "limits cfg" "job_at j s = Some (Arrived r)" "0 \<le> lag" "rpath r \<notin> set (ExemptPaths cfg)" "table_inv (clients s)"
  obtains s1 ms where "race_run api cfg lag (Look j # Take j # ms) s = Some s1" "ms \<in> {[], [Give_back j]}"
    "clients s1 = server_state (snd (RateLimit api cfg (\<lambda>r. respond id) r (arriving (wall s) (clients s))))"
    "jobs s1 ! j = Passed_on r \<and> let_through s1 = (r, wall s) # let_through s
       \<or> jobs s1 ! j = Turned_away r \<and> let_through s1 = let_through s"
proof -
  let ?cfg = "with_defaults cfg"
  obtain l c1 where lf: "limiterFor api ?cfg (wall s) (rate_clientIP cfg r) (clients s) = (l, c1)"
    by (cases "limiterFor api ?cfg (wall s) (rate_clientIP cfg r) (clients s)")
  obtain rsv b where rs: "Reserve api (wall s) (limiters c1 ! l) = (rsv, b)" by (cases "Reserve api (wall s) (limiters c1 ! l)")
  have j: "j < length (jobs s)" "jobs s ! j = Arrived r" using assms(2) by (auto simp: job_at_def split: if_splits)
  have l: "l < length (limiters c1)" using limiterFor_props [OF assms(5) lf] by blast
  let ?s = "take_token api j r l (look api cfg j r s)"
  have look: "look api cfg j r s = s\<lparr>clients := c1, jobs := (jobs s)[j := Looked r l (wall s)]\<rparr>"
    using assms(4) by (simp add: look_def lf)
  have run: "race_run api cfg lag [Look j, Take j] s = Some ?s"
    using j assms(3) by (simp add: job_at_def look)
  show thesis
  proof (cases "rsv_OK rsv \<and> 0 < rsv_Delay rsv")
    case True
    have t: "?s = s\<lparr>clients := c1\<lparr>limiters := (limiters c1)[l := b]\<rparr>, jobs := (jobs s)[j := Owing r l rsv]\<rparr>"
      using True by (simp add: look take_token_def set_limiter_def rs)
    have "race_run api cfg lag [Look j, Take j, Give_back j] s = Some (give_back api j r l rsv ?s)"
      using run j by (auto simp: t job_at_def bind_eq_Some_conv)
    then show thesis
      by (rule that) (use True j l assms(1,4) in \<open>simp_all add: t give_back_def set_limiter_def RateLimit_def lf rs respond_def on_resp_def Let_def\<close>)
  next
    case False
    have "clients ?s = c1\<lparr>limiters := (limiters c1)[l := b]\<rparr>"
      "jobs ?s ! j = Passed_on r \<and> let_through ?s = (r, wall s) # let_through s
       \<or> jobs ?s ! j = Turned_away r \<and> let_through ?s = let_through s"
      using False j by (auto simp: look take_token_def set_limiter_def rs Let_def)
    then show thesis
      using False assms(1,4) by (intro that [OF run]) (simp_all add: RateLimit_def lf rs respond_def on_resp_def Let_def)
  qed
qed


section \<open>The bucket under overlapping requests\<close>

text \<open>The promises a limiter has outstanding: reservations for later that their requests have still to cancel.\<close>

primrec promise_of :: "nat \<Rightarrow> job \<Rightarrow> reservation multiset" where
  "promise_of l (Arrived r) = {#}"
| "promise_of l (Looked r l' t) = {#}"
| "promise_of l (Owing r l' rsv) = (if l' = l then {#rsv#} else {#})"
| "promise_of l (Passed_on r) = {#}"
| "promise_of l (Turned_away r) = {#}"

primrec promises :: "nat \<Rightarrow> job list \<Rightarrow> reservation multiset" where
  "promises l [] = {#}"
| "promises l (j # js) = promise_of l j + promises l js"

lemma promises_in: "j < length js \<Longrightarrow> promise_of l (js ! j) \<subseteq># promises l js"
proof (induction js arbitrary: j)
  case (Cons x js)
  show ?case
  proof (cases j)
    case (Suc i)
    then have "promise_of l (js ! i) \<subseteq># promises l js" using Cons by simp
    then show ?thesis using Suc by (simp add: subset_mset.add_increasing)
  qed simp
qed simp

lemma promises_update:
  "j < length js \<Longrightarrow> promises l (js[j := x]) = promises l js - promise_of l (js ! j) + promise_of l x"
proof (induction js arbitrary: j)
  case (Cons y js)
  show ?case
  proof (cases j)
    case (Suc i)
    then have i: "i < length js" using Cons.prems by simp
    have "promise_of l y + (promises l js - promise_of l (js ! i) + promise_of l x)
        = promise_of l y + promises l js - promise_of l (js ! i) + promise_of l x"
      using subset_mset.add_diff_assoc [OF promises_in [OF i, of l], of "promise_of l y"] by (simp add: ac_simps)
    then show ?thesis using Suc Cons.IH [OF i] by simp
  qed simp
qed simp

lemma promises_none: "(\<And>r rsv. Owing r l rsv \<notin> set js) \<Longrightarrow> promises l js = {#}"
proof (induction js)
  case (Cons j js)
  have "promises l js = {#}" by (rule Cons.IH) (use Cons.prems in auto)
  moreover have "promise_of l j = {#}" using Cons.prems by (cases j) auto
  ultimately show ?case by simp
qed simp

text \<open>
  What is assumed of the package now. \<open>tok l P t\<close> measures the tokens of a bucket at a time, those counted that a
  cancellation of its outstanding promises \<open>P\<close> can still return. It refills at the rate up to the burst. A
  reservation for now takes a token that is there (within the nanosecond a delay is rounded to); one for
  later becomes an outstanding promise, which does not add to the tokens; and when a promise that is
  outstanding is cancelled, however late, what the cancellation reverses is no more than what the reservation
  took. Nothing is said of cancelling anything else; \<open>Cancel\<close> may return the token of a request that was let
  through.
\<close>

definition shared_bucket ::
  "'l limiter_api \<Rightarrow> rat \<Rightarrow> int \<Rightarrow> ('l \<Rightarrow> reservation multiset \<Rightarrow> instant \<Rightarrow> rat)
     \<Rightarrow> ('l \<Rightarrow> reservation multiset \<Rightarrow> instant \<Rightarrow> bool) \<Rightarrow> bool" where
  "shared_bucket api q b tok ok \<longleftrightarrow>
     (\<forall>t. ok (NewLimiter api (Fin q) b) {#} t \<and> tok (NewLimiter api (Fin q) b) {#} t = of_int b)
     \<and> (\<forall>l P t t'. ok l P t \<longrightarrow> t \<le> t' \<longrightarrow>
          ok l P t' \<and> tok l P t' \<le> of_int b \<and> tok l P t' \<le> tok l P t + grain q * of_int (t' - t))
     \<and> (\<forall>l P t rsv l'. ok l P t \<longrightarrow> Reserve api t l = (rsv, l') \<longrightarrow>
          (if \<not> rsv_OK rsv then ok l' P t \<and> tok l' P t \<le> tok l P t
           else if 0 < rsv_Delay rsv then ok l' (add_mset rsv P) t \<and> tok l' (add_mset rsv P) t \<le> tok l P t
           else ok l' P t \<and> tok l' P t \<le> tok l P t - 1 \<and> - grain q \<le> tok l' P t))
     \<and> (\<forall>l P t rsv. ok l P t \<longrightarrow> rsv \<in># P \<longrightarrow>
          ok (Cancel api t rsv l) (P - {#rsv#}) t \<and> tok (Cancel api t rsv l) (P - {#rsv#}) t \<le> tok l P t)"

lemma shared_bucketD:
  assumes "shared_bucket api q b tok ok"
  shows sb_new: "ok (NewLimiter api (Fin q) b) {#} t" "tok (NewLimiter api (Fin q) b) {#} t = of_int b"
    and sb_later: "ok l P t \<Longrightarrow> t \<le> t' \<Longrightarrow> ok l P t'" and sb_cap: "ok l P t \<Longrightarrow> tok l P t \<le> of_int b"
    and sb_refill: "ok l P t \<Longrightarrow> t \<le> t' \<Longrightarrow> tok l P t' \<le> tok l P t + grain q * of_int (t' - t)"
    and sb_reserve: "ok l P t \<Longrightarrow> Reserve api t l = (rsv, l') \<Longrightarrow>
          (if \<not> rsv_OK rsv then ok l' P t \<and> tok l' P t \<le> tok l P t
           else if 0 < rsv_Delay rsv then ok l' (add_mset rsv P) t \<and> tok l' (add_mset rsv P) t \<le> tok l P t
           else ok l' P t \<and> tok l' P t \<le> tok l P t - 1 \<and> - grain q \<le> tok l' P t)"
    and sb_cancel: "ok l P t \<Longrightarrow> rsv \<in># P \<Longrightarrow>
          ok (Cancel api t rsv l) (P - {#rsv#}) t \<and> tok (Cancel api t rsv l) (P - {#rsv#}) t \<le> tok l P t"
  using assms unfolding shared_bucket_def by (blast, blast, blast, blast, blast, blast, blast)

definition passed_since :: "rate_config \<Rightarrow> string \<Rightarrow> instant \<Rightarrow> (request \<times> instant) list \<Rightarrow> nat" where
  "passed_since cfg ip t1 ps = length (filter (\<lambda>(r, t). limited cfg ip r \<and> t1 \<le> t) ps)"

definition passed_between :: "rate_config \<Rightarrow> string \<Rightarrow> instant \<Rightarrow> instant \<Rightarrow> (request \<times> instant) list \<Rightarrow> nat" where
  "passed_between cfg ip t1 t2 ps = length (filter (\<lambda>(r, t). limited cfg ip r \<and> t1 \<le> t \<and> t \<le> t2) ps)"

text \<open>
  \<open>funds\<close>: the passes since \<open>t1\<close> and the tokens of the client's bucket are covered by the burst and the refill;
  and so were the passes alone at the last of them, at most \<open>lag\<close> after the client was last seen.
\<close>

definition funds ::
  "rat \<Rightarrow> int \<Rightarrow> ('l \<Rightarrow> reservation multiset \<Rightarrow> instant \<Rightarrow> rat) \<Rightarrow> ('l \<Rightarrow> reservation multiset \<Rightarrow> instant \<Rightarrow> bool)
     \<Rightarrow> duration \<Rightarrow> instant \<Rightarrow> nat \<Rightarrow> 'l \<Rightarrow> reservation multiset \<Rightarrow> ip_entry option \<Rightarrow> instant \<Rightarrow> bool" where
  "funds q b tok ok lag t1 n l P e now \<longleftrightarrow> ok l P now
     \<and> (if now < t1 then n = 0 else of_nat n + tok l P now \<le> of_int b + grain q * of_int (now - t1))
     \<and> (n = 0 \<or> (\<exists>u. t1 \<le> u \<and> u \<le> now \<and> of_nat n \<le> of_int b + grain q * of_int (u + 1 - t1)
          \<and> (\<forall>x. e = Some x \<longrightarrow> u \<le> lastSeen x + lag)))"

lemma funds_now:
  assumes "funds q b tok ok lag t1 n l P e now" "0 \<le> grain q" "t1 \<le> now"
  shows "n = 0 \<or> of_nat n \<le> of_int b + grain q * of_int (now + 1 - t1)"
proof (cases "n = 0")
  case False
  then obtain u where u: "u \<le> now" "of_nat n \<le> of_int b + grain q * of_int (u + 1 - t1)"
    using assms(1) by (auto simp: funds_def)
  note u(2)
  also have "of_int b + grain q * of_int (u + 1 - t1) \<le> of_int b + grain q * of_int (now + 1 - t1)"
    using u(1) by (intro add_left_mono mult_left_mono assms(2)) simp
  finally show ?thesis by simp
qed simp

lemma funds_seen:
  assumes "funds q b tok ok lag t1 n l P e now" "0 \<le> lag"
  shows "funds q b tok ok lag t1 n l P (Some \<lparr>lim_ptr = i, lastSeen = now\<rparr>) now"
  using assms unfolding funds_def by force

lemma funds_less:
  "funds q b tok ok lag t1 n l P e now \<Longrightarrow> ok l' P' now \<Longrightarrow> tok l' P' now \<le> tok l P now \<Longrightarrow> funds q b tok ok lag t1 n l' P' e now"
  by (auto simp: funds_def)

lemma funds_wait:
  assumes sb: "shared_bucket api q b tok ok" and f: "funds q b tok ok lag t1 n l P e now" and t: "now \<le> t" and q: "0 \<le> grain q"
  shows "funds q b tok ok lag t1 n l P e t"
proof -
  have ok: "ok l P now" using f by (simp add: funds_def)
  note up = sb_refill [OF sb ok t] and cap = sb_cap [OF sb sb_later [OF sb ok t]]
  have "of_nat n + tok l P t \<le> of_int b + grain q * of_int (t - t1)" if "t1 \<le> t"
  proof (cases "now < t1")
    case True
    then show ?thesis using f cap q that by (simp add: funds_def add_increasing2)
  next
    case False
    then show ?thesis using f up by (simp add: funds_def algebra_simps)
  qed
  moreover have "t < t1 \<Longrightarrow> n = 0" using f t by (simp add: funds_def split: if_splits)
  moreover have "n = 0 \<or> (\<exists>u. t1 \<le> u \<and> u \<le> t \<and> of_nat n \<le> of_int b + grain q * of_int (u + 1 - t1)
      \<and> (\<forall>x. e = Some x \<longrightarrow> u \<le> lastSeen x + lag))"
    using f order_trans [OF _ t] unfolding funds_def by metis
  ultimately show ?thesis using sb_later [OF sb ok t] unfolding funds_def by simp
qed

lemma funds_pass:
  assumes f: "funds q b tok ok lag t1 n l P (Some e) now"
    and l: "ok l' P now" "tok l' P now \<le> tok l P now - 1" "- grain q \<le> tok l' P now" and seen: "now \<le> lastSeen e + lag"
  shows "funds q b tok ok lag t1 (if t1 \<le> now then Suc n else n) l' P (Some e) now"
proof (cases "now < t1")
  case True
  then show ?thesis using f l by (simp add: funds_def)
next
  case False
  then have s: "of_nat (Suc n) + tok l' P now \<le> of_int b + grain q * of_int (now - t1)" using f l by (simp add: funds_def)
  then have "of_nat (Suc n) \<le> of_int b + grain q * of_int (now + 1 - t1)"
    using l(3) by (simp add: algebra_simps)
  then show ?thesis using s l(1) False seen unfolding funds_def by (auto intro!: exI [of _ now])
qed

lemma funds_evict:
  assumes sb: "shared_bucket api q b tok ok" and f: "funds q b tok ok lag t1 n l P (Some e) now"
    and old: "lastSeen e < now - idle" and b: "of_int b \<le> grain q * of_int (idle - lag)" and q: "0 \<le> grain q"
  shows "funds q b tok ok lag t1 n (NewLimiter api (Fin q) b) {#} None now"
proof -
  have "of_nat n \<le> grain q * of_int (now - t1)" if "t1 \<le> now"
  proof (cases "n = 0")
    case False
    then obtain u where u: "u \<le> lastSeen e + lag" "of_nat n \<le> of_int b + grain q * of_int (u + 1 - t1)"
      using f by (auto simp: funds_def)
    note u(2)
    also have "of_int b + grain q * of_int (u + 1 - t1) \<le> grain q * of_int (idle - lag + (u + 1 - t1))"
      using b by (simp add: algebra_simps)
    also have "\<dots> \<le> grain q * of_int (now - t1)"
      using u(1) old by (intro mult_left_mono q) (simp only: of_int_le_iff)
    finally show ?thesis .
  qed (use q that in simp)
  then show ?thesis using f by (auto simp: funds_def sb_new [OF sb] split: if_splits)
qed

section \<open>The invariant of overlapping requests\<close>

definition jobs_ok :: "rate_config \<Rightarrow> duration \<Rightarrow> 'l race_state \<Rightarrow> bool" where
  \<comment> \<open>a look-up that is not older than \<open>lag\<close> still names the client's limiter, and promises are of limiters that exist\<close>
  "jobs_ok cfg lag s \<longleftrightarrow> table_inv (clients s)
     \<and> (\<forall>ip e. byIP (clients s) ip = Some e \<longrightarrow> lastSeen e \<le> wall s)
     \<and> (\<forall>r l t. Looked r l t \<in> set (jobs s) \<longrightarrow> t \<le> wall s
          \<and> (wall s \<le> t + lag \<longrightarrow>
               (\<exists>e. byIP (clients s) (rate_clientIP cfg r) = Some e \<and> lim_ptr e = l \<and> t \<le> lastSeen e)))
     \<and> (\<forall>r l rsv. Owing r l rsv \<in> set (jobs s) \<longrightarrow> l < length (limiters (clients s)))"

lemma jobs_okD:
  assumes "jobs_ok cfg lag s"
  shows jobs_ok_table: "table_inv (clients s)"
    and jobs_ok_seen: "byIP (clients s) ip = Some e \<Longrightarrow> lastSeen e \<le> wall s"
    and jobs_ok_past: "Looked r l t \<in> set (jobs s) \<Longrightarrow> t \<le> wall s"
    and jobs_ok_entry: "Looked r l t \<in> set (jobs s) \<Longrightarrow> wall s \<le> t + lag \<Longrightarrow>
      \<exists>e. byIP (clients s) (rate_clientIP cfg r) = Some e \<and> lim_ptr e = l \<and> t \<le> lastSeen e"
    and jobs_ok_owing: "Owing r l rsv \<in> set (jobs s) \<Longrightarrow> l < length (limiters (clients s))"
  using assms unfolding jobs_ok_def by blast+

lemma job_at_in: "job_at j s = Some x \<Longrightarrow> x \<in> set (jobs s) \<and> j < length (jobs s) \<and> jobs s ! j = x"
  by (auto simp: job_at_def split: if_splits)

lemma jobs_ok_looked:
  assumes "jobs_ok cfg lag s" "job_at j s = Some (Looked r l t)" "wall s \<le> t + lag"
  obtains e where "byIP (clients s) (rate_clientIP cfg r) = Some e" "lim_ptr e = l" "t \<le> lastSeen e" "t \<le> wall s"
proof -
  have "Looked r l t \<in> set (jobs s)" using job_at_in [OF assms(2)] by blast
  then show thesis using jobs_ok_past [OF assms(1)] jobs_ok_entry [OF assms(1) _ assms(3)] that by blast
qed

lemma in_update: "x \<in> set (xs[j := y]) \<Longrightarrow> x \<noteq> y \<Longrightarrow> x \<in> set xs"
  using set_update_subset_insert [of xs j y] by blast

lemma jobs_ok_settled:
  assumes "jobs_ok cfg lag s" "\<forall>r l t. x \<noteq> Looked r l t" "\<forall>r i rsv. x = Owing r i rsv \<longrightarrow> i < length (limiters (clients s))"
    "clients s' = (clients s)\<lparr>limiters := (limiters (clients s))[l := b]\<rparr>" "jobs s' = (jobs s)[j := x]" "wall s' = wall s"
  shows "jobs_ok cfg lag s'"
proof -
  have "Looked r l t \<in> set (jobs s)" if "Looked r l t \<in> set (jobs s')" for r l t
    using in_update [of _ "jobs s" j x] that assms(2) unfolding assms(5) by auto
  note old = jobs_ok_past [OF assms(1) this] jobs_ok_entry [OF assms(1) this]
  have "i < length (limiters (clients s))" if "Owing r i rsv \<in> set (jobs s')" for r i rsv
    using in_update [of _ "jobs s" j x] that assms(3) jobs_ok_owing [OF assms(1)] unfolding assms(5) by metis
  then show ?thesis
    unfolding jobs_ok_def assms(4,6)
    using old jobs_ok_table [OF assms(1)] jobs_ok_seen [OF assms(1)] by (simp add: table_inv_update)
qed

lemma limiterFor_grows: "limiterFor api cfg now ip rl = (l, rl1) \<Longrightarrow> length (limiters rl) \<le> length (limiters rl1)"
  by (auto simp: limiterFor_def Let_def split: option.splits)

lemma jobs_ok_look:
  assumes ok: "jobs_ok cfg lag s" and lf: "limiterFor api (with_defaults cfg) (wall s) (rate_clientIP cfg r) (clients s) = (l, c1)"
  shows "jobs_ok cfg lag (s\<lparr>clients := c1, jobs := (jobs s)[j := Looked r l (wall s)]\<rparr>)"
proof -
  note P = limiterFor_props [OF jobs_ok_table [OF ok] lf]
  have own: "byIP c1 (rate_clientIP cfg r) = Some \<lparr>lim_ptr = l, lastSeen = wall s\<rparr>" using P by blast
  have kept: "\<exists>e'. byIP c1 ip = Some e' \<and> lim_ptr e' = lim_ptr e \<and> lastSeen e \<le> lastSeen e'"
    if "byIP (clients s) ip = Some e" for ip e
  proof (cases "ip = rate_clientIP cfg r")
    case True
    then have "l = lim_ptr e" using lf that by (simp add: limiterFor_def)
    then show ?thesis using own True jobs_ok_seen [OF ok that] by simp
  next
    case False
    then show ?thesis using P that by auto
  qed
  have "lastSeen e \<le> wall s" if "byIP c1 ip = Some e" for ip e
    using that own P jobs_ok_seen [OF ok] by (cases "ip = rate_clientIP cfg r") auto
  moreover have "t \<le> wall s \<and> (wall s \<le> t + lag \<longrightarrow>
      (\<exists>e. byIP c1 (rate_clientIP cfg r') = Some e \<and> lim_ptr e = l' \<and> t \<le> lastSeen e))"
    if "Looked r' l' t \<in> set ((jobs s)[j := Looked r l (wall s)])" for r' l' t
  proof (cases "Looked r' l' t = Looked r l (wall s)")
    case True
    then show ?thesis using own by simp
  next
    case False
    then have "Looked r' l' t \<in> set (jobs s)" using in_update [OF that] by simp
    note old = jobs_ok_past [OF ok this] jobs_ok_entry [OF ok this]
    have "\<exists>e. byIP c1 (rate_clientIP cfg r') = Some e \<and> lim_ptr e = l' \<and> t \<le> lastSeen e" if "wall s \<le> t + lag"
      using old(2) [OF that] kept by (metis order_trans)
    then show ?thesis using old(1) by blast
  qed
  moreover have "i < length (limiters c1)" if "Owing r' i rsv \<in> set ((jobs s)[j := Looked r l (wall s)])" for r' i rsv
    using jobs_ok_owing [OF ok in_update [OF that]] limiterFor_grows [OF lf] by simp
  ultimately show ?thesis using P by (simp add: jobs_ok_def)
qed

lemma jobs_ok_clean:
  assumes "jobs_ok cfg lag s" "lag \<le> idle"
  shows "jobs_ok cfg lag (s\<lparr>clients := cleanup (wall s) idle (clients s)\<rparr>)"
proof -
  have "\<exists>e. byIP (cleanup (wall s) idle (clients s)) (rate_clientIP cfg r) = Some e \<and> lim_ptr e = l \<and> t \<le> lastSeen e"
    if looked: "Looked r l t \<in> set (jobs s)" and soon: "wall s \<le> t + lag" for r l t
  proof -
    obtain e where e: "byIP (clients s) (rate_clientIP cfg r) = Some e" "lim_ptr e = l" "t \<le> lastSeen e"
      using jobs_ok_entry [OF assms(1) looked soon] by blast
    then have "wall s - idle \<le> lastSeen e" using soon assms(2) by simp
    then show ?thesis using e by (intro exI [of _ e]) (simp add: cleanup_byIP)
  qed
  then show ?thesis
    using jobs_okD [OF assms(1)] by (simp add: jobs_ok_def table_inv_cleanup cleanup_byIP) blast
qed

lemma jobs_ok_wait:
  assumes "jobs_ok cfg lag s" "0 \<le> d"
  shows "jobs_ok cfg lag (s\<lparr>wall := wall s + d\<rparr>)"
proof -
  have "wall s + d \<le> y \<Longrightarrow> wall s \<le> y" for y using assms(2) by simp
  then show ?thesis using jobs_okD [OF assms(1)] assms(2) by (simp add: jobs_ok_def add_increasing2)
qed

text \<open>What a write to one limiter does to the bucket of a client, and the promises that bucket has outstanding.\<close>

lemma bucket_of_write:
  assumes "table_inv c"
  shows "bucket_of api cfg (c\<lparr>limiters := (limiters c)[l := b]\<rparr>) ip =
    (if \<exists>e. byIP c ip = Some e \<and> lim_ptr e = l then b else bucket_of api cfg c ip)"
  using assms by (cases "byIP c ip") (auto simp: bucket_of_def client_limiter_def table_inv_def)

lemma bucket_of_entry: "byIP c ip = Some e \<Longrightarrow> bucket_of api cfg c ip = limiters c ! lim_ptr e"
  by (simp add: bucket_of_def client_limiter_def)

definition owed_to :: "'l rate_limiter \<Rightarrow> job list \<Rightarrow> string \<Rightarrow> reservation multiset" where
  "owed_to c js ip = (case byIP c ip of None \<Rightarrow> {#} | Some e \<Rightarrow> promises (lim_ptr e) js)"

definition race_inv ::
  "'l limiter_api \<Rightarrow> rate_config \<Rightarrow> rat \<Rightarrow> int \<Rightarrow> ('l \<Rightarrow> reservation multiset \<Rightarrow> instant \<Rightarrow> rat)
     \<Rightarrow> ('l \<Rightarrow> reservation multiset \<Rightarrow> instant \<Rightarrow> bool) \<Rightarrow> duration
     \<Rightarrow> string \<Rightarrow> instant \<Rightarrow> instant \<Rightarrow> 'l race_state \<Rightarrow> bool" where
  "race_inv api cfg q b tok ok lag ip t1 t2 s \<longleftrightarrow> jobs_ok cfg lag s
     \<and> funds q b tok ok lag t1 (passed_since cfg ip t1 (let_through s)) (bucket_of api cfg (clients s) ip)
         (owed_to (clients s) (jobs s) ip) (byIP (clients s) ip) (wall s)
     \<and> of_nat (passed_between cfg ip t1 t2 (let_through s)) \<le> of_int b + grain q * of_int (t2 + 1 - t1)"

lemma race_invD:
  assumes "race_inv api cfg q b tok ok lag ip t1 t2 s"
  shows race_inv_jobs: "jobs_ok cfg lag s"
    and race_inv_funds: "funds q b tok ok lag t1 (passed_since cfg ip t1 (let_through s)) (bucket_of api cfg (clients s) ip)
         (owed_to (clients s) (jobs s) ip) (byIP (clients s) ip) (wall s)"
    and race_inv_bound: "of_nat (passed_between cfg ip t1 t2 (let_through s)) \<le> of_int b + grain q * of_int (t2 + 1 - t1)"
  using assms by (simp_all add: race_inv_def)

lemma passed_between_le: "passed_between cfg ip t1 t2 ps \<le> passed_since cfg ip t1 ps"
proof -
  have "filter (\<lambda>(r, t). limited cfg ip r \<and> t1 \<le> t \<and> t \<le> t2) ps
      = filter (\<lambda>(r, t). t \<le> t2) (filter (\<lambda>(r, t). limited cfg ip r \<and> t1 \<le> t) ps)"
    unfolding filter_filter by (rule filter_cong) auto
  then show ?thesis unfolding passed_between_def passed_since_def by (simp only: length_filter_le)
qed

lemma passed_since_Cons:
  "passed_since cfg ip t1 ((r, t) # ps) = (if limited cfg ip r \<and> t1 \<le> t then Suc (passed_since cfg ip t1 ps) else passed_since cfg ip t1 ps)"
  by (simp add: passed_since_def)

text \<open>A pass that the funds cover is within the bound, now or later.\<close>

lemma passed_between_pass:
  assumes q: "0 \<le> grain q"
    and f: "funds q b tok ok lag t1 (passed_since cfg ip t1 ((r, now) # ps)) l P e now"
    and old: "of_nat (passed_between cfg ip t1 t2 ps) \<le> of_int b + grain q * of_int (t2 + 1 - t1)"
  shows "of_nat (passed_between cfg ip t1 t2 ((r, now) # ps)) \<le> of_int b + grain q * of_int (t2 + 1 - t1)"
proof (cases "limited cfg ip r \<and> t1 \<le> now \<and> now \<le> t2")
  case True
  have "of_nat (passed_between cfg ip t1 t2 ((r, now) # ps)) \<le> (of_nat (passed_since cfg ip t1 ((r, now) # ps)) :: rat)"
    by (simp only: of_nat_le_iff passed_between_le)
  also have "\<dots> \<le> of_int b + grain q * of_int (now + 1 - t1)"
    using funds_now [OF f q] True by (simp add: passed_since_Cons)
  also have "\<dots> \<le> of_int b + grain q * of_int (t2 + 1 - t1)"
    using True by (intro add_left_mono mult_left_mono q) simp
  finally show ?thesis .
next
  case False
  then have "passed_between cfg ip t1 t2 ((r, now) # ps) = passed_between cfg ip t1 t2 ps"
    by (auto simp: passed_between_def)
  then show ?thesis using old by simp
qed

text \<open>A job that changes without a promise leaves what is owed.\<close>

lemma owed_to_update:
  "j < length js \<Longrightarrow> (\<And>l. promise_of l x = promise_of l (js ! j)) \<Longrightarrow> owed_to c (js[j := x]) ip = owed_to c js ip"
  using promises_in [of j js]
  by (simp add: owed_to_def promises_update subset_mset.diff_add split: option.split)

lemma race_inv_look:
  assumes lag: "0 \<le> lag" and s: "race_inv api cfg q b tok ok lag ip t1 t2 s" and job: "job_at j s = Some (Arrived r)"
  shows "race_inv api cfg q b tok ok lag ip t1 t2 (look api cfg j r s)"
proof (cases "rpath r \<in> set (ExemptPaths cfg)")
  case True
  then have "\<not> limited cfg ip r" by (simp add: limited_def)
  moreover have "jobs_ok cfg lag (s\<lparr>jobs := (jobs s)[j := Passed_on r], let_through := (r, wall s) # let_through s\<rparr>)"
  proof (rule jobs_ok_settled)
    show "jobs_ok cfg lag s" by (rule race_inv_jobs [OF s])
    show "clients (s\<lparr>jobs := (jobs s)[j := Passed_on r], let_through := (r, wall s) # let_through s\<rparr>)
        = (clients s)\<lparr>limiters := (limiters (clients s))[0 := limiters (clients s) ! 0]\<rparr>"
      by simp
  qed simp_all
  moreover have "owed_to (clients s) ((jobs s)[j := Passed_on r]) ip = owed_to (clients s) (jobs s) ip"
    using job_at_in [OF job] by (intro owed_to_update) simp_all
  ultimately show ?thesis
    using s True by (simp add: look_def race_inv_def passed_since_def passed_between_def)
next
  case False
  let ?cfg = "with_defaults cfg" and ?ip = "rate_clientIP cfg r"
  obtain l c1 where lf: "limiterFor api ?cfg (wall s) ?ip (clients s) = (l, c1)"
    by (cases "limiterFor api ?cfg (wall s) ?ip (clients s)")
  let ?js = "(jobs s)[j := Looked r l (wall s)]"
  have look: "look api cfg j r s = s\<lparr>clients := c1, jobs := ?js\<rparr>"
    using False by (simp add: look_def lf)
  note ok = race_inv_jobs [OF s] and f = race_inv_funds [OF s]
  note P = limiterFor_props [OF jobs_ok_table [OF ok] lf]
  have same: "owed_to c ?js i = owed_to c (jobs s) i" for c i
    using job_at_in [OF job] by (intro owed_to_update) simp_all
  have "funds q b tok ok lag t1 (passed_since cfg ip t1 (let_through s)) (bucket_of api cfg c1 ip) (owed_to c1 ?js ip) (byIP c1 ip) (wall s)"
  proof (cases "ip = ?ip")
    case True
    then have e: "byIP c1 ip = Some \<lparr>lim_ptr = l, lastSeen = wall s\<rparr>" using P by blast
    have "bucket_of api cfg c1 ip = bucket_of api cfg (clients s) ip"
      using P True e by (cases "client_limiter (clients s) ip") (simp_all add: bucket_of_def client_limiter_def [of c1])
    moreover have "owed_to c1 (jobs s) ip = owed_to (clients s) (jobs s) ip"
    proof (cases "byIP (clients s) ip")
      case None
      then have "l = length (limiters (clients s))" using lf True by (simp add: limiterFor_def Let_def)
      then have "promises l (jobs s) = {#}" using jobs_ok_owing [OF ok] by (intro promises_none) auto
      then show ?thesis by (simp add: owed_to_def e None)
    next
      case (Some x)
      then have "l = lim_ptr x" using lf True by (simp add: limiterFor_def)
      then show ?thesis by (simp add: owed_to_def e Some)
    qed
    ultimately show ?thesis unfolding e same using funds_seen [OF f lag] by simp
  next
    case False
    then have "byIP c1 ip = byIP (clients s) ip" "bucket_of api cfg c1 ip = bucket_of api cfg (clients s) ip"
      using P by (simp_all add: bucket_of_def)
    then show ?thesis unfolding same using f by (simp add: owed_to_def)
  qed
  then show ?thesis
    using s jobs_ok_look [OF ok lf] by (simp add: look race_inv_def)
qed

text \<open>
  A request's reservation or cancellation: it writes one limiter and changes one job, which may promise of that
  limiter only.
\<close>

lemma race_inv_write:
  assumes s: "race_inv api cfg q b tok ok lag ip t1 t2 s" and j: "j < length (jobs s)"
    and x: "\<forall>r l t. x \<noteq> Looked r l t" "\<forall>r i rsv. x = Owing r i rsv \<longrightarrow> i < length (limiters (clients s))"
    and others: "\<And>i. i \<noteq> l \<Longrightarrow> promise_of i x = promise_of i (jobs s ! j)"
    and less: "\<And>e. byIP (clients s) ip = Some e \<Longrightarrow> lim_ptr e = l
      \<Longrightarrow> ok (limiters (clients s) ! l) (promises l (jobs s)) (wall s)
      \<Longrightarrow> ok y (promises l ((jobs s)[j := x])) (wall s)
        \<and> tok y (promises l ((jobs s)[j := x])) (wall s) \<le> tok (limiters (clients s) ! l) (promises l (jobs s)) (wall s)"
  shows "race_inv api cfg q b tok ok lag ip t1 t2 ((set_limiter l y s)\<lparr>jobs := (jobs s)[j := x]\<rparr>)"
proof -
  note ok = race_inv_jobs [OF s] and f = race_inv_funds [OF s]
  let ?c = "(clients s)\<lparr>limiters := (limiters (clients s))[l := y]\<rparr>" and ?js = "(jobs s)[j := x]"
  have "funds q b tok ok lag t1 (passed_since cfg ip t1 (let_through s)) (bucket_of api cfg ?c ip) (owed_to (clients s) ?js ip)
      (byIP (clients s) ip) (wall s)"
  proof (cases "\<exists>e. byIP (clients s) ip = Some e \<and> lim_ptr e = l")
    case True
    then obtain e where e: "byIP (clients s) ip = Some e" "lim_ptr e = l" by blast
    have b: "bucket_of api cfg (clients s) ip = limiters (clients s) ! l" by (simp add: bucket_of_entry [OF e(1)] e(2))
    have o: "owed_to (clients s) js ip = promises l js" for js by (simp add: owed_to_def e)
    have "ok (limiters (clients s) ! l) (promises l (jobs s)) (wall s)" using f by (simp add: funds_def b o)
    from less [OF e this] have "ok y (promises l ?js) (wall s)"
      "tok y (promises l ?js) (wall s) \<le> tok (limiters (clients s) ! l) (promises l (jobs s)) (wall s)" by simp_all
    from funds_less [OF f [unfolded b o] this] show ?thesis
      using True by (simp add: bucket_of_write [OF jobs_ok_table [OF ok]] o)
  next
    case False
    then have "owed_to (clients s) ?js ip = owed_to (clients s) (jobs s) ip"
      using others promises_in [OF j]
      by (auto simp: owed_to_def promises_update [OF j] subset_mset.diff_add split: option.split)
    then show ?thesis using f False by (simp only: bucket_of_write [OF jobs_ok_table [OF ok]] if_False)
  qed
  moreover have "jobs_ok cfg lag ((set_limiter l y s)\<lparr>jobs := ?js\<rparr>)"
    using x by (intro jobs_ok_settled [OF ok, where x = x and l = l and b = y and j = j]) (simp_all add: set_limiter_def)
  ultimately show ?thesis using s by (simp add: race_inv_def set_limiter_def owed_to_def)
qed

lemma race_inv_take:
  assumes sb: "shared_bucket api q b tok ok" and q: "0 \<le> grain q" and s: "race_inv api cfg q b tok ok lag ip t1 t2 s"
    and job: "job_at j s = Some (Looked r l t)" "wall s \<le> t + lag"
  shows "race_inv api cfg q b tok ok lag ip t1 t2 (take_token api j r l s)"
proof -
  obtain rsv y where rs: "Reserve api (wall s) (limiters (clients s) ! l) = (rsv, y)"
    by (cases "Reserve api (wall s) (limiters (clients s) ! l)")
  note ok = race_inv_jobs [OF s]
  have j: "j < length (jobs s)" "jobs s ! j = Looked r l t" using job_at_in [OF job(1)] by simp_all
  obtain e where e: "byIP (clients s) (rate_clientIP cfg r) = Some e" "lim_ptr e = l" "t \<le> lastSeen e"
    using jobs_ok_looked [OF ok job] by blast
  then have l: "l < length (limiters (clients s))" using jobs_ok_table [OF ok] by (auto simp: table_inv_def)
  have promised: "promises i ((jobs s)[j := x]) = promises i (jobs s) + promise_of i x" for i x
    by (simp add: promises_update [OF j(1)] j(2))
  note R = sb_reserve [OF sb _ rs]
  have kept: "race_inv api cfg q b tok ok lag ip t1 t2 ((set_limiter l y s)\<lparr>jobs := (jobs s)[j := x]\<rparr>)"
    if "x = (if rsv_OK rsv \<and> 0 < rsv_Delay rsv then Owing r l rsv else if rsv_OK rsv then Passed_on r else Turned_away r)" for x
  proof (rule race_inv_write [OF s j(1)])
    fix e assume "ok (limiters (clients s) ! l) (promises l (jobs s)) (wall s)"
    from R [OF this] show "ok y (promises l ((jobs s)[j := x])) (wall s)
        \<and> tok y (promises l ((jobs s)[j := x])) (wall s) \<le> tok (limiters (clients s) ! l) (promises l (jobs s)) (wall s)"
      unfolding promised that by (auto split: if_splits)
  qed (use l j(2) that in \<open>auto split: if_splits\<close>)
  show ?thesis
  proof (cases "rsv_OK rsv \<and> rsv_Delay rsv \<le> 0")
    case False
    then show ?thesis using kept [OF HOL.refl] by (auto simp: take_token_def rs Let_def)
  next
    case True
    let ?s = "(set_limiter l y s)\<lparr>jobs := (jobs s)[j := Passed_on r]\<rparr>"
    let ?ps = "(r, wall s) # let_through s"
    have take: "take_token api j r l s = ?s\<lparr>let_through := ?ps\<rparr>"
      using True by (simp add: take_token_def rs Let_def)
    have K: "race_inv api cfg q b tok ok lag ip t1 t2 ?s" by (rule kept) (use True in simp)
    have paid: "funds q b tok ok lag t1 (passed_since cfg ip t1 ?ps) (bucket_of api cfg (clients ?s) ip)
        (owed_to (clients ?s) (jobs ?s) ip) (byIP (clients ?s) ip) (wall s)"
    proof (cases "limited cfg ip r")
      case False
      then show ?thesis using race_inv_funds [OF K] by (simp add: passed_since_Cons set_limiter_def)
    next
      case own: True
      then have ip: "rate_clientIP cfg r = ip" by (simp add: limited_def)
      have old: "bucket_of api cfg (clients s) ip = limiters (clients s) ! l" using e ip by (simp add: bucket_of_entry)
      have o: "owed_to c js ip = promises l js" if "byIP c = byIP (clients s)" for c js using e ip that by (simp add: owed_to_def)
      have "\<exists>e. byIP (clients s) ip = Some e \<and> lim_ptr e = l" using e ip by blast
      then have new: "bucket_of api cfg ((clients s)\<lparr>limiters := (limiters (clients s))[l := y]\<rparr>) ip = y"
        by (simp add: bucket_of_write [OF jobs_ok_table [OF ok]])
      note f = race_inv_funds [OF s, unfolded old o [OF HOL.refl]]
      have "ok (limiters (clients s) ! l) (promises l (jobs s)) (wall s)" using f by (simp add: funds_def)
      from R [OF this] True have y: "ok y (promises l (jobs s)) (wall s)"
        "tok y (promises l (jobs s)) (wall s) \<le> tok (limiters (clients s) ! l) (promises l (jobs s)) (wall s) - 1"
        "- grain q \<le> tok y (promises l (jobs s)) (wall s)" by (auto split: if_splits)
      have seen: "wall s \<le> lastSeen e + lag" using job(2) e(3) by simp
      have "byIP (clients s) ip = Some e" using e(1) ip by simp
      from funds_pass [OF f [unfolded this] y seen] show ?thesis
        using e(1) ip own by (simp add: new o set_limiter_def passed_since_Cons promised)
    qed
    moreover have "jobs_ok cfg lag (?s\<lparr>let_through := ?ps\<rparr>)" using race_inv_jobs [OF K] by (simp add: jobs_ok_def)
    ultimately show ?thesis
      using passed_between_pass [OF q paid race_inv_bound [OF s]] by (simp add: race_inv_def take set_limiter_def)
  qed
qed

lemma race_inv_give_back:
  assumes sb: "shared_bucket api q b tok ok" and s: "race_inv api cfg q b tok ok lag ip t1 t2 s"
    and job: "job_at j s = Some (Owing r l rsv)"
  shows "race_inv api cfg q b tok ok lag ip t1 t2 (give_back api j r l rsv s)"
proof -
  have j: "j < length (jobs s)" "jobs s ! j = Owing r l rsv" using job_at_in [OF job] by simp_all
  have out: "rsv \<in># promises l (jobs s)" using promises_in [OF j(1), of l] j(2) by simp
  have left: "promises l ((jobs s)[j := Turned_away r]) = promises l (jobs s) - {#rsv#}"
    by (simp add: promises_update [OF j(1)] j(2))
  show ?thesis
    unfolding give_back_def
    by (rule race_inv_write [OF s j(1)]) (use j(2) sb_cancel [OF sb _ out] left in auto)
qed

lemma race_inv_clean:
  assumes sb: "shared_bucket api q b tok ok" and cfg: "RequestsPerSecond cfg = Fin q" "Burst cfg = b" and q: "0 \<le> grain q"
    and lag: "lag \<le> idle" and b: "of_int b \<le> grain q * of_int (idle - lag)"
    and s: "race_inv api cfg q b tok ok lag ip t1 t2 s"
  shows "race_inv api cfg q b tok ok lag ip t1 t2 (s\<lparr>clients := cleanup (wall s) idle (clients s)\<rparr>)"
proof -
  let ?c = "cleanup (wall s) idle (clients s)"
  note ok = race_inv_jobs [OF s] and f = race_inv_funds [OF s]
  have "funds q b tok ok lag t1 (passed_since cfg ip t1 (let_through s)) (bucket_of api cfg ?c ip) (owed_to ?c (jobs s) ip)
      (byIP ?c ip) (wall s)"
  proof (cases "byIP ?c ip = byIP (clients s) ip")
    case True
    then have "bucket_of api cfg ?c ip = bucket_of api cfg (clients s) ip" by (simp add: bucket_of_def client_limiter_def)
    then show ?thesis using f True by (simp add: owed_to_def)
  next
    case False
    then have none: "byIP ?c ip = None" using cleanup_drops [of "wall s" idle "clients s" ip] by auto
    then obtain e where e: "byIP (clients s) ip = Some e" using False by (cases "byIP (clients s) ip") auto
    have "lastSeen e < wall s - idle" using e none cleanup_byIP [of "wall s" idle "clients s" ip e] by auto
    from funds_evict [OF sb f [unfolded e] this b q] show ?thesis
      using none by (simp add: bucket_of_cleanup cfg owed_to_def)
  qed
  then show ?thesis using s jobs_ok_clean [OF ok lag] by (simp add: race_inv_def)
qed

lemma race_inv_move:
  assumes sb: "shared_bucket api q b tok ok" and cfg: "RequestsPerSecond cfg = Fin q" "Burst cfg = b" "0 < q"
    and lag: "0 \<le> lag" "lag \<le> IdleEvictAfter (with_defaults cfg)"
    and b: "of_int b \<le> grain q * of_int (IdleEvictAfter (with_defaults cfg) - lag)"
    and s: "race_inv api cfg q b tok ok lag ip t1 t2 s" and m: "race_move api cfg lag m s = Some s'"
  shows "race_inv api cfg q b tok ok lag ip t1 t2 s'"
proof -
  have q: "0 \<le> grain q" using cfg(3) by (simp add: grain_def)
  show ?thesis
  proof (cases m)
    case (Look j)
    then obtain r where "job_at j s = Some (Arrived r)" "s' = look api cfg j r s" using m by (auto split: option.splits job.splits)
    then show ?thesis using race_inv_look [OF lag(1) s] by simp
  next
    case (Take j)
    then obtain r l t where "job_at j s = Some (Looked r l t)" "wall s \<le> t + lag" "s' = take_token api j r l s"
      using m by (auto split: option.splits job.splits if_splits)
    then show ?thesis using race_inv_take [OF sb q s] by simp
  next
    case (Give_back j)
    then obtain r l rsv where "job_at j s = Some (Owing r l rsv)" "s' = give_back api j r l rsv s"
      using m by (auto split: option.splits job.splits)
    then show ?thesis using race_inv_give_back [OF sb s] by simp
  next
    case Clean
    then show ?thesis using race_inv_clean [OF sb cfg(1,2) q lag(2) b s] m by auto
  next
    case (Wait d)
    then have "0 \<le> d" "s' = s\<lparr>wall := wall s + d\<rparr>" using m by (auto split: if_splits)
    then show ?thesis
      using s jobs_ok_wait [of cfg lag s d] funds_wait [OF sb _ _ q, of _ _ _ _ _ _ "wall s" "wall s + d"] by (simp add: race_inv_def)
  qed
qed

lemma race_inv_run:
  assumes "shared_bucket api q b tok ok" "RequestsPerSecond cfg = Fin q" "Burst cfg = b" "0 < q"
    "0 \<le> lag" "lag \<le> IdleEvictAfter (with_defaults cfg)"
    "of_int b \<le> grain q * of_int (IdleEvictAfter (with_defaults cfg) - lag)"
  shows "race_inv api cfg q b tok ok lag ip t1 t2 s \<Longrightarrow> race_run api cfg lag ms s = Some s'
    \<Longrightarrow> race_inv api cfg q b tok ok lag ip t1 t2 s'"
proof (induction ms arbitrary: s)
  case (Cons m ms)
  obtain s1 where s1: "race_move api cfg lag m s = Some s1" "race_run api cfg lag ms s1 = Some s'"
    using Cons.prems(2) by (auto simp: bind_eq_Some_conv)
  show ?case by (rule Cons.IH [OF race_inv_move [OF assms Cons.prems(1) s1(1)] s1(2)])
qed simp


section \<open>Properties\<close>

text \<open>
  C37. The rate holds under concurrency: however the look-ups, reservations and cancellations of any number of
  requests and the clean-ups interleave, in any stretch of time a client gets at most its burst and the refill
  through, provided no request reserves more than \<open>lag\<close> after its look-up and a bucket refills in what the idle
  time leaves beyond \<open>lag\<close>. Cancellations may come as late as they like.
\<close>

theorem overlapping_requests_keep_rate:
  assumes sb: "shared_bucket api q b tok ok"
    and cfg: "limits cfg" "RequestsPerSecond cfg = Fin q" "Burst cfg = b"
    and lag: "0 \<le> lag" "lag \<le> IdleEvictAfter (with_defaults cfg)"
    and idle: "of_int b * of_int second \<le> q * of_int (IdleEvictAfter (with_defaults cfg) - lag)"
    and run: "race_run api cfg lag ms (race_start rs t0) = Some s" and t: "t1 \<le> t2"
  shows "of_nat (passed_between cfg ip t1 t2 (let_through s)) \<le> of_int b + q * of_int (t2 - t1 + 1) / of_int second"
proof -
  have q: "0 < q" "0 < b" using limits_positive [OF cfg] by simp_all
  have b: "of_int b \<le> grain q * of_int (IdleEvictAfter (with_defaults cfg) - lag)"
    using idle by (simp add: grain_def)
  have g: "0 \<le> grain q" using q by (simp add: grain_def)
  have "jobs_ok cfg lag (race_start rs t0)"
    by (auto simp: jobs_ok_def race_start_def table_inv_new) (simp add: new_table_def)
  moreover have "bucket_of api cfg new_table ip = NewLimiter api (Fin q) b"
    by (simp add: bucket_of_def client_limiter_def new_table_def cfg)
  ultimately have "race_inv api cfg q b tok ok lag ip t1 t2 (race_start rs t0)"
    using q g t by (simp add: race_inv_def funds_def race_start_def passed_since_def passed_between_def sb_new [OF sb] new_table_def owed_to_def)
  then have "race_inv api cfg q b tok ok lag ip t1 t2 s"
    by (rule race_inv_run [OF sb cfg(2,3) q(1) lag b _ run])
  then show ?thesis by (simp add: race_inv_def grain_def algebra_simps)
qed

section \<open>A bucket with promises outstanding\<close>

type_synonym promising = "bucket \<times> int"
  \<comment> \<open>a bucket and the number of its tokens that are promised\<close>

definition pending_api :: "promising limiter_api" where
  \<comment> \<open>\<open>Cancel\<close> reverses a reservation: it gives up a promise, or returns a token taken at that moment\<close>
  "pending_api = \<lparr>
     NewLimiter = (\<lambda>rps b. (NewLimiter bucket_api rps b, 0)),
     Reserve = (\<lambda>t (l, n). case l of (q, b, k, t0) \<Rightarrow>
       let v = level l t; d = \<lfloor>(1 - (v - of_int n)) / grain q\<rfloor>
       in if d \<le> 0 then (\<lparr>rsv_OK = True, rsv_Delay = 0, rsv_Act = t\<rparr>, ((q, b, v - 1, t), n))
          else (\<lparr>rsv_OK = True, rsv_Delay = d, rsv_Act = t + d\<rparr>, ((q, b, v, t), n + 1))),
     Cancel = (\<lambda>t rsv (l, n). if 0 < rsv_Delay rsv then (l, n - 1)
       else case l of (q, b, k, t0) \<Rightarrow> (if rsv_Act rsv < t then (l, n) else ((q, b, k + 1, t0), n)))\<rparr>"

definition good_promising :: "rat \<Rightarrow> int \<Rightarrow> promising \<Rightarrow> reservation multiset \<Rightarrow> instant \<Rightarrow> bool" where
  "good_promising q b l P t \<longleftrightarrow> good_bucket q b (fst l) t \<and> snd l = int (size P) \<and> (\<forall>rsv \<in># P. 0 < rsv_Delay rsv)"

lemma pending_reserve:
  assumes g: "0 < grain q" and b: "0 < b" and l: "good_promising q b l P t" and r: "Reserve pending_api t l = (rsv, l')"
  shows "rsv_OK rsv \<and> (if 0 < rsv_Delay rsv then good_promising q b l' (add_mset rsv P) t \<and> level (fst l') t = level (fst l) t
    else good_promising q b l' P t \<and> level (fst l') t = level (fst l) t - 1 \<and> - grain q \<le> level (fst l') t)"
proof -
  obtain k t0 n where l': "l = ((q, b, k, t0), n)" and n: "n = int (size P)" and pos: "\<forall>rsv \<in># P. 0 < rsv_Delay rsv"
    and good: "good_bucket q b (q, b, k, t0) t"
    using l by (cases l) (auto simp: good_promising_def)
  define v d where "v = level (q, b, k, t0) t" and "d = \<lfloor>(1 - (v - of_int n)) / grain q\<rfloor>"
  have v: "- grain q \<le> v" "v \<le> of_int b" using level_cap [OF g b good] by (simp_all add: v_def)
  have "Reserve pending_api t l = (if d \<le> 0 then (\<lparr>rsv_OK = True, rsv_Delay = 0, rsv_Act = t\<rparr>, ((q, b, v - 1, t), n))
      else (\<lparr>rsv_OK = True, rsv_Delay = d, rsv_Act = t + d\<rparr>, ((q, b, v, t), n + 1)))"
    unfolding pending_api_def l' v_def d_def by (simp add: Let_def del: level.simps)
  note res = this [unfolded r]
  have old: "level (fst l) t = v" by (simp add: l' v_def del: level.simps)
  show ?thesis
  proof (cases "d \<le> 0")
    case True
    have "1 - (v - of_int n) < (of_int d + 1) * grain q" using g by (simp add: d_def floor_divide_upper)
    also have "\<dots> \<le> 1 * grain q" using True g by (intro mult_right_mono) simp_all
    finally have "1 - v < grain q" using n by simp
    then show ?thesis using res True v n b pos by (simp add: old good_promising_def)
  next
    case False
    then show ?thesis using res v n pos by (simp add: old good_promising_def)
  qed
qed

lemma pending_shared_bucket:
  assumes "0 < q" "0 < b"
  shows "shared_bucket pending_api q b (\<lambda>l P. level (fst l)) (good_promising q b)"
proof -
  have g: "0 < grain q" using assms(1) by (simp add: grain_def)
  note tb = bucket_api_token_bucket [OF assms]
  have later: "good_promising q b l P t' \<and> level (fst l) t' \<le> of_int b
      \<and> level (fst l) t' \<le> level (fst l) t + grain q * of_int (t' - t)" if "good_promising q b l P t" "t \<le> t'" for l P t t'
  proof -
    have ok: "good_bucket q b (fst l) t" using that(1) by (simp add: good_promising_def)
    note ok' = tb_later [OF tb ok that(2)]
    show ?thesis
      using tb_cap [OF tb ok'] tb_refill [OF tb ok that(2)] ok' that(1) by (simp add: good_promising_def)
  qed
  have new: "good_promising q b (NewLimiter pending_api (Fin q) b) {#} t \<and> level (fst (NewLimiter pending_api (Fin q) b)) t = of_int b" for t
    using tb_new [OF tb] by (simp add: pending_api_def good_promising_def)
  have reserve: "if \<not> rsv_OK rsv then good_promising q b l' P t \<and> level (fst l') t \<le> level (fst l) t
      else if 0 < rsv_Delay rsv then good_promising q b l' (add_mset rsv P) t \<and> level (fst l') t \<le> level (fst l) t
      else good_promising q b l' P t \<and> level (fst l') t \<le> level (fst l) t - 1 \<and> - grain q \<le> level (fst l') t"
    if "good_promising q b l P t" "Reserve pending_api t l = (rsv, l')" for l P t rsv l'
    using pending_reserve [OF g assms(2) that] by (auto split: if_splits)
  have cancel: "good_promising q b (Cancel pending_api t rsv l) (P - {#rsv#}) t \<and> level (fst (Cancel pending_api t rsv l)) t \<le> level (fst l) t"
    if "good_promising q b l P t" "rsv \<in># P" for l P t rsv
  proof -
    have "0 < size P" using that(2) by (cases P) auto
    then show ?thesis
      using that by (cases l) (auto simp: pending_api_def good_promising_def size_Diff_singleton dest: in_diffD)
  qed
  show ?thesis
    unfolding shared_bucket_def using later new cancel reserve by blast
qed

text \<open>
  Cancelled at the moment it was made, any reservation of this bucket is undone, one that was granted at once as
  well: the contract does not exclude what the package documents of \<open>Cancel\<close>.
\<close>

lemma pending_reverses:
  assumes q: "0 < q" "0 < b" and l: "good_promising q b l P t" and r: "Reserve pending_api t l = (rsv, l')"
  shows "snd (Cancel pending_api t rsv l') = snd l \<and> (\<forall>t' \<ge> t. level (fst (Cancel pending_api t rsv l')) t' = level (fst l) t')"
proof -
  have g: "0 < grain q" using q(1) by (simp add: grain_def)
  obtain k t0 n where l': "l = ((q, b, k, t0), n)" and good: "good_bucket q b (q, b, k, t0) t"
    using l by (cases l) (auto simp: good_promising_def)
  define v where "v = level (q, b, k, t0) t"
  have v: "v \<le> of_int b" using level_cap [OF g q(2) good] by (simp add: v_def)
  have "Cancel pending_api t rsv l' = ((q, b, v, t), n)"
    using r by (auto simp: pending_api_def l' v_def Let_def simp del: level.simps split: if_splits)
  moreover have "level (q, b, v, t) t' = level (q, b, k, t0) t'" if "t \<le> t'" for t'
    unfolding level_later [OF g good that] v_def [symmetric] by (rule level_min [OF that v])
  ultimately show ?thesis by (simp add: l' del: level.simps)
qed

section \<open>Witnesses\<close>

definition four_gets :: "promising race_state" where
  \<comment> \<open>four requests of one client\<close>
  "four_gets = race_start (replicate 4 demo_get) 0"

definition tangled :: "move list" where
  "tangled = [Look 0, Look 1, Take 1, Take 0, Look 2, Wait (700 * millisecond), Give_back 0, Take 2, Clean, Look 3,
     Wait (700 * millisecond), Give_back 2, Take 3]"

abbreviation job_code :: "job \<Rightarrow> int" where
  "job_code j \<equiv> (case j of Passed_on r \<Rightarrow> 1 | Turned_away r \<Rightarrow> 2 | _ \<Rightarrow> 0)"

lemma tangled_runs:
  "map_option (\<lambda>s. (map job_code (jobs s), map snd (let_through s))) (race_run pending_api demo_rate second tangled four_gets)
   = Some ([2, 1, 2, 1], [1400 * millisecond, 0])"
  by code_simp

theorem overlapping_requests_keep_rate_witness:
  "\<exists>s. race_run pending_api demo_rate second tangled four_gets = Some s \<and> length (let_through s) = 2
     \<and> passed_between demo_rate ''10.0.0.9'' 0 (700 * millisecond) (let_through s) \<le> 1"
proof -
  obtain s where s: "race_run pending_api demo_rate second tangled four_gets = Some s"
    and two: "map snd (let_through s) = [1400 * millisecond, 0]"
    using tangled_runs by (auto simp: map_option_eq_Some)
  let ?n = "passed_between demo_rate ''10.0.0.9'' 0 (700 * millisecond) (let_through s)"
  have sb: "shared_bucket pending_api 1 1 (\<lambda>l P. level (fst l)) (good_promising 1 1)" by (rule pending_shared_bucket) simp_all
  have "of_nat ?n \<le> of_int 1 + 1 * of_int (700 * millisecond - 0 + 1) / (of_int second :: rat)"
    by (rule overlapping_requests_keep_rate [OF sb demo_limits demo_rate_fields(1,2) _ _ _ s [unfolded four_gets_def]])
      (simp_all add: demo_rate_fields)
  then have "of_nat ?n < (of_nat 2 :: rat)" by simp
  then have "?n \<le> 1" by (simp only: of_nat_less_iff)
  moreover have "length (let_through s) = 2" using arg_cong [OF two, of length] by simp
  ultimately show ?thesis using s by blast
qed

text \<open>
  A denied request can cost another one its token while its reservation is not yet cancelled: the second of three
  requests is turned away, and so is the third, though without the second it would have been let through. The
  comment in the code says that a denied caller "was never charged".
\<close>

definition moves_with :: "move list \<Rightarrow> move list \<Rightarrow> move list" where
  "moves_with second_takes second_cancels =
     [Look 0, Take 0] @ second_takes @ [Wait (1100 * millisecond), Look 2, Take 2] @ second_cancels"

theorem denied_request_costs_another:
  "map_option (\<lambda>s. map job_code (jobs s))
     (race_run pending_api demo_rate second (moves_with [Look 1, Take 1] [Give_back 1, Give_back 2]) four_gets)
     = Some [1, 2, 2, 0]
   \<and> map_option (\<lambda>s. map job_code (jobs s)) (race_run pending_api demo_rate second (moves_with [] []) four_gets)
     = Some [1, 0, 1, 0]"
  by (rule conjI; code_simp)

end
