(* ===== verification/Service_Rate.thy ===== *)
theory Service_Rate
  imports Service Rate_Bound
begin

text \<open>
  The rate bound for the running service: the events of \<open>Service\<close> (ticks, clean-ups, requests through the
  chain of \<^verbatim>\<open>server/server.go\<close>) act on the table of clients as the traffic of \<open>Rate_Bound\<close> does, so what
  was proved of the limiter alone holds of the requests that get through the whole chain to the mux.
\<close>

section \<open>Requests that reach the mux\<close>

definition probe :: "'s handler" where
  \<comment> \<open>a handler that shows that it was called\<close>
  "probe r c = (Panicking ''probe'', c)"

fun panic_line :: "log_line \<Rightarrow> bool" where
  "panic_line (PanicLine e p m) = True"
| "panic_line (AccessLine m p st b l i x) = False"

definition reaches_mux :: "'l site \<Rightarrow> arrival \<Rightarrow> 'l service \<Rightarrow> bool" where
  \<comment> \<open>put in the place of the mux, the probe would be called\<close>
  "reaches_mux st a s \<longleftrightarrow>
     list_ex panic_line (log_out (snd (Build (api_of st) (cfg_of st) probe (req a)
       \<lparr>server_state = app_of s, resp = response_writer (req a), log_out = [], env = readings a\<rparr>)))"

primrec through :: "'l site \<Rightarrow> service_event list \<Rightarrow> 'l service \<Rightarrow> (request \<times> instant) list" where
  \<comment> \<open>the requests of a run that reach the mux, with the time they are handled\<close>
  "through st [] s = []"
| "through st (ev # evs) s =
     (case ev of Arrival a \<Rightarrow> (if reaches_mux st a s then [(req a, clock_now (readings a))] else []) | _ \<Rightarrow> [])
     @ through st evs (service_step st ev s)"

definition past_cors :: "config \<Rightarrow> request \<Rightarrow> bool" where
  \<comment> \<open>all requests but the preflight requests an active CORS middleware answers itself\<close>
  "past_cors cfg r \<longleftrightarrow> \<not> (active (cors_of (CORS cfg)) \<and> rheader r ''Origin'' \<noteq> '''' \<and> rmethod r = ''OPTIONS'')"

definition traffic_of :: "config \<Rightarrow> service_event \<Rightarrow> traffic list" where
  "traffic_of cfg ev =
     (case ev of
        Sampling t \<Rightarrow> []
      | Cleanup now \<Rightarrow> [Evict now]
      | Arrival a \<Rightarrow> if past_cors cfg (req a) then [Ask (req a) (clock_now (readings a))] else [])"

section \<open>The chain in front of the limiter\<close>

definition cors_answer :: "cors_config \<Rightarrow> string \<Rightarrow> writer \<Rightarrow> writer" where
  "cors_answer cc orig w =
     (if allowed_by cc orig then WriteHeader 204 (cors_headers cc orig w) else http_Error cors_denied 403 w)"

definition cors_decoration :: "cors_config \<Rightarrow> string \<Rightarrow> writer \<Rightarrow> writer" where
  "cors_decoration cc orig w = (if active cc \<and> orig \<noteq> '''' \<and> allowed_by cc orig then cors_headers cc orig w else w)"

lemma inner_chain_stopped:
  "\<not> past_cors cfg r \<Longrightarrow>
     inner_chain api cfg nxt r c = respond (cors_answer (cors_of (CORS cfg)) (rheader r ''Origin'')) c"
  by (simp add: inner_chain_def cors_eq past_cors_def respond_def on_resp_def cors_answer_def Let_def)

lemma inner_chain_passed:
  "past_cors cfg r \<Longrightarrow> inner_chain api cfg nxt r c =
     RateLimit api (rate_of (RateLimitCfg cfg)) nxt r (on_resp (cors_decoration (cors_of (CORS cfg)) (rheader r ''Origin'')) c)"
  by (auto simp: inner_chain_def cors_eq past_cors_def cors_decoration_def on_resp_def Let_def)

lemma past_cors_entered [simp]: "past_cors cfg (fst (entered r c)) = past_cors cfg r"
  by (simp add: past_cors_def)

text \<open>Where a request ends is decided before the mux: by CORS and by the client's bucket.\<close>

lemma reaches_mux_eq:
  "reaches_mux st a s \<longleftrightarrow> past_cors (cfg_of st) (req a)
     \<and> \<not> denied (api_of st) (rate_of (RateLimitCfg (cfg_of st))) (req a)
         \<lparr>server_state = app_of s, resp = response_writer (req a), log_out = [], env = readings a\<rparr>"
proof -
  let ?c = "\<lparr>server_state = app_of s, resp = response_writer (req a), log_out = [], env = readings a\<rparr>"
  let ?api = "api_of st" and ?cfg = "cfg_of st" and ?rc = "rate_of (RateLimitCfg (cfg_of st))"
  let ?r = "fst (entered (req a) ?c)" and ?d = "snd (entered (req a) ?c)"
  let ?B = "log_out (snd (Build ?api ?cfg probe (req a) ?c))"
  have returned: "\<not> list_ex panic_line ?B" if "inner_chain ?api ?cfg probe ?r ?d = (Returned, d)" "log_out d = []" for d
    using Build_returned [OF that(1)] that(2) by auto
  show ?thesis
  proof (cases "past_cors ?cfg (req a)")
    case False
    then have "inner_chain ?api ?cfg probe ?r ?d = (Returned, on_resp (cors_answer (cors_of (CORS ?cfg)) (rheader ?r ''Origin'')) ?d)"
      by (simp add: inner_chain_stopped respond_def)
    from returned [OF this] False show ?thesis by (simp add: reaches_mux_def)
  next
    case True
    let ?e = "on_resp (cors_decoration (cors_of (CORS ?cfg)) (rheader ?r ''Origin'')) ?d"
    have inner: "inner_chain ?api ?cfg probe ?r ?d = RateLimit ?api ?rc probe ?r ?e"
      using True by (simp add: inner_chain_passed)
    have den: "denied ?api ?rc ?r ?e = denied ?api ?rc (req a) ?c" by (rule denied_entered) simp_all
    show ?thesis
    proof (cases "denied ?api ?rc (req a) ?c")
      case d: True
      then obtain sv w where "RateLimit ?api ?rc probe ?r ?e = (Returned, ?e\<lparr>server_state := sv, resp := rate_deny w\<rparr>)"
        using RateLimit_denied [of ?api ?rc ?r ?e probe] unfolding den by blast
      then have R: "inner_chain ?api ?cfg probe ?r ?d = (Returned, ?e\<lparr>server_state := sv, resp := rate_deny w\<rparr>)"
        by (simp only: inner)
      have "log_out (e\<lparr>server_state := sv, resp := v\<rparr>) = log_out e" for e :: "'a app conn" and v by simp
      then have "\<not> list_ex panic_line ?B" by (intro returned [OF R]) simp
      then show ?thesis using d by (simp add: reaches_mux_def)
    next
      case d: False
      then obtain sv where "RateLimit ?api ?rc probe ?r ?e = probe ?r (?e\<lparr>server_state := sv\<rparr>)"
        using RateLimit_admitted [of ?api ?rc ?r ?e probe] unfolding den by blast
      then have "inner_chain ?api ?cfg probe ?r ?d = (Panicking ''probe'', ?e\<lparr>server_state := sv\<rparr>)"
        using inner by (simp add: probe_def)
      then have "list_ex panic_line ?B"
        by (auto simp: Build_def Recovery_def RequestID_def AccessLog_def inner_chain_def entered_def request_id_def
            on_resp_def RequestIDFromContext_def respond_def Let_def)
      then show ?thesis using True d by (simp add: reaches_mux_def)
    qed
  qed
qed


section \<open>The table of clients, whatever it is part of\<close>

definition same_table :: "('l, 'm) rate_limiter_scheme \<Rightarrow> ('l, 'n) rate_limiter_scheme \<Rightarrow> bool" where
  "same_table s t \<longleftrightarrow> byIP s = byIP t \<and> limiters s = limiters t"

definition keeps_table :: "('l, 'm) rate_limiter_scheme handler \<Rightarrow> bool" where
  "keeps_table h \<longleftrightarrow> (\<forall>r c. same_table (server_state (snd (h r c))) (server_state c))"

lemma same_table_refl [simp]: "same_table s s"
  by (simp add: same_table_def)

lemma same_table_sym: "same_table s t \<Longrightarrow> same_table t s"
  by (simp add: same_table_def)

lemma same_table_trans: "same_table s t \<Longrightarrow> same_table t u \<Longrightarrow> same_table s u"
  by (simp add: same_table_def)

lemma limiterFor_same:
  assumes "same_table s t"
  shows "fst (limiterFor api cfg now ip s) = fst (limiterFor api cfg now ip t)"
    "same_table (snd (limiterFor api cfg now ip s)) (snd (limiterFor api cfg now ip t))"
  using assms by (auto simp: same_table_def limiterFor_def Let_def split: option.split)

lemma cleanup_same: "same_table s t \<Longrightarrow> same_table (cleanup now idle s) (cleanup now idle t)"
  by (simp add: same_table_def cleanup_def Let_def)

lemma RateLimit_same:
  assumes h: "keeps_table h" "keeps_table k" and st: "same_table (server_state c) (server_state d)"
    and now: "clock_now (env c) = clock_now (env d)"
    and r: "rpath r = rpath r'" "rate_clientIP cfg r = rate_clientIP cfg r'"
  shows "same_table (server_state (snd (RateLimit api cfg h r c))) (server_state (snd (RateLimit api cfg k r' d)))"
    "denied api cfg r c = denied api cfg r' d"
proof -
  let ?now = "clock_now (env d)" and ?ip = "rate_clientIP cfg r'"
  have after: "same_table (server_state (snd (h r x))) (server_state (snd (k r' y)))"
    if "same_table (server_state x) (server_state y)" for x y
    using h that unfolding keeps_table_def by (meson same_table_sym same_table_trans)
  obtain l c1 where c1: "limiterFor api (with_defaults cfg) ?now ?ip (server_state c) = (l, c1)"
    by (cases "limiterFor api (with_defaults cfg) ?now ?ip (server_state c)")
  obtain l' d1 where d1: "limiterFor api (with_defaults cfg) ?now ?ip (server_state d) = (l', d1)"
    by (cases "limiterFor api (with_defaults cfg) ?now ?ip (server_state d)")
  have l: "l' = l" and s1: "same_table c1 d1"
    using limiterFor_same [OF st, of api "with_defaults cfg" ?now ?ip] by (simp_all add: c1 d1)
  have lims: "limiters d1 = limiters c1" using s1 by (simp add: same_table_def)
  have upd: "same_table (c1\<lparr>limiters := ls\<rparr>) (d1\<lparr>limiters := ls\<rparr>)" for ls using s1 by (simp add: same_table_def)
  obtain rsv b where rs: "Reserve api ?now (limiters c1 ! l) = (rsv, b)" by (cases "Reserve api ?now (limiters c1 ! l)")
  show "denied api cfg r c = denied api cfg r' d"
    by (simp add: denied_def now r c1 d1 l lims rs)
  show "same_table (server_state (snd (RateLimit api cfg h r c))) (server_state (snd (RateLimit api cfg k r' d)))"
    using st after [of c d] after upd
    by (simp add: RateLimit_def now r c1 d1 l lims rs respond_def on_resp_def Let_def)
qed

lemma keeps_table_count_pass: "keeps_table count_pass"
  by (simp add: keeps_table_def same_table_def count_pass_def respond_def on_resp_def)

lemma keeps_table_serve_route: "keeps_table (serve_route se rt)"
proof (cases rt)
  case MetricsRoute
  have "same_table (server_state (snd (combined_ServeHTTP fmt r c))) (server_state c)" for fmt r and c :: "'a app conn"
    by (auto simp: combined_ServeHTTP_def same_table_def respond_def on_resp_def Let_def split: prod.split)
  then show ?thesis by (simp add: keeps_table_def serve_route_def MetricsRoute)
qed (auto simp: keeps_table_def serve_route_def respond_def on_resp_def health_ServeHTTP_def profile_ServeHTTP_def Let_def
      split: option.split sum.split)

lemma keeps_table_mux: "stdlib_answers other \<Longrightarrow> keeps_table (mux se other ms)"
  by (auto simp: keeps_table_def mux_def stdlib_answers_def split: option.split
      intro: keeps_table_serve_route [unfolded keeps_table_def, rule_format])


section \<open>The service acts on the table as its traffic does\<close>

lemma Build_state:
  "server_state (snd (Build api cfg nxt r c)) = server_state (snd (inner_chain api cfg nxt (fst (entered r c)) (snd (entered r c))))"
  by (auto simp: Build_def Recovery_def RequestID_def AccessLog_def inner_chain_def entered_def request_id_def
      on_resp_def RequestIDFromContext_def respond_def Let_def split: prod.split served.split)

lemma play_passed:
  "passed (play api cfg (Ask r now) t) =
     (if denied api cfg r (arriving now t) then passed t else (r, now) # passed t)"
proof (cases "denied api cfg r (arriving now t)")
  case True
  obtain sv w where "RateLimit api cfg count_pass r (arriving now t) = (Returned, (arriving now t)\<lparr>server_state := sv, resp := w\<rparr>)"
    "rate_limiter.more sv = rate_limiter.more t"
    using RateLimit_denied [OF True, of count_pass] by auto
  then show ?thesis using True by (cases sv; cases t) simp
next
  case False
  obtain sv where "RateLimit api cfg count_pass r (arriving now t) = count_pass r ((arriving now t)\<lparr>server_state := sv\<rparr>)"
    "rate_limiter.more sv = rate_limiter.more t"
    using RateLimit_admitted [OF False, of count_pass] by auto
  then show ?thesis
    using False by (cases sv; cases t) (simp add: count_pass_def respond_def on_resp_def arriving_def)
qed

definition mirrors :: "'l service \<Rightarrow> 'l counted \<Rightarrow> bool" where
  "mirrors s t \<longleftrightarrow> same_table (app_of s) t"

lemma arrival_mirrored:
  fixes s :: "'l service" and a :: arrival
  assumes other: "stdlib_answers (std_mux st)" and m: "mirrors s t"
  defines "rc \<equiv> rate_of (RateLimitCfg (cfg_of st))" and "now \<equiv> clock_now (readings a)"
  shows "past_cors (cfg_of st) (req a) \<Longrightarrow> mirrors (service_step st (Arrival a) s) (play (api_of st) rc (Ask (req a) now) t)"
    "past_cors (cfg_of st) (req a) \<Longrightarrow> reaches_mux st a s = (\<not> denied (api_of st) rc (req a) (arriving now t))"
    "\<not> past_cors (cfg_of st) (req a) \<Longrightarrow> app_of (service_step st (Arrival a) s) = app_of s \<and> \<not> reaches_mux st a s"
proof -
  let ?c = "\<lparr>server_state = app_of s, resp = response_writer (req a), log_out = log_of s, env = readings a\<rparr>"
  let ?mux = "mux ((env_of st)\<lparr>age_clock := age_readings a\<rparr>) (std_mux st) (routed st)"
  let ?r = "fst (entered (req a) ?c)" and ?d = "snd (entered (req a) ?c)"
  have step: "app_of (service_step st (Arrival a) s) = server_state (snd (inner_chain (api_of st) (cfg_of st) ?mux ?r ?d))"
    by (simp add: serve_arrival_def listener_def Build_state case_prod_beta)
  have ip: "rate_clientIP cfg ?r = rate_clientIP cfg (req a)" for cfg by (simp add: entered_def)
  show "mirrors (service_step st (Arrival a) s) (play (api_of st) rc (Ask (req a) now) t)"
    if p: "past_cors (cfg_of st) (req a)"
    unfolding mirrors_def step play.simps rc_def now_def
    using p m keeps_table_mux [OF other] keeps_table_count_pass
    by (subst inner_chain_passed) (auto intro!: RateLimit_same(1) simp: mirrors_def ip)
  have "denied (api_of st) rc (req a) \<lparr>server_state = app_of s, resp = response_writer (req a), log_out = [], env = readings a\<rparr>
      = denied (api_of st) rc (req a) (arriving now t)"
    using m keeps_table_mux [OF other] keeps_table_count_pass
    by (intro RateLimit_same(2)) (simp_all add: mirrors_def now_def)
  then show "reaches_mux st a s = (\<not> denied (api_of st) rc (req a) (arriving now t))"
    if "past_cors (cfg_of st) (req a)"
    using that by (simp add: reaches_mux_eq rc_def)
  show "app_of (service_step st (Arrival a) s) = app_of s \<and> \<not> reaches_mux st a s"
    if p: "\<not> past_cors (cfg_of st) (req a)"
    using p by (simp only: step reaches_mux_eq) (simp add: inner_chain_stopped respond_def)
qed

lemma step_mirrored:
  fixes ev :: service_event
  assumes "stdlib_answers (std_mux st)" "limits (rate_of (RateLimitCfg (cfg_of st)))" "mirrors s t"
  defines "t1 \<equiv> fold (play (api_of st) (rate_of (RateLimitCfg (cfg_of st)))) (traffic_of (cfg_of st) ev) t"
  shows "mirrors (service_step st ev s) t1"
    "passed t1 = rev (through st [ev] s) @ passed t"
proof -
  have "mirrors (service_step st ev s) t1 \<and> passed t1 = rev (through st [ev] s) @ passed t"
  proof (cases ev)
    case (Sampling x)
    then show ?thesis
      using assms(3) by (simp add: t1_def traffic_of_def mirrors_def same_table_def split: prod.split)
  next
    case (Cleanup now)
    have "same_table (cleanup now idle (app_of s)) (cleanup now idle t)" for idle
      using assms(3) by (simp add: cleanup_same mirrors_def)
    then show ?thesis using assms(2) by (simp add: Cleanup t1_def traffic_of_def mirrors_def)
  next
    case (Arrival a)
    note A = arrival_mirrored [OF assms(1,3), of a]
    show ?thesis
    proof (cases "past_cors (cfg_of st) (req a)")
      case True
      then show ?thesis
        using A(1,2) play_passed [of "api_of st" "rate_of (RateLimitCfg (cfg_of st))" "req a" "clock_now (readings a)" t]
        by (simp add: Arrival t1_def traffic_of_def del: play.simps service_step.simps)
    next
      case False
      then show ?thesis
        using A(3) assms(3) by (simp add: Arrival t1_def traffic_of_def mirrors_def del: service_step.simps)
    qed
  qed
  then show "mirrors (service_step st ev s) t1" "passed t1 = rev (through st [ev] s) @ passed t" by simp_all
qed

lemma run_mirrored:
  assumes "stdlib_answers (std_mux st)" "limits (rate_of (RateLimitCfg (cfg_of st)))"
  shows "mirrors s t \<Longrightarrow>
    passed (fold (play (api_of st) (rate_of (RateLimitCfg (cfg_of st)))) (concat (map (traffic_of (cfg_of st)) evs)) t)
      = rev (through st evs s) @ passed t"
proof (induction evs arbitrary: s t)
  case (Cons ev evs)
  note step = step_mirrored [OF assms Cons.prems, of ev]
  have "through st (ev # evs) s = through st [ev] s @ through st evs (service_step st ev s)"
    by (simp del: service_step.simps)
  then show ?case
    using Cons.IH [OF step(1)] step(2) by (simp del: play.simps service_step.simps through.simps)
qed simp


definition clock_of :: "service_event \<Rightarrow> instant list" where
  \<comment> \<open>the reading of the clock at an event that touches the table\<close>
  "clock_of ev = (case ev of Sampling t \<Rightarrow> [] | Cleanup now \<Rightarrow> [now] | Arrival a \<Rightarrow> [clock_now (readings a)])"

lemma traffic_in_order:
  "sorted (concat (map clock_of evs)) \<Longrightarrow> sorted (map time_of (concat (map (traffic_of cfg) evs)))
     \<and> time_of ` set (concat (map (traffic_of cfg) evs)) \<subseteq> set (concat (map clock_of evs))"
proof (induction evs)
  case (Cons ev evs)
  then show ?case
    by (cases ev) (auto simp: sorted_append clock_of_def traffic_of_def)
qed simp

lemma idle_time [simp]: "IdleEvictAfter (with_defaults (rate_of l)) = 600 * second"
  by (simp add: with_defaults_def rate_of_def rate_config.make_def Let_def)

section \<open>Properties\<close>

text \<open>
  C5. The configured rate is what the running service keeps: under a loaded configuration with the limiter
  on and a burst that refills within the ten minutes of idle time (at most 600 times the rate), whatever
  ticks, clean-ups and requests the service meets, in order of time, in any stretch of time at most the burst and the refill of that stretch of one client's requests for limited
  paths get through the chain to the mux. The proviso on the burst, which \<open>Validate\<close> does not demand, is
  needed: see \<open>eviction_renews_burst\<close>.
\<close>

theorem service_keeps_rate:
  assumes tb: "token_bucket api q b tok ok"
    and load: "Load file = Inr cfg" and other: "stdlib_answers other"
    and st: "st = running_site api cfg se other ms"
    and on: "rsEnabled (RateLimitCfg cfg)" and q: "rsRequestsPerSecond (RateLimitCfg cfg) = Fin q"
    and b: "rsBurst (RateLimitCfg cfg) = b" "of_int b \<le> 600 * q"
    and order: "sorted (concat (map clock_of evs))" and t: "t1 \<le> t2"
  shows "of_nat (length (filter (\<lambda>(r, t). limited (rate_of (RateLimitCfg cfg)) ip r \<and> t1 \<le> t \<and> t \<le> t2)
           (through st evs (service_start ms h1 ls))))
    \<le> of_int b + q * of_int (t2 - t1 + 1) / of_int second"
proof -
  let ?rc = "rate_of (RateLimitCfg cfg)" and ?es = "concat (map (traffic_of cfg) evs)"
  let ?t = "fold (play api ?rc) ?es no_traffic"
  have lim: "limits ?rc" using loaded_config_enforced [OF load] on by blast
  have site: "api_of st = api" "cfg_of st = cfg" "std_mux st = other" by (simp_all add: st running_site_def)
  have "mirrors (service_start ms h1 ls) no_traffic"
    by (simp add: mirrors_def same_table_def service_start_def)
  from run_mirrored [of st, unfolded site, OF other lim this, of evs]
  have log: "passed ?t = rev (through st evs (service_start ms h1 ls))" by simp
  have "of_nat (passes ?rc ip t1 t2 ?t) \<le> of_int b + q * of_int (t2 - t1 + 1) / of_int second"
  proof (rule rate_is_bounded [OF tb lim _ _ _ _ t])
    show "of_int b * of_int second \<le> q * of_int (IdleEvictAfter (with_defaults ?rc))"
      using b(2) by simp
    show "sorted (map time_of ?es)" using traffic_in_order [OF order] by blast
  qed (simp_all add: q b(1))
  then show ?thesis by (simp add: passes_def log rev_filter [symmetric])
qed


definition limited_site :: "bucket site" where
  "limited_site = running_site bucket_api (applyDefaults gpu_file)
     (new_server_env (\<lambda>_. ''now'') 0 (\<lambda>_. 0) demo_clock ''go1.25'' (Inl ''denied'') '''' (applyDefaults gpu_file) [])
     not_found []"

definition asks_at :: "int \<Rightarrow> arrival" where
  "asks_at t = (arrives ''/metrics/cpu'')\<lparr>readings := \<lparr>entropy = None, clock_now = t * second, elapsed = 0\<rparr>\<rparr>"

definition burst_events :: "service_event list" where
  "burst_events = [Arrival (asks_at 5), Arrival (asks_at 5), Sampling (MemTick (mem_ok_reading 6 350)),
     Arrival (asks_at 7), Cleanup (700 * second), Arrival (asks_at 700), Arrival (asks_at 700)]"

lemma burst_through: "length (through limited_site burst_events (service_start [] run3_heap [])) = 3"
  by code_simp

theorem service_keeps_rate_witness:
  "length (through limited_site burst_events (service_start [] run3_heap [])) = 3
   \<and> length (filter (\<lambda>(r, t). limited (rate_of (RateLimitCfg (applyDefaults gpu_file))) ''10.0.0.9'' r \<and> 5 * second \<le> t \<and> t \<le> 5 * second)
       (through limited_site burst_events (service_start [] run3_heap []))) \<le> 1"
proof -
  let ?n = "length (filter (\<lambda>(r, t). limited (rate_of (RateLimitCfg (applyDefaults gpu_file))) ''10.0.0.9'' r \<and> 5 * second \<le> t \<and> t \<le> 5 * second)
       (through limited_site burst_events (service_start [] run3_heap [])))"
  have f: "RateLimitCfg (applyDefaults gpu_file) = RateLimitCfg demo_config"
    by (simp add: gpu_file_def demo_file_def demo_config_def applyDefaults_def default_defs Let_def)
  have "of_nat ?n \<le> of_int 1 + 1 * of_int (5 * second - 5 * second + 1) / (of_int second :: rat)"
    by (rule service_keeps_rate [OF demo_bucket gpu_file_loads not_found_answers limited_site_def])
      (simp_all add: f demo_config_def burst_events_def clock_of_def asks_at_def)
  then have "of_nat ?n < (of_nat 2 :: rat)" by simp
  then have "?n \<le> 1" by (simp only: of_nat_less_iff)
  then show ?thesis using burst_through by blast
qed

end
