(* ===== verification/Delivery.thy ===== *)
theory Delivery
  imports Service
begin

text \<open>
  From the sampler to the client, continued: the history a running service serves
  (\<^verbatim>\<open>metrics/base.go\<close>, the handler of \<open>/metrics/<name>/history\<close>, behind the whole chain), in terms of the
  readings its module has taken and of the query the client sent.
\<close>

section \<open>The history handler\<close>

definition trimmed :: "int \<Rightarrow> 'a list \<Rightarrow> 'a list" where
  \<comment> \<open>the newest \<open>limit\<close> entries; zero is no limit\<close>
  "trimmed limit xs = (if limit = 0 then xs else lastn (nat limit) xs)"

lemma BuildHistoryResponse_trimmed:
  "0 \<le> limit \<Longrightarrow> BuildHistoryResponse d xs limit
     = history_response.make (int_Seconds d) (int (length (trimmed limit xs))) (trimmed limit xs)"
  using BuildHistoryResponse_lastn [of limit d xs]
  by (intro history_response.equality)
    (simp_all add: history_response.make_def trimmed_def, simp add: BuildHistoryResponse_def Let_def)

lemma encodable_history:
  "\<forall>x \<in> set (Samples hr). encodable (enc x) \<Longrightarrow> encodable (json_of_history enc hr)"
  by (simp add: json_of_history_def list_all_iff)

lemma serve_history_wire:
  assumes "unsent w" "ParseDurationParam (rquery r ''duration'') (wrap64 (Interval bs * 60)) = (d, ok)"
    and "\<forall>x \<in> set (history d). encodable (enc x)"
  defines "limit \<equiv> ParseLimitParam (rquery r ''limit'')"
  shows "wire_status (serve_history (Some bs) history enc None r w) = Some (if ok then 200 else 400)"
    "written (serve_history (Some bs) history enc None r w) =
       (if ok then [Doc (json_of_history enc (history_response.make (int_Seconds d)
                      (int (length (trimmed limit (history d)))) (trimmed limit (history d))))]
        else [Text (invalid_duration @ [CHR 0x0A])])"
    "head_only (wire (serve_history (Some bs) history enc None r w)) = head_only (wire w)"
proof -
  have l: "0 \<le> limit" using ParseLimitParam_range by (simp add: limit_def)
  have "set (trimmed limit (history d)) \<subseteq> set (history d)"
    by (auto simp: trimmed_def lastn_def dest: in_set_dropD)
  then have "encodable (json_of_history enc (BuildHistoryResponse d (history d) limit))"
    using assms(3) by (intro encodable_history) (auto simp: BuildHistoryResponse_trimmed [OF l] history_response.make_def)
  then show "wire_status (serve_history (Some bs) history enc None r w) = Some (if ok then 200 else 400)"
    "written (serve_history (Some bs) history enc None r w) =
       (if ok then [Doc (json_of_history enc (history_response.make (int_Seconds d)
                      (int (length (trimmed limit (history d)))) (trimmed limit (history d))))]
        else [Text (invalid_duration @ [CHR 0x0A])])"
    "head_only (wire (serve_history (Some bs) history enc None r w)) = head_only (wire w)"
    using assms(1,2) WriteJSON_wire http_Error_wire
    by (simp_all add: serve_history_def callDisabled_def limit_def [symmetric] BuildHistoryResponse_trimmed [OF l, symmetric],
      simp add: WriteJSON_def)
qed

section \<open>Properties\<close>

text \<open>
  C31. What the sampler measured over time is what the history shows: in a running service, a GET of
  \<open>/metrics/memory/history\<close> that its bucket admits is answered 400 when its duration does not parse, and
  otherwise 200 with the readings of the last \<open>capacity\<close> ticks, the one at start-up included, that lie in
  the asked window, oldest first, cut to the newest \<open>limit\<close> ones.
\<close>

theorem memory_history_reaches_client:
  assumes "Load file = Inr cfg" "buildModules cfg hs h = (Inr (ms, h1), tr)" "stdlib_answers other"
    and se: "se = new_server_env fmt start clk lc v boot hn cfg ms"
    and st: "st = running_site api cfg se other ms"
    and s: "s = fold (service_step st) evs (service_start ms h1 [])"
    and enc: "\<forall>e \<in> set (mem_first hs # mem_ticks evs). encodable (json_of_mem_sample (mem_sample_of e))"
    and on: "Memory_Enabled (Modules cfg)"
    and get: "rmethod (req a) = ''GET''" "rpath (req a) = ''/metrics/memory/history''"
    and admitted: "\<not> denied api (rate_of (RateLimitCfg cfg)) (req a)
       \<lparr>server_state = app_of s, resp = response_writer (req a), log_out = log_of s, env = readings a\<rparr>"
    and window: "ParseDurationParam (rquery (req a) ''duration'') (wrap64 (interval cfg * 60)) = (d, ok)"
    and kept: "kept = trimmed (ParseLimitParam (rquery (req a) ''limit''))
       (filter (\<lambda>x. clock_now (readings a) - d \<le> mem_sample.Timestamp x)
          (lastn (nat (capacity cfg)) (map mem_sample_of (mem_first hs # mem_ticks evs))))"
  shows "\<exists>c1. serve_arrival st a s = (Returned, c1) \<and> wire_status (resp c1) = Some (if ok then 200 else 400)
    \<and> wire_body (resp c1) =
        (if ok then [Doc (json_of_history json_of_mem_sample
                       (history_response.make (int_Seconds d) (int (length kept)) kept))]
         else [Text (invalid_duration @ [CHR 0x0A])])"
proof -
  let ?es = "mem_first hs # mem_ticks evs" and ?now = "clock_now (readings a)"
  obtain b where b: "NewBase mem_zero_sample (interval cfg) (capacity cfg) = Inr b"
    and s': "app_ok (map mod_Name (routed st)) (app_of s)" "distinct (map mod_Name (routed st))"
    and x: "MemMod (fold mem_collectOnce ?es
        \<lparr>mem_base = Some b, mem_profile_info = captureProfile (mem_for_profile hs)\<rparr>) \<in> set (app_mods (app_of s))"
    by (rule memory_in_service [OF assms(1-6) on])
  let ?start = "\<lparr>mem_base = Some b, mem_profile_info = captureProfile (mem_for_profile hs)\<rparr>"
  let ?m = "fold mem_collectOnce ?es ?start"
  have inv: "base_inv b" by (rule NewBase_inv [OF b])
  have new: "Interval b = interval cfg" "Snapshot (buf b) = []" "Cap (buf b) = capacity cfg"
    using NewBase_fields [OF b] by simp_all
  obtain b' where b': "mem_base ?m = Some b'" "Interval b' = interval cfg"
    using mem.collects_base [where m = ?start and b = b and es = ?es] inv new(1) by auto
  have hist: "mem_History ?now ?m d = filter (\<lambda>x. ?now - d \<le> mem_sample.Timestamp x) (lastn (nat (capacity cfg)) (map mem_sample_of ?es))" for d
    using mem.history_after [where m = ?start and b = b and es = ?es and now = ?now] inv new
    by (simp only: mem_samples_map mem_module.simps append_Nil)
  have "set (mem_History ?now ?m d) \<subseteq> mem_sample_of ` set ?es" for d
    unfolding hist by (auto simp: lastn_def dest: in_set_dropD)
  then have encs: "\<forall>x \<in> set (mem_History ?now ?m d). encodable (json_of_mem_sample x)" for d using enc by blast
  have adm: "\<not> denied (api_of st) (rate_of (RateLimitCfg (cfg_of st))) (req a)
       \<lparr>server_state = app_of s, resp = response_writer (req a), log_out = log_of s, env = readings a\<rparr>"
    using admitted by (simp add: st running_site_def)
  have path: "rpath (req a) = ''/metrics/'' @ mod_Name (MemMod ?m) @ ''/history''" by (simp add: get(2))
  obtain c1 w r where c1: "serve_arrival st a s = (Returned, c1)" "unsent w" "rquery r = rquery (req a)"
    "\<not> head_only (wire w)"
    "wire (resp c1) = wire (mem_serve_history ?now ?m r w)"
    using history_served [OF s' x get(1) path adm] by auto
  have e: "mem_serve_history ?now ?m r w = serve_history (Some b') (mem_History ?now ?m) json_of_mem_sample None r w"
    by (simp only: mem_serve_history_def b'(1))
  have "ParseDurationParam (rquery r ''duration'') (wrap64 (Interval b' * 60)) = (d, ok)"
    using window by (simp only: c1(3) b'(2))
  note wire = serve_history_wire [where history = "mem_History ?now ?m", OF c1(2) this encs]
  show ?thesis
    using c1(1,4) wire by (intro exI [of _ c1]) (simp only: wire_status_def wire_body_def written_def c1(3,5) e kept hist if_False simp_thms)
qed

definition asks_history :: arrival where
  \<comment> \<open>the newest two readings of the last three seconds, asked at second 5\<close>
  "asks_history = (arrives ''/metrics/memory/history'')\<lparr>req := get_request ''/metrics/memory/history''
     ((\<lambda>_. '''')(''duration'' := ''3s'', ''limit'' := ''2''))\<rparr>"

definition three_ticks :: "service_event list" where
  "three_ticks = map (\<lambda>t. Sampling (MemTick (mem_ok_reading t 350))) [2, 3, 4]"

lemma three_mem_ticks: "mem_ticks three_ticks = map (\<lambda>t. mem_ok_reading t 350) [2, 3, 4]"
  by (simp add: three_ticks_def)

lemma stamp_mem_ok [simp]: "mem_sample.Timestamp (mem_sample_of (mem_ok_reading t v)) = t * second"
  by (simp add: mem_sample_of_def mem_ok_reading_def)

lemma after_memory_ticks:
  "byIP (app_of (fold (service_step st) (map (\<lambda>e. Sampling (MemTick e)) es) s)) = byIP (app_of s)"
  "limiters (app_of (fold (service_step st) (map (\<lambda>e. Sampling (MemTick e)) es) s)) = limiters (app_of s)"
  by (induction es arbitrary: s) (simp_all split: prod.split)

theorem memory_history_reaches_client_witness:
  "\<exists>ms h1 tr c1. buildModules (applyDefaults gpu_file) demo_host run3_heap = (Inr (ms, h1), tr)
    \<and> serve_arrival (demo_site ms) asks_history (fold (service_step (demo_site ms)) three_ticks (service_start ms h1 [])) = (Returned, c1)
    \<and> wire_status (resp c1) = Some 200
    \<and> wire_body (resp c1) = [Doc (json_of_history json_of_mem_sample
        (history_response.make 3 2 (map mem_sample_of [mem_ok_reading 3 350, mem_ok_reading 4 350])))]"
proof -
  let ?hs = "demo_host" and ?cfg = "applyDefaults gpu_file"
  obtain ms h1 tr where b: "buildModules ?cfg ?hs run3_heap = (Inr (ms, h1), tr)" by (rule demo_built)
  define s where "s = fold (service_step (demo_site ms)) three_ticks (service_start ms h1 [])"
  let ?kept = "map mem_sample_of [mem_ok_reading 3 350, mem_ok_reading 4 350]"
  have first: "mem_first ?hs = mem_ok_reading 1 300" by (simp add: demo_host_def)
  have enc: "\<forall>e \<in> set (mem_first ?hs # mem_ticks three_ticks). encodable (json_of_mem_sample (mem_sample_of e))"
    unfolding three_mem_ticks first
    by (simp add: mem_sample_of_def mem_ok_reading_def vm_of_def json_of_mem_sample_def omit_string_def omit_int_def)
  have on: "Memory_Enabled (Modules ?cfg)" by (simp add: gpu_file_def applyDefaults_def)
  have get: "rmethod (req asks_history) = ''GET''" "rpath (req asks_history) = ''/metrics/memory/history''"
    by (simp_all add: asks_history_def get_request_def)
  have "0 < Burst (rate_of (RateLimitCfg ?cfg))"
    by (simp add: gpu_file_def demo_file_def demo_config_def applyDefaults_def default_defs Let_def)
  moreover have "byIP (app_of s) = Map.empty" "limiters (app_of s) = []"
    using after_memory_ticks [of "demo_site ms" "map (\<lambda>t. mem_ok_reading t 350) [2, 3, 4]" "service_start ms h1 []"]
    by (simp_all add: s_def three_ticks_def service_start_def)
  ultimately have adm: "\<not> denied toy_api (rate_of (RateLimitCfg ?cfg)) (req asks_history)
       \<lparr>server_state = app_of s, resp = response_writer (req asks_history), log_out = log_of s, env = readings asks_history\<rparr>"
    by (intro first_request_admitted) simp_all
  have "ParseDuration ''3s'' = Some (3 * second)" "ParseLimitParam ''2'' = 2" by code_simp+
  then have query: "ParseDurationParam (rquery (req asks_history) ''duration'') (wrap64 (interval ?cfg * 60)) = (3 * second, True)"
    "ParseLimitParam (rquery (req asks_history) ''limit'') = 2"
    by (simp_all add: asks_history_def get_request_def ParseDurationParam_def)
  have cap: "nat (capacity ?cfg) = 60"
    by (simp add: gpu_file_def demo_file_def demo_config_def applyDefaults_def default_defs zero_config_def Let_def)
  have kept: "?kept = trimmed (ParseLimitParam (rquery (req asks_history) ''limit''))
       (filter (\<lambda>x. clock_now (readings asks_history) - 3 * second \<le> mem_sample.Timestamp x)
          (lastn (nat (capacity ?cfg)) (map mem_sample_of (mem_first ?hs # mem_ticks three_ticks))))"
    unfolding query(2) cap three_mem_ticks first
    by (simp add: asks_history_def arrives_def trimmed_def lastn_def)
  have "int_Seconds (3 * second) = 3" by (subst int_Seconds_exact) simp_all
  then have "\<exists>c1. serve_arrival (demo_site ms) asks_history s = (Returned, c1) \<and> wire_status (resp c1) = Some 200
      \<and> wire_body (resp c1) = [Doc (json_of_history json_of_mem_sample (history_response.make 3 2 ?kept))]"
    using memory_history_reaches_client [OF gpu_file_loads b not_found_answers HOL.refl demo_site_def s_def enc on get adm query(1) kept]
    by simp
  then show ?thesis using b unfolding s_def by blast
qed

end
