(* ===== verification/Cpu_Peak.thy ===== *)
theory Cpu_Peak
  imports Cpu
begin

text \<open>
  What peak requests answer over the life of a CPU module (\<^verbatim>\<open>internal/cpu/module.go\<close>). \<open>Peak\<close> writes the maxima into
  the array of the newest in-window sample, so a later request reads them there. A run of ticks and peak
  requests is compared with the run of the same ticks alone, whose arrays hold what was measured.
\<close>

section \<open>Raised values\<close>

definition raised :: "f64 \<Rightarrow> f64 \<Rightarrow> bool" where
  "raised x y \<longleftrightarrow> y = x \<or> f64_gt y x"

lemma raised_refl [simp]: "raised x x"
  by (simp add: raised_def)

lemma raised_trans: "raised x y \<Longrightarrow> raised y z \<Longrightarrow> raised x z"
  unfolding raised_def using f64_gt_trans by blast

lemma raised_not_below: "raised x y \<Longrightarrow> \<not> f64_gt y v \<Longrightarrow> \<not> f64_gt x v"
  unfolding raised_def using f64_gt_trans by blast

lemma raised_max: "raised a (f64_max a v)"
  by (simp add: raised_def f64_max_def)

lemma raised_fold: "raised a (fold (\<lambda>s acc. f64_max acc (f s)) ws a)"
proof (induction ws arbitrary: a)
  case (Cons w ws)
  have "raised (f64_max a (f w)) (fold (\<lambda>s acc. f64_max acc (f s)) ws (f64_max a (f w)))" by (rule Cons.IH)
  from raised_trans [OF raised_max this] show ?case by simp
qed simp

section \<open>The run without its peak requests\<close>

primrec tick_of :: "cpu_op \<Rightarrow> cpu_reading option" where
  "tick_of (Sampled e) = Some e"
| "tick_of (PeakRequest now d) = None"

definition cpu_ticks :: "cpu_op list \<Rightarrow> cpu_reading list" where
  "cpu_ticks ops = List.map_filter tick_of ops"

lemma cpu_ticks_simps [simp]:
  "cpu_ticks [] = []" "cpu_ticks (Sampled e # ops) = e # cpu_ticks ops" "cpu_ticks (PeakRequest now d # ops) = cpu_ticks ops"
  by (simp_all add: cpu_ticks_def List.map_filter_def)

lemma in_cpu_ticks: "e \<in> set (cpu_ticks ops) \<longleftrightarrow> Sampled e \<in> set ops"
proof (induction ops)
  case (Cons op ops)
  then show ?case by (cases op) auto
qed simp

definition measured :: "cpu_reading list \<Rightarrow> nat \<Rightarrow> f64 set" where
  \<comment> \<open>the percentages of core \<open>i\<close> in these readings\<close>
  "measured es i = {v. \<exists>e \<in> set es. \<exists>xs. per_core_reading e = Inr xs \<and> v = xs ! i}"

primrec op_ok :: "nat \<Rightarrow> cpu_op \<Rightarrow> bool" where
  \<comment> \<open>a reading that does not fail is of \<open>n\<close> cores; a window does not reach back to the year 1\<close>
  "op_ok n (Sampled e) = (\<forall>xs. per_core_reading e = Inr xs \<longrightarrow> length xs = n)"
| "op_ok n (PeakRequest now d) = (zero_time < now - d)"

text \<open>
  \<open>tracked\<close>: the array of a sample holds for each core the measured value or a larger one; and when the sample
  was taken at a time \<open>Q\<close> admits, it is one of the values \<open>V\<close>. The second store is the one without requests.
\<close>

definition tracked :: "nat \<Rightarrow> (instant \<Rightarrow> bool) \<Rightarrow> (nat \<Rightarrow> f64 set) \<Rightarrow> heap \<Rightarrow> heap \<Rightarrow> cpu_sample \<Rightarrow> bool" where
  "tracked n Q V h h0 s \<longleftrightarrow>
     (if PerCorePercent s = None then Timestamp s = zero_time
      else length (elems h (PerCorePercent s)) = n \<and> length (elems h0 (PerCorePercent s)) = n
        \<and> (\<forall>i < n. raised (elems h0 (PerCorePercent s) ! i) (elems h (PerCorePercent s) ! i)
             \<and> (Q (Timestamp s) \<longrightarrow> elems h (PerCorePercent s) ! i \<in> V i)))"

definition twin :: "nat \<Rightarrow> (instant \<Rightarrow> bool) \<Rightarrow> (nat \<Rightarrow> f64 set) \<Rightarrow> cpu_state \<Rightarrow> cpu_state \<Rightarrow> bool" where
  "twin n Q V st st0 \<longleftrightarrow> fst st = fst st0 \<and> next_addr (snd st) = next_addr (snd st0) \<and> cpu_inv st
     \<and> (\<forall>b. cpu_base (fst st) = Some b \<longrightarrow> (\<forall>s \<in> set (Snapshot (buf b)). tracked n Q V (snd st) (snd st0) s))"

lemma tracked_same:
  "elems g (PerCorePercent s) = elems h (PerCorePercent s) \<Longrightarrow> elems g0 (PerCorePercent s) = elems h0 (PerCorePercent s)
     \<Longrightarrow> tracked n Q V g g0 s = tracked n Q V h h0 s"
  by (simp add: tracked_def)

lemma twin_tick:
  assumes t: "twin n Q V st st0"
    and e: "\<And>xs. per_core_reading e = Inr xs \<Longrightarrow> length xs = n \<and> (Q (stamp_clock e) \<longrightarrow> (\<forall>i < n. xs ! i \<in> V i))"
  shows "twin n Q V (cpu_collectOnce e st) (cpu_collectOnce e st0)"
proof -
  obtain m h h0 where st: "st = (m, h)" "st0 = (m, h0)" "next_addr h0 = next_addr h"
    using t by (cases st; cases st0) (auto simp: twin_def)
  have inv: "cpu_inv (m, h)" using t by (simp add: twin_def st)
  then obtain b where b: "cpu_base m = Some b" "base_inv b" and old: "\<forall>a \<in> set (slots (Snapshot (buf b))). a < next_addr h"
    by (auto simp: cpu_inv_def)
  have tr: "\<forall>s \<in> set (Snapshot (buf b)). tracked n Q V h h0 s" using t b(1) by (simp add: twin_def st)
  obtain s h1 where s: "collectSample e h = (s, h1)" by (cases "collectSample e h")
  obtain h2 where s0: "collectSample e h0 = (s, h2)" "next_addr h2 = next_addr h1"
    and kept: "\<forall>a < next_addr h. cells h1 a = cells h a \<and> cells h2 a = cells h0 a" and new: "tracked n Q V h1 h2 s"
  proof (cases "\<exists>err. overall_reading e = Inl err \<or> per_core_reading e = Inl err")
    case True
    then show thesis using s st(3) that [of h0]
      by (auto simp: collectSample_def tracked_def cpu_zero_sample_def split: sum.splits)
  next
    case False
    then obtain ov xs where "overall_reading e = Inr ov" "per_core_reading e = Inr xs"
      by (metis sum.exhaust)
    then show thesis
      using s st(3) e [of xs] that [of "h0\<lparr>cells := (cells h0)(next_addr h0 := xs), next_addr := Suc (next_addr h0)\<rparr>"]
      by (auto simp: collectSample_def alloc_def tracked_def elems_def)
  qed
  have "tracked n Q V h1 h2 u" if u: "u \<in> set (Snapshot (buf b))" for u
  proof -
    have "elems h1 (PerCorePercent u) = elems h (PerCorePercent u)" "elems h2 (PerCorePercent u) = elems h0 (PerCorePercent u)"
      using kept old u by (auto simp: elems_def set_slots split: option.split)
    from tracked_same [OF this] tr u show ?thesis by simp
  qed
  moreover have "set (Snapshot (Push s (buf b))) \<subseteq> insert s (set (Snapshot (buf b)))"
    using b(2) set_lastn by (fastforce simp: base_inv_def Snapshot_Push)
  moreover have "cpu_inv (cpu_collectOnce e st)" using inv by (simp add: st cpu_collectOnce_inv)
  ultimately show ?thesis
    using new s0 by (auto simp: twin_def st cpu_collectOnce_def s b(1))
qed

text \<open>The retained samples of a window, all of \<open>n\<close> cores.\<close>

lemma twin_window:
  assumes t: "twin n Q V (m, h) (m, h0)" and w: "zero_time < now - d" and s: "s \<in> set (cpu_History now (m, h) d)"
  shows "PerCorePercent s \<noteq> None" "tracked n Q V h h0 s" "now - d \<le> Timestamp s"
proof -
  obtain b where b: "cpu_base m = Some b" using t by (auto simp: twin_def cpu_inv_def)
  then have "s \<in> set (Snapshot (buf b))" "now - d \<le> Timestamp s"
    using s by (auto simp: cpu_History_filter before_def)
  then show "tracked n Q V h h0 s" "now - d \<le> Timestamp s" using t b by (simp_all add: twin_def)
  then show "PerCorePercent s \<noteq> None" using w by (auto simp: tracked_def split: if_splits)
qed

lemma twin_width:
  assumes "twin n Q V (m, h) (m, h0)" "zero_time < now - d" "s \<in> set (cpu_History now (m, h) d)"
  shows "length (elems h (PerCorePercent s)) = n"
  using twin_window [OF assms] by (simp add: tracked_def)

lemma twin_peak:
  assumes t: "twin n Q V st st0" and n: "0 < n" and w: "zero_time < now - d" and Q: "\<forall>u \<ge> now - d. Q u"
  shows "twin n Q V (snd (cpu_Peak now d st)) st0"
proof -
  obtain m h h0 where st: "st = (m, h)" "st0 = (m, h0)" using t by (cases st; cases st0) (auto simp: twin_def)
  note t' = t [unfolded st]
  have inv: "cpu_inv (m, h)" using t' by (simp add: twin_def)
  then obtain b where b: "cpu_base m = Some b" by (auto simp: cpu_inv_def)
  show ?thesis
  proof (cases "cpu_History now (m, h) d" rule: rev_cases)
    case Nil
    then show ?thesis using t' by (simp add: st cpu_Peak_empty [OF b])
  next
    case (snoc vs w')
    let ?L = "PerCorePercent w'" and ?c = "\<lambda>s i. elems h (PerCorePercent s) ! i"
    have W: "s \<in> set (vs @ [w']) \<Longrightarrow> s \<in> set (cpu_History now (m, h) d)" for s by (simp add: snoc)
    obtain p h1 where p: "cpu_Peak now d (m, h) = (Ptr (Some p), (m, h1))" "length (elems h1 ?L) = n"
        "\<forall>i < n. elems h1 ?L ! i = fold (\<lambda>s acc. f64_max acc (?c s i)) (rev vs) (?c w' i)"
        "\<forall>t. t \<noteq> ?L \<longrightarrow> elems h1 t = elems h t" "next_addr h1 = next_addr h"
      using cpu_Peak_cores [OF inv snoc n] twin_width [OF t' w W] by blast
    have val: "raised (?c w' i) (elems h1 ?L ! i) \<and> elems h1 ?L ! i \<in> V i" if i: "i < n" for i
    proof
      show "raised (?c w' i) (elems h1 ?L ! i)" using p(3) i raised_fold by simp
      have "elems h1 ?L ! i \<in> (\<lambda>s. ?c s i) ` set (w' # rev vs)"
        using p(3) i fold_max_over(1) [where f = "\<lambda>s. ?c s i" and w = w' and vs = "rev vs"] by metis
      then obtain s where s: "s \<in> set (vs @ [w'])" "elems h1 ?L ! i = ?c s i" by auto
      note T = twin_window [OF t' w W [OF s(1)]]
      then show "elems h1 ?L ! i \<in> V i" using i s(2) Q by (simp add: tracked_def)
    qed
    have T': "?L \<noteq> None" "tracked n Q V h h0 w'" using twin_window [OF t' w W, of w'] by simp_all
    have "tracked n Q V h1 h0 s" if s: "tracked n Q V h h0 s" for s
    proof (cases "PerCorePercent s = ?L")
      case True
      have "raised (elems h0 ?L ! i) (elems h1 ?L ! i)" if i: "i < n" for i
      proof (rule raised_trans)
        show "raised (elems h0 ?L ! i) (elems h ?L ! i)" using T' i by (auto simp: tracked_def)
        show "raised (elems h ?L ! i) (elems h1 ?L ! i)" using val [OF i] by simp
      qed
      then show ?thesis using s T' val p(2) True by (auto simp: tracked_def)
    next
      case False
      then show ?thesis using s tracked_same [of h1 s h h0 h0] p(4) by simp
    qed
    moreover have "cpu_inv (m, h1)" using cpu_Peak_inv [OF inv, of now d] by (simp add: p(1))
    ultimately show ?thesis using t' by (simp add: st p(1,5) twin_def)
  qed
qed

lemma twin_run:
  assumes "twin n Q V st st0" "0 < n" "\<forall>op \<in> set ops. op_ok n op"
    and "\<forall>now d. PeakRequest now d \<in> set ops \<longrightarrow> (\<forall>u \<ge> now - d. Q u)"
    and "\<forall>e xs i. Sampled e \<in> set ops \<and> per_core_reading e = Inr xs \<and> i < n \<and> Q (stamp_clock e) \<longrightarrow> xs ! i \<in> V i"
  shows "twin n Q V (fold cpu_apply ops st) (fold cpu_collectOnce (cpu_ticks ops) st0)"
  using assms
proof (induction ops arbitrary: st st0)
  case (Cons op ops)
  show ?case
  proof (cases op)
    case (Sampled e)
    have "twin n Q V (cpu_collectOnce e st) (cpu_collectOnce e st0)"
      by (rule twin_tick [OF Cons.prems(1)]) (use Cons.prems(3,5) Sampled in auto)
    from Cons.IH [OF this Cons.prems(2)] show ?thesis using Cons.prems(3-5) Sampled by (simp, blast)
  next
    case (PeakRequest now d)
    have "twin n Q V (snd (cpu_Peak now d st)) st0"
      by (rule twin_peak [OF Cons.prems(1,2)]) (use Cons.prems(3,4) PeakRequest in auto)
    from Cons.IH [OF this Cons.prems(2)] show ?thesis using Cons.prems(3-5) PeakRequest by simp
  qed
qed simp

lemma twin_start:
  assumes "cpu_NewWithCollector oe pe infos e intv cap h = Inr (st, logs)" "op_ok n (Sampled e)"
    and "\<forall>xs i. per_core_reading e = Inr xs \<and> i < n \<and> Q (stamp_clock e) \<longrightarrow> xs ! i \<in> V i"
  shows "twin n Q V st st"
proof -
  obtain b where b: "NewBase cpu_zero_sample intv cap = Inr b"
    and st: "st = cpu_collectOnce e (\<lparr>cpu_base = Some b, cpu_profile_info = cpu_Info infos\<rparr>, h)"
    using assms(1) by (auto simp: cpu_NewWithCollector_def Let_def split: sum.splits)
  have "twin n Q V (\<lparr>cpu_base = Some b, cpu_profile_info = cpu_Info infos\<rparr>, h) (\<lparr>cpu_base = Some b, cpu_profile_info = cpu_Info infos\<rparr>, h)"
    using NewBase_inv [OF b] NewBase_fields [OF b] by (simp add: twin_def cpu_inv_def)
  then show ?thesis unfolding st by (rule twin_tick) (use assms(2,3) in auto)
qed

lemma run_without_requests:
  assumes "\<forall>now d. PeakRequest now d \<notin> set ops"
  shows "fold cpu_apply ops st = fold cpu_collectOnce (cpu_ticks ops) st"
  using assms
proof (induction ops arbitrary: st)
  case (Cons op ops)
  then show ?case by (cases op) auto
qed simp

section \<open>Properties\<close>

text \<open>
  C16. What a peak request answers per core, after any ticks and any earlier peak requests on a machine whose
  core count does not change (failed collections may occur). The answer is never below what any sample of
  the window measured for the core, and it is a value that some tick of the run measured for that core.
  It is a value measured within the window asked for if no earlier request looked further back than
  this one, and the maximum over the retained in-window samples if there was no earlier request. Without
  these provisos it need not be: an earlier request leaves its maxima in the newest sample
  (\<open>cpu_peak_outlives_window\<close>).
\<close>

theorem cpu_peak_per_core:
  assumes new: "cpu_NewWithCollector oe pe infos e intv cap h = Inr (st, logs)"
    and ops: "\<forall>op \<in> set (Sampled e # ops). op_ok n op" "0 < n"
    and run: "fold cpu_apply ops st = (m, h1)" "fold cpu_collectOnce (cpu_ticks ops) st = (m0, h0)"
    and window: "zero_time < now - d" "cpu_History now (m, h1) d = W" "W \<noteq> []"
  shows "m0 = m \<and> (\<exists>p h2. cpu_Peak now d (m, h1) = (Ptr (Some p), (m, h2)) \<and> length (elems h2 (PerCorePercent p)) = n
    \<and> (\<forall>i < n. let v = elems h2 (PerCorePercent p) ! i in
         (\<forall>s \<in> set W. \<not> f64_gt (elems h0 (PerCorePercent s) ! i) v)
       \<and> v \<in> measured (e # cpu_ticks ops) i
       \<and> ((\<forall>now' d'. PeakRequest now' d' \<in> set ops \<longrightarrow> now - d \<le> now' - d') \<longrightarrow>
            v \<in> measured (filter (\<lambda>e. now - d \<le> stamp_clock e) (e # cpu_ticks ops)) i)
       \<and> ((\<forall>now' d'. PeakRequest now' d' \<notin> set ops) \<longrightarrow> v \<in> (\<lambda>s. elems h0 (PerCorePercent s) ! i) ` set W)))"
proof -
  have twins: "twin n Q (measured (filter (\<lambda>e. Q (stamp_clock e)) (e # cpu_ticks ops))) (m, h1) (m0, h0)"
    if "\<forall>now d. PeakRequest now d \<in> set ops \<longrightarrow> (\<forall>u \<ge> now - d. Q u)" for Q
    unfolding run [symmetric]
  proof (rule twin_run)
    show "twin n Q (measured (filter (\<lambda>e. Q (stamp_clock e)) (e # cpu_ticks ops))) st st"
      by (rule twin_start [OF new]) (use ops(1) in \<open>auto simp: measured_def\<close>)
  qed (use ops that in \<open>auto simp: measured_def in_cpu_ticks\<close>)
  have t: "twin n (\<lambda>_. True) (measured (filter (\<lambda>_. True) (e # cpu_ticks ops))) (m, h1) (m0, h0)" by (rule twins) simp
  then have m0: "m0 = m" by (simp add: twin_def)
  have inv: "cpu_inv (m, h1)" using t by (simp add: twin_def m0)
  note T = t [unfolded m0]
  have width: "\<forall>s \<in> set W. length (elems h1 (PerCorePercent s)) = n"
    using twin_width [OF T window(1)] unfolding window(2) by blast
  obtain p h2 where p: "cpu_Peak now d (m, h1) = (Ptr (Some p), (m, h2))" "length (elems h2 (PerCorePercent p)) = n"
    and v: "\<forall>i < n. elems h2 (PerCorePercent p) ! i \<in> (\<lambda>s. elems h1 (PerCorePercent s) ! i) ` set W
        \<and> (\<forall>s \<in> set W. \<not> f64_gt (elems h1 (PerCorePercent s) ! i) (elems h2 (PerCorePercent p) ! i))"
    using cpu_peak_stored [OF inv window(2,3) ops(2) width] by blast
  have in_V: "elems h1 (PerCorePercent s) ! i \<in> V i"
    if "twin n Q V (m, h1) (m, h0)" "s \<in> set W" "i < n" "\<forall>u \<ge> now - d. Q u" for Q V s i
    using twin_window [OF that(1) window(1), of s] that(2-4) unfolding window(2) by (auto simp: tracked_def)
  have "let v = elems h2 (PerCorePercent p) ! i in
         (\<forall>s \<in> set W. \<not> f64_gt (elems h0 (PerCorePercent s) ! i) v)
       \<and> v \<in> measured (e # cpu_ticks ops) i
       \<and> ((\<forall>now' d'. PeakRequest now' d' \<in> set ops \<longrightarrow> now - d \<le> now' - d') \<longrightarrow>
            v \<in> measured (filter (\<lambda>e. now - d \<le> stamp_clock e) (e # cpu_ticks ops)) i)
       \<and> ((\<forall>now' d'. PeakRequest now' d' \<notin> set ops) \<longrightarrow> v \<in> (\<lambda>s. elems h0 (PerCorePercent s) ! i) ` set W)"
    if i: "i < n" for i
    unfolding Let_def
  proof (intro conjI ballI impI)
    obtain s where s: "s \<in> set W" "elems h2 (PerCorePercent p) ! i = elems h1 (PerCorePercent s) ! i" using v i by auto
    show "\<not> f64_gt (elems h0 (PerCorePercent u) ! i) (elems h2 (PerCorePercent p) ! i)" if u: "u \<in> set W" for u
    proof (rule raised_not_below)
      show "raised (elems h0 (PerCorePercent u) ! i) (elems h1 (PerCorePercent u) ! i)"
        using twin_window [OF T window(1), of u] u i unfolding window(2) by (auto simp: tracked_def)
      show "\<not> f64_gt (elems h1 (PerCorePercent u) ! i) (elems h2 (PerCorePercent p) ! i)" using v i u by blast
    qed
    show "elems h2 (PerCorePercent p) ! i \<in> measured (e # cpu_ticks ops) i"
      using in_V [OF T s(1) i] by (simp add: s(2))
    show "elems h2 (PerCorePercent p) ! i \<in> measured (filter (\<lambda>e. now - d \<le> stamp_clock e) (e # cpu_ticks ops)) i"
      if later: "\<forall>now' d'. PeakRequest now' d' \<in> set ops \<longrightarrow> now - d \<le> now' - d'"
      unfolding s(2) by (rule in_V [OF twins [of "\<lambda>t. now - d \<le> t", unfolded m0] s(1) i]) (use later in force)+
    show "elems h2 (PerCorePercent p) ! i \<in> (\<lambda>s. elems h0 (PerCorePercent s) ! i) ` set W"
      if none: "\<forall>now' d'. PeakRequest now' d' \<notin> set ops"
      using run_without_requests [OF none, of st] run s by simp
  qed
  then show ?thesis using m0 p by blast
qed

text \<open>
  A module of one core: 90 percent at second 1, 10 percent from then on, and after every tick a request for the peak
  of the last two seconds. At second 5 the window has three samples, which all measured 10, and the answer is 90:
  asked for regularly, a peak never leaves its window.
\<close>

definition one_core :: "int \<Rightarrow> cpu_op list" where
  "one_core t = [Sampled (reading t 10 [10]), PeakRequest (t * second) (2 * second)]"

definition polled_run :: "cpu_op list" where
  "polled_run = PeakRequest (1 * second) (2 * second) # concat (map one_core [2, 3, 4]) @ [Sampled (reading 5 10 [10])]"

definition peak_cores :: "instant \<Rightarrow> duration \<Rightarrow> cpu_state \<Rightarrow> f64 list" where
  "peak_cores now d st = (case cpu_Peak now d st of (Ptr (Some p), (m, h)) \<Rightarrow> elems h (PerCorePercent p) | _ \<Rightarrow> [])"

theorem cpu_peak_outlives_window:
  "let st = fold cpu_apply polled_run (started (reading 1 90 [90]));
       st0 = fold cpu_collectOnce (cpu_ticks polled_run) (started (reading 1 90 [90]))
   in map Timestamp (cpu_History (5 * second) st (2 * second)) = [3 * second, 4 * second, 5 * second]
    \<and> peak_cores (5 * second) (2 * second) st = [Fin 90]
    \<and> peak_cores (5 * second) (2 * second) st0 = [Fin 10]"
  by code_simp

theorem cpu_peak_per_core_witness:
  "\<exists>p h2. cpu_Peak (4 * second) (10 * second) (fold cpu_apply [Sampled (reading 2 80 [70, 50]), Sampled (reading 3 40 [50, 60])]
      (started (reading 1 30 [20, 30]))) = (Ptr (Some p), (run3_module, h2))
     \<and> length (elems h2 (PerCorePercent p)) = 2 \<and> elems h2 (PerCorePercent p) ! 0 \<in> {Fin 20, Fin 70, Fin 50}"
proof -
  let ?ops = "[Sampled (reading 2 80 [70, 50]), Sampled (reading 3 40 [50, 60])]" and ?e = "reading 1 30 [20, 30]"
  obtain st logs where st: "cpu_NewWithCollector None None (Inr []) ?e second 3 empty_heap = Inr (st, logs)"
    by (simp add: cpu_NewWithCollector_def NewBase_def NewRingBuffer_def Let_def)
  then have st': "st = started ?e" by (simp add: started_def)
  have run: "fold cpu_apply ?ops st = (run3_module, run3_heap)" "fold cpu_collectOnce (cpu_ticks ?ops) st = (run3_module, run3_heap)"
    by (simp_all add: st' run3_pair [symmetric] run3_def)
  have ok: "\<forall>op \<in> set (Sampled ?e # ?ops). op_ok 2 op" by (simp add: reading_def)
  have "zero_time < 4 * second - 10 * second" "run3_window \<noteq> []" by (simp_all add: zero_time_def run3_window_def)
  from cpu_peak_per_core [OF st ok _ run this(1) run3_history this(2)]
  obtain p h2 where p: "cpu_Peak (4 * second) (10 * second) (run3_module, run3_heap) = (Ptr (Some p), (run3_module, h2))"
    "length (elems h2 (PerCorePercent p)) = 2" "elems h2 (PerCorePercent p) ! 0 \<in> measured (?e # cpu_ticks ?ops) 0"
    by (auto simp: Let_def)
  have "measured (?e # cpu_ticks ?ops) 0 = {Fin 20, Fin 70, Fin 50}" by (auto simp: measured_def reading_def)
  then show ?thesis using p run(1) unfolding st' by auto
qed

end
