(* ===== verification/Spec2Isabelle.thy ===== *)
theory Spec2Isabelle
  imports Ring_Buffer Go_Float Go_Strings Go_Time Http Metrics_Base Module_Contract Cpu Memory Gpu
    Disk_Collector Storage Cors Middleware Rate_Limit Config Handlers Profile Lock Logging Server Main_Program Service Run
    Publication Peak_Race Storage_Poll Rate_Bound Rate_Race Service_Rate Delivery Cpu_Peak
begin

text \<open>
  \<^bold>\<open>Verification of workstation-probe\<close>, a monitor that samples the CPU, the memory, the GPUs and the
  disks of a host and serves the samples as JSON over HTTP. The model follows the Go sources under
  \<^verbatim>\<open>src/\<close>: a definition has the name of the function it translates, prefixed by its component where
  several components use the same name (\<open>cpu_Peak\<close>, \<open>mem_Peak\<close>, \<open>gpu_Peak\<close>).

  \<^bold>\<open>The program and the theories.\<close> Every sampling module embeds a \<open>Base\<close> with a ring buffer of its
  last samples; a goroutine of its own publishes one sample per tick, and the HTTP handlers read the
  latest sample, the history of a window, and the peak over a window. Around the mux stands a chain of
  middlewares. \<open>run\<close> takes the PID lock, loads the configuration, builds the enabled modules and serves.

  \<^item> \<open>Prelude\<close>: theorem collections, 64-bit wrap-around, machine types, and \<open>until_done\<close>, the loop that
    goes on until a step ends it. \<open>Go_Float\<close>, \<open>Go_Strings\<close>,
    \<open>Go_Time\<close>: what the program uses of Go's \<open>float64\<close>, \<open>strings\<close>, \<open>strconv\<close>, \<open>net\<close> and \<open>time\<close>, written
    out executably. \<open>Http\<close>: requests, response writers (the server's own and the observing writer of
    \<^verbatim>\<open>middleware/chain.go\<close>), JSON documents, and the contract of handlers that only write.
  \<^item> \<open>Ring_Buffer\<close> (\<^verbatim>\<open>metrics/ringbuffer.go\<close>), \<open>Metrics_Base\<close> (\<^verbatim>\<open>metrics/base.go\<close>), \<open>Module_Contract\<close>
    (\<^verbatim>\<open>metrics/module.go\<close>, \<^verbatim>\<open>peakable.go\<close>). \<open>Publication\<close>: \<open>Publish\<close> as three separate accesses with
    readers in between.
  \<^item> \<open>Cpu\<close>, \<open>Memory\<close>, \<open>Gpu\<close>, \<open>Storage\<close>: the four modules of \<^verbatim>\<open>internal/{cpu,memory,gpu,storage}\<close>. \<open>Cpu\<close>
    keeps a store of arrays, because samples share the backing arrays of their slices and \<open>Peak\<close> writes
    into one; \<open>Cpu_Peak\<close> follows what these writes do to the answers of later requests, and \<open>Peak_Race\<close> has them
    one by one, for requests that overlap. \<open>Gpu\<close> has the stub and
    the NVML collector. \<open>Disk_Collector\<close>: the callers and workers of \<^verbatim>\<open>storage/collector.go\<close> as a step
    relation; \<open>Storage_Poll\<close>: a tick of the storage module with the time its polls take.
  \<^item> \<open>Cors\<close> (\<^verbatim>\<open>internal/cors\<close>), \<open>Middleware\<close> (\<^verbatim>\<open>middleware/chain.go\<close>), \<open>Rate_Limit\<close>
    (\<^verbatim>\<open>middleware/ratelimit.go\<close>; \<open>Rate_Bound\<close>: runs of requests and clean-ups; \<open>Rate_Race\<close>: the accesses of
    requests that overlap, one by one), \<open>Config\<close> (\<^verbatim>\<open>config/config.go\<close>), \<open>Server\<close> (\<^verbatim>\<open>server/server.go\<close>).
  \<^item> \<open>Handlers\<close> and \<open>Profile\<close> (\<^verbatim>\<open>server/handlers\<close>): \<open>/metrics\<close> in both modes, \<open>/health\<close>, \<open>/profile\<close>.
  \<^item> \<open>Lock\<close> (\<^verbatim>\<open>lock/lock.go\<close>), \<open>Logging\<close> (\<^verbatim>\<open>logging/logging.go\<close>, the levels as a linear order),
    \<open>Main_Program\<close> (\<^verbatim>\<open>cmd/monitor/main.go\<close>: the mux, \<open>buildModules\<close>, the modules' start and shutdown),
    \<open>Service\<close>: the running service, where ticks, clean-ups and requests interleave, \<open>Service_Rate\<close> and
    \<open>Delivery\<close>: what the limiter and the memory module's history come to in it, \<open>Run\<close>: \<open>run\<close> around
    it, from the lock to the exit code, with the trace of what it does and logs.

  \<^bold>\<open>State.\<close> A module is a record with its base; the server's state is the limiter's table extended by
  the modules and the store (\<open>app\<close>). A handler maps a request and a connection (state, writer, log,
  and what it reads from the clock and the random source) to its outcome and the connection left, so
  panics, errors and early returns are values. The server's own writer keeps what the handlers wrote and
  whether the request is a HEAD (\<open>head_only\<close>), whose body the client does not get (\<open>written\<close>, \<open>wire_body\<close>).
  \<open>run\<close> maps the flags and the outside world (a record) to
  its exit, a trace of events and the file system left. Integers that Go keeps in 64 bits are words or are
  wrapped explicitly; samples' floats are binary64 values with correct rounding.

  \<^bold>\<open>Interfaces.\<close> \<open>bounded_log\<close> and its extension \<open>timed_log\<close> (what a history promises; interpreted by the
  ring buffer), \<open>sampled_module\<close> and its extension \<open>peakable_module\<close> (what the four, respectively the three
  peakable modules promise; each interprets it on its own operations), \<open>gpu_collector\<close> (life cycle of a
  collector; stub and NVML), \<open>merged_view\<close> (one value per module assigned in a loop; both modes of
  \<open>/metrics\<close>). The predicates \<open>polite\<close>, \<open>keeps_header\<close> and \<open>safe\<close> are the contracts of handlers that the
  middlewares preserve.

  \<^bold>\<open>What is shown.\<close> The ring buffer refines a list bounded by its capacity; a module's history is the
  in-window part of the last capacity samples; peaks are the maxima they claim to be, field by field,
  with the exceptions the code has: the memory percentage is recomputed; a CPU request writes its maxima
  into the newest sample, so over a run a core's peak is a value measured for it, and the maximum of the
  window as long as no earlier request wrote into that sample (\<open>cpu_peak_outlives_window\<close> shows a peak
  served for a later, shorter window that it does not belong to).
  The origin grammar and its match are characterised, and the allow header reaches only allowed
  origins. The limiter isolates clients; over any stretch of time, clean-ups included, a client gets no
  more than its burst and the refill through, provided a bucket refills within the idle time (with the
  defaults 20 tokens do at 10 per second in 10 minutes; \<open>eviction_renews_burst\<close> shows the proviso is
  needed). The bound holds for the requests that reach the mux of the running service, and under requests
  that overlap, provided none reserves later than a given lag after its look-up (a clean-up in between
  would leave it with a limiter the table has forgotten). A denied client that waits \<open>Retry-After\<close> seconds
  is served; \<open>denied_request_costs_another\<close> shows that a denied request whose reservation is not yet
  cancelled can cost another one its token.
  Request identifiers are safe, and a request adds exactly one access line, which agrees with the response
  (the body of a HEAD is counted but not sent). \<open>Validate\<close> accepts exactly the
  well-formed configurations, and what \<open>Load\<close> accepts is enforced by the chain \<open>Build\<close> assembles; the listen
  address splits back into host and port exactly when the host has no brackets (\<open>bracketed_host_loads\<close>: one
  with brackets is accepted nevertheless). The endless loops return exactly when \<open>select\<close> picks the
  cancelled context. The PID
  lock excludes when checks and writes do not overlap, and does not when they do. \<open>run\<close>'s exit codes,
  the removal of its lock, the modules it builds and abandons, the GPU library it releases or leaves
  initialised; whatever the level, a run that fails logs its cause last, and the access log follows the
  level. In the service: no request panics in any reachable state, each module runs as if alone, the
  last measured sample is what a client reads, and the memory history it reads is the in-window part of
  the readings of the last capacity ticks. Below the granularity of a tick: every read of a
  base that is being published to is one between whole publications and readers never go back;
  overlapping peaks stay between the measurement and the maximum but can lose the maximum; a storage
  tick is bounded by 500 ms per mount, and a hung mount can make \<open>/health\<close> report the service degraded.

  \<^bold>\<open>Bounds and fuel.\<close> No definition needs fuel. The loops that end are recursions over finite lists. The
  endless ones (\<open>RunLoop\<close>, \<open>cleanupLoop\<close>) are partial functions, instances of \<open>until_done\<close>, of the infinite
  sequence of choices \<open>select\<close> makes: a loop that never returns has the value \<open>None\<close>. A \<open>run\<close> whose
  \<open>select\<close> has no case ready is \<open>Blocked\<close>, not a missing result. Capacities, window lengths, numbers of
  devices, mounts and clients are arbitrary.

  \<^bold>\<open>Parameters.\<close> What gopsutil, NVML, \<^verbatim>\<open>golang.org/x/time/rate\<close>, the YAML decoder, the file system, the
  clock and the random source answer are arguments of the definitions that use them; properties hold
  for every answer unless a hypothesis names one. \<open>Rate_Bound\<close> names what the documentation of the token
  bucket says (\<open>token_bucket\<close>) and has a bucket that satisfies it; \<open>Rate_Race\<close> does so for a bucket that
  several requests use at once (\<open>shared_bucket\<close>: it speaks of cancelling a reservation that is outstanding,
  and \<open>pending_api\<close>, which satisfies it, gives a token back when one is cancelled, \<open>pending_reverses\<close>).

  \<^bold>\<open>Not modelled.\<close> The text of JSON (a body holds the document), of time stamps and of log lines (a
  record holds level, message and attributes); what the HTTP server does with its time-outs and
  connections, and the signal set-up (how listening, draining and waiting end is an argument of
  \<open>run\<close>); the parsing of the command line; the one-line constructors \<open>New\<close> that pass the default
  collector; the web panel (JavaScript, CSS and Hugo templates), the installation scripts, the unit
  template and the tests.
\<close>

end
